(* ===== verification/Prelude.thy ===== *)
theory Prelude
  imports Main "HOL-Library.Word" "HOL-Library.Monad_Syntax" "HOL-Library.Signed_Division"
begin

unbundle bit_operations_syntax

text \<open>
  Shared vocabulary of the development.  Fallible code is modelled in the option monad:
  \<open>None\<close> is a failed \<^verbatim>\<open>assert\<close> (the process aborts), \<open>Some x\<close> a normal return.  The
  predicate \<open>ok\<close> is the total-correctness triple for that monad: \<open>ok r P\<close> says that the
  computation returns and that its result satisfies \<open>P\<close>.  The rules for \<open>ok\<close> are
  collected in \<open>ok_rules\<close>.  The second half holds the facts on fixed-width integers
  (\<open>take_bit\<close>, \<open>drop_bit\<close>, \<open>push_bit\<close> on \<open>int\<close>) that the expression theories share.
\<close>

named_theorems ok_rules \<open>introduction rules for the total-correctness predicate\<close>
named_theorems width_simps \<open>simplification rules for widths and ranges\<close>
named_theorems denotes_rules \<open>what the expression constructors denote\<close>

type_synonym width = nat
type_synonym u8 = "8 word"
type_synonym u32 = "32 word"
type_synonym u64 = "64 word"

section \<open>Total correctness in the option monad\<close>

definition ok :: "'a option \<Rightarrow> ('a \<Rightarrow> bool) \<Rightarrow> bool" where
  "ok r P = (case r of None \<Rightarrow> False | Some x \<Rightarrow> P x)"

definition assert_that :: "bool \<Rightarrow> unit option" where
  "assert_that b = (if b then Some () else None)"

lemma ok_None [simp]: "\<not> ok None P"
  by (simp add: ok_def)

lemma ok_Some [simp]: "ok (Some x) P = P x"
  by (simp add: ok_def)

lemma ok_iff: "ok r P \<longleftrightarrow> (\<exists>x. r = Some x \<and> P x)"
  by (cases r) auto

lemma okE: "ok r P \<Longrightarrow> (\<And>x. r = Some x \<Longrightarrow> P x \<Longrightarrow> thesis) \<Longrightarrow> thesis"
  by (auto simp: ok_iff)

lemma ok_mono: "ok r P \<Longrightarrow> (\<And>x. P x \<Longrightarrow> Q x) \<Longrightarrow> ok r Q"
  by (auto simp: ok_iff)

lemma ok_bind [ok_rules]:
  "ok r Q \<Longrightarrow> (\<And>x. Q x \<Longrightarrow> ok (f x) P) \<Longrightarrow> ok (r \<bind> f) P"
  by (auto simp: ok_iff)

lemma ok_bind_iff: "ok (r \<bind> f) P \<longleftrightarrow> ok r (\<lambda>x. ok (f x) P)"
  by (cases r) auto

lemma ok_map_option [simp]: "ok (map_option f r) P \<longleftrightarrow> ok r (\<lambda>x. P (f x))"
  by (cases r) auto

lemma ok_conj: "ok r P \<Longrightarrow> ok r Q \<Longrightarrow> ok r (\<lambda>x. P x \<and> Q x)"
  by (auto simp: ok_iff)

lemma ok_assert [simp]: "ok (assert_that b) P \<longleftrightarrow> b \<and> P ()"
  by (simp add: assert_that_def)

lemma assert_that_eq_Some [simp]: "assert_that b = Some u \<longleftrightarrow> b"
  by (simp add: assert_that_def)

lemma assert_that_True [simp]: "assert_that True = Some ()"
  by (simp add: assert_that_def)

lemma assert_that_False [simp]: "assert_that False = None"
  by (simp add: assert_that_def)

text \<open>A loop over a list whose body may fail.\<close>

primrec foldM :: "('a \<Rightarrow> 's \<Rightarrow> 's option) \<Rightarrow> 'a list \<Rightarrow> 's \<Rightarrow> 's option" where
  "foldM f [] s = Some s"
| "foldM f (x # xs) s = do { s' \<leftarrow> f x s; foldM f xs s' }"

lemma foldM_append: "foldM f (xs @ ys) s = do { s' \<leftarrow> foldM f xs s; foldM f ys s' }"
  by (induction xs arbitrary: s) (auto split: bind_split)

text \<open>The invariant rule: \<open>I n\<close> holds of the state after the first \<open>n\<close> elements.\<close>

lemma foldM_ok:
  assumes "I 0 s" "\<And>n s. n < length xs \<Longrightarrow> I n s \<Longrightarrow> ok (f (xs ! n) s) (I (Suc n))"
  shows "ok (foldM f xs s) (I (length xs))"
  using assms
proof (induction xs arbitrary: s I)
  case (Cons x xs)
  have "ok (f x s) (I 1)" using Cons.prems(1) Cons.prems(2) [of 0] by simp
  moreover have "ok (foldM f xs s') (I (Suc (length xs)))" if "I 1 s'" for s'
    using Cons.IH [of "\<lambda>n. I (Suc n)" s'] that Cons.prems(2) [of "Suc _"] by fastforce
  ultimately show ?case by (auto intro: ok_bind)
qed simp

section \<open>Fixed-width integers as bounded integers\<close>

text \<open>A \<open>w\<close>-bit value is an integer in \<open>0 ..< 2 ^ w\<close>.\<close>

definition in_width :: "width \<Rightarrow> int \<Rightarrow> bool" where
  "in_width w v \<longleftrightarrow> 0 \<le> v \<and> v < 2 ^ w"

lemma in_widthI [intro]: "0 \<le> v \<Longrightarrow> v < 2 ^ w \<Longrightarrow> in_width w v"
  by (simp add: in_width_def)

lemma in_widthD: "in_width w v \<Longrightarrow> 0 \<le> v" "in_width w v \<Longrightarrow> v < 2 ^ w"
  by (simp_all add: in_width_def)

lemma take_bit_in_width [simp, width_simps]: "in_width w (take_bit w v)"
  by (simp add: in_width_def)

lemma in_width_take_bit [simp]: "in_width w v \<Longrightarrow> take_bit w v = v"
  by (simp add: in_width_def take_bit_int_eq_self)

lemma in_width_iff_take_bit: "in_width w v \<longleftrightarrow> take_bit w v = v"
  by (metis in_width_take_bit take_bit_in_width)

lemma in_width_mono: "in_width w v \<Longrightarrow> w \<le> w' \<Longrightarrow> in_width w' v"
  unfolding in_width_def
  by (meson order_less_le_trans power_increasing one_le_numeral)

lemma in_width_0 [simp, width_simps]: "in_width w 0"
  by (simp add: in_width_def)

lemma in_width_1 [simp, width_simps]: "0 < w \<Longrightarrow> in_width w 1"
  by (simp add: in_width_def)

lemma in_width_of_bool [simp, width_simps]: "0 < w \<Longrightarrow> in_width w (of_bool b)"
  by (cases b) simp_all

lemma in_width_and [width_simps]: "in_width w a \<Longrightarrow> in_width w b \<Longrightarrow> in_width w (a AND b)"
  by (simp add: in_width_iff_take_bit)

lemma in_width_or [width_simps]: "in_width w a \<Longrightarrow> in_width w b \<Longrightarrow> in_width w (a OR b)"
  by (simp add: in_width_iff_take_bit)

lemma in_width_xor [width_simps]: "in_width w a \<Longrightarrow> in_width w b \<Longrightarrow> in_width w (a XOR b)"
  by (simp add: in_width_iff_take_bit)

lemma in_width_le: "in_width w a \<Longrightarrow> 0 \<le> b \<Longrightarrow> b \<le> a \<Longrightarrow> in_width w b"
  by (auto simp: in_width_def)

lemma int_div_le_self: "0 \<le> (a::int) \<Longrightarrow> 0 \<le> b \<Longrightarrow> 0 \<le> a div b \<and> a div b \<le> a"
  using zdiv_mono2 [of a 1 b] by (cases "b = 0") (auto simp: pos_imp_zdiv_nonneg_iff)

lemma in_width_div [width_simps]: "in_width w a \<Longrightarrow> 0 \<le> b \<Longrightarrow> in_width w (a div b)"
  using int_div_le_self [of a b] by (auto simp: in_width_def)

section \<open>Decimal numerals\<close>

fun utostr :: "nat \<Rightarrow> string" where
  "utostr n = (if n < 10 then [char_of (48 + n)] else utostr (n div 10) @ [char_of (48 + n mod 10)])"

declare utostr.simps [simp del]

end
