(* ===== verification/Const_Expr.thy ===== *)
theory Const_Expr
  imports Prelude
begin

unbundle bit_operations_syntax

text \<open>
  Constant expressions: class \<^verbatim>\<open>ConstantExpr\<close> of \<^verbatim>\<open>include/klee/Expr/Expr.h\<close> and
  \<^verbatim>\<open>lib/Expr/Expr.cpp\<close>.  A constant wraps a fixed-width integer whose width is a run-time
  value.  It is modelled as a pair of the width in bits and the unsigned value, with the
  wrap-around of every operation written out by \<open>take_bit\<close>.  The first section holds the
  integer primitives that the class calls; the second the methods of the class.
\<close>

section \<open>Integers of a run-time width\<close>

datatype apint = APInt (bitWidth: width) (apval: int)

definition wf_ap :: "apint \<Rightarrow> bool" where
  "wf_ap c \<longleftrightarrow> 0 < bitWidth c \<and> in_width (bitWidth c) (apval c)"

definition ap_mk :: "width \<Rightarrow> int \<Rightarrow> apint" where
  "ap_mk w v = APInt w (take_bit w v)"

definition sval :: "width \<Rightarrow> int \<Rightarrow> int" where
  "sval w v = signed_take_bit (w - 1) v"

definition ap_zextOrTrunc :: "apint \<Rightarrow> width \<Rightarrow> apint" where
  "ap_zextOrTrunc c w = ap_mk w (apval c)"

definition ap_sextOrTrunc :: "apint \<Rightarrow> width \<Rightarrow> apint" where
  "ap_sextOrTrunc c w = ap_mk w (sval (bitWidth c) (apval c))"

definition ap_shl :: "apint \<Rightarrow> nat \<Rightarrow> apint" where
  "ap_shl c n = ap_mk (bitWidth c) (push_bit n (apval c))"

definition ap_lshr :: "apint \<Rightarrow> nat \<Rightarrow> apint" where
  "ap_lshr c n = ap_mk (bitWidth c) (drop_bit n (apval c))"

definition ap_ashr :: "apint \<Rightarrow> nat \<Rightarrow> apint" where
  "ap_ashr c n = ap_mk (bitWidth c) (drop_bit n (sval (bitWidth c) (apval c)))"

definition ap_or :: "apint \<Rightarrow> apint \<Rightarrow> apint" where
  "ap_or a b = ap_mk (bitWidth a) (apval a OR apval b)"

definition ap_bool :: "bool \<Rightarrow> apint" where
  "ap_bool b = APInt 1 (of_bool b)"

section \<open>The class ConstantExpr\<close>

definition ConstantExpr_alloc :: "u64 \<Rightarrow> width \<Rightarrow> apint" where
  "ConstantExpr_alloc v w = ap_mk w (uint v)"

definition ConstantExpr_create :: "u64 \<Rightarrow> width \<Rightarrow> apint option" where
  "ConstantExpr_create v w = do {
     assert_that (w \<le> 64 \<longrightarrow> 0 < w \<and> uint v = take_bit w (uint v));
     Some (ConstantExpr_alloc v w)
   }"

definition ConstantExpr_getZExtValue :: "apint \<Rightarrow> nat \<Rightarrow> u64 option" where
  "ConstantExpr_getZExtValue c bits = do {
     assert_that (bitWidth c \<le> bits);
     Some (word_of_int (apval c))
   }"

definition ConstantExpr_isZero :: "apint \<Rightarrow> bool" where
  "ConstantExpr_isZero c \<longleftrightarrow> apval c = 0"

definition ConstantExpr_isOne :: "apint \<Rightarrow> bool" where
  "ConstantExpr_isOne c \<longleftrightarrow> min (apval c) (2 ^ 64 - 1) = 1"

definition ConstantExpr_isTrue :: "apint \<Rightarrow> bool" where
  "ConstantExpr_isTrue c \<longleftrightarrow> bitWidth c = 1 \<and> apval c \<noteq> 0"

definition ConstantExpr_isFalse :: "apint \<Rightarrow> bool" where
  "ConstantExpr_isFalse c \<longleftrightarrow> bitWidth c = 1 \<and> apval c = 0"

definition ConstantExpr_isAllOnes :: "apint \<Rightarrow> bool" where
  "ConstantExpr_isAllOnes c \<longleftrightarrow> apval c = mask (bitWidth c)"

definition ConstantExpr_compareContents :: "apint \<Rightarrow> apint \<Rightarrow> int" where
  "ConstantExpr_compareContents a b =
     (if bitWidth a \<noteq> bitWidth b then (if bitWidth a < bitWidth b then -1 else 1)
      else if apval a = apval b then 0
      else if apval a < apval b then -1 else 1)"

definition ConstantExpr_Concat :: "apint \<Rightarrow> apint \<Rightarrow> apint" where
  "ConstantExpr_Concat a b =
     (let W = bitWidth a + bitWidth b;
          Tmp = ap_zextOrTrunc a W;
          Tmp = ap_shl Tmp (bitWidth b)
      in ap_or Tmp (ap_zextOrTrunc b W))"

definition ConstantExpr_Extract :: "apint \<Rightarrow> nat \<Rightarrow> width \<Rightarrow> apint" where
  "ConstantExpr_Extract a off W = ap_zextOrTrunc (ap_ashr a off) W"

definition ConstantExpr_ZExt :: "apint \<Rightarrow> width \<Rightarrow> apint" where
  "ConstantExpr_ZExt a W = ap_zextOrTrunc a W"

definition ConstantExpr_SExt :: "apint \<Rightarrow> width \<Rightarrow> apint" where
  "ConstantExpr_SExt a W = ap_sextOrTrunc a W"

definition ConstantExpr_Add :: "apint \<Rightarrow> apint \<Rightarrow> apint" where
  "ConstantExpr_Add a b = ap_mk (bitWidth a) (apval a + apval b)"

definition ConstantExpr_Neg :: "apint \<Rightarrow> apint" where
  "ConstantExpr_Neg a = ap_mk (bitWidth a) (- apval a)"

definition ConstantExpr_Sub :: "apint \<Rightarrow> apint \<Rightarrow> apint" where
  "ConstantExpr_Sub a b = ap_mk (bitWidth a) (apval a - apval b)"

definition ConstantExpr_Mul :: "apint \<Rightarrow> apint \<Rightarrow> apint" where
  "ConstantExpr_Mul a b = ap_mk (bitWidth a) (apval a * apval b)"

text \<open>Division by a zero constant fails an assertion of the integer class.\<close>

definition ConstantExpr_UDiv :: "apint \<Rightarrow> apint \<Rightarrow> apint option" where
  "ConstantExpr_UDiv a b = do {
     assert_that (apval b \<noteq> 0);
     Some (ap_mk (bitWidth a) (apval a div apval b))
   }"

definition ConstantExpr_SDiv :: "apint \<Rightarrow> apint \<Rightarrow> apint option" where
  "ConstantExpr_SDiv a b = do {
     assert_that (apval b \<noteq> 0);
     Some (ap_mk (bitWidth a) (sval (bitWidth a) (apval a) sdiv sval (bitWidth b) (apval b)))
   }"

definition ConstantExpr_URem :: "apint \<Rightarrow> apint \<Rightarrow> apint option" where
  "ConstantExpr_URem a b = do {
     assert_that (apval b \<noteq> 0);
     Some (ap_mk (bitWidth a) (apval a mod apval b))
   }"

definition ConstantExpr_SRem :: "apint \<Rightarrow> apint \<Rightarrow> apint option" where
  "ConstantExpr_SRem a b = do {
     assert_that (apval b \<noteq> 0);
     Some (ap_mk (bitWidth a) (sval (bitWidth a) (apval a) smod sval (bitWidth b) (apval b)))
   }"

definition ConstantExpr_And :: "apint \<Rightarrow> apint \<Rightarrow> apint" where
  "ConstantExpr_And a b = ap_mk (bitWidth a) (apval a AND apval b)"

definition ConstantExpr_Or :: "apint \<Rightarrow> apint \<Rightarrow> apint" where
  "ConstantExpr_Or a b = ap_or a b"

definition ConstantExpr_Xor :: "apint \<Rightarrow> apint \<Rightarrow> apint" where
  "ConstantExpr_Xor a b = ap_mk (bitWidth a) (apval a XOR apval b)"

definition ConstantExpr_Shl :: "apint \<Rightarrow> apint \<Rightarrow> apint" where
  "ConstantExpr_Shl a b = ap_shl a (nat (apval b))"

definition ConstantExpr_LShr :: "apint \<Rightarrow> apint \<Rightarrow> apint" where
  "ConstantExpr_LShr a b = ap_lshr a (nat (apval b))"

definition ConstantExpr_AShr :: "apint \<Rightarrow> apint \<Rightarrow> apint" where
  "ConstantExpr_AShr a b = ap_ashr a (nat (apval b))"

definition ConstantExpr_Not :: "apint \<Rightarrow> apint" where
  "ConstantExpr_Not a = ap_mk (bitWidth a) (NOT (apval a))"

definition ConstantExpr_Eq :: "apint \<Rightarrow> apint \<Rightarrow> apint" where
  "ConstantExpr_Eq a b = ap_bool (apval a = apval b)"

definition ConstantExpr_Ne :: "apint \<Rightarrow> apint \<Rightarrow> apint" where
  "ConstantExpr_Ne a b = ap_bool (apval a \<noteq> apval b)"

definition ConstantExpr_Ult :: "apint \<Rightarrow> apint \<Rightarrow> apint" where
  "ConstantExpr_Ult a b = ap_bool (apval a < apval b)"

definition ConstantExpr_Ule :: "apint \<Rightarrow> apint \<Rightarrow> apint" where
  "ConstantExpr_Ule a b = ap_bool (apval a \<le> apval b)"

definition ConstantExpr_Ugt :: "apint \<Rightarrow> apint \<Rightarrow> apint" where
  "ConstantExpr_Ugt a b = ap_bool (apval a > apval b)"

definition ConstantExpr_Uge :: "apint \<Rightarrow> apint \<Rightarrow> apint" where
  "ConstantExpr_Uge a b = ap_bool (apval a \<ge> apval b)"

definition ConstantExpr_Slt :: "apint \<Rightarrow> apint \<Rightarrow> apint" where
  "ConstantExpr_Slt a b = ap_bool (sval (bitWidth a) (apval a) < sval (bitWidth b) (apval b))"

definition ConstantExpr_Sle :: "apint \<Rightarrow> apint \<Rightarrow> apint" where
  "ConstantExpr_Sle a b = ap_bool (sval (bitWidth a) (apval a) \<le> sval (bitWidth b) (apval b))"

definition ConstantExpr_Sgt :: "apint \<Rightarrow> apint \<Rightarrow> apint" where
  "ConstantExpr_Sgt a b = ap_bool (sval (bitWidth a) (apval a) > sval (bitWidth b) (apval b))"

definition ConstantExpr_Sge :: "apint \<Rightarrow> apint \<Rightarrow> apint" where
  "ConstantExpr_Sge a b = ap_bool (sval (bitWidth a) (apval a) \<ge> sval (bitWidth b) (apval b))"

section \<open>Facts\<close>

lemma bitWidth_ap_mk [simp]: "bitWidth (ap_mk w v) = w"
  by (simp add: ap_mk_def)

lemma apval_ap_mk [simp]: "apval (ap_mk w v) = take_bit w v"
  by (simp add: ap_mk_def)

lemma bitWidth_ap_bool [simp]: "bitWidth (ap_bool b) = 1"
  by (simp add: ap_bool_def)

lemma apval_ap_bool [simp]: "apval (ap_bool b) = of_bool b"
  by (simp add: ap_bool_def)

lemma wf_ap_mk [simp]: "wf_ap (ap_mk w v) \<longleftrightarrow> 0 < w"
  by (simp add: wf_ap_def)

lemma wf_ap_bool [simp]: "wf_ap (ap_bool b)"
  by (simp add: wf_ap_def)

lemma wf_apD [dest]: "wf_ap c \<Longrightarrow> in_width (bitWidth c) (apval c)" "wf_ap c \<Longrightarrow> 0 < bitWidth c"
  by (simp_all add: wf_ap_def)

lemma wf_ap_APInt [simp]: "wf_ap (APInt w v) \<longleftrightarrow> 0 < w \<and> in_width w v"
  by (simp add: wf_ap_def)

lemma ap_mk_eq: "in_width w v \<Longrightarrow> ap_mk w v = APInt w v"
  by (simp add: ap_mk_def)

lemma apint_eq_iff: "a = b \<longleftrightarrow> bitWidth a = bitWidth b \<and> apval a = apval b"
  by (cases a; cases b) auto

lemma sval_eq_iff:
  assumes "in_width w a" "in_width w b" "0 < w"
  shows "sval w a = sval w b \<longleftrightarrow> a = b"
proof
  assume "sval w a = sval w b"
  then have "take_bit w (sval w a) = take_bit w (sval w b)" by simp
  then show "a = b"
    using assms by (simp add: sval_def take_bit_signed_take_bit)
qed simp

lemma take_bit_sval [simp]: "0 < w \<Longrightarrow> in_width w a \<Longrightarrow> take_bit w (sval w a) = a"
  by (simp add: sval_def take_bit_signed_take_bit)

lemma sval_take_bit: "0 < w \<Longrightarrow> sval w (take_bit w v) = sval w v"
  by (simp add: sval_def signed_take_bit_eq_iff_take_bit_eq)

text \<open>Extracting with an arithmetic shift reads the same bits as a logical one, because the
  extracted range lies below the sign bit's fill.\<close>

lemma apval_Extract:
  assumes "in_width w v" "off + n \<le> w" "0 < n"
  shows "ConstantExpr_Extract (APInt w v) off n = ap_mk n (drop_bit off v)"
proof -
  have "take_bit n (take_bit w (drop_bit off (sval w v))) = take_bit n (drop_bit off v)"
  proof (rule bit_eqI)
    fix i
    have "min (w - 1) (off + i) = off + i" if "i < n"
      using assms that by simp
    then show "bit (take_bit n (take_bit w (drop_bit off (sval w v)))) i =
          bit (take_bit n (drop_bit off v)) i"
      using assms
      by (auto simp: sval_def bit_take_bit_iff bit_drop_bit_eq bit_signed_take_bit_iff)
  qed
  then show ?thesis
    by (simp add: ConstantExpr_Extract_def ap_zextOrTrunc_def ap_ashr_def ap_mk_def)
qed

text \<open>Concatenation by widen, shift and or puts the left value above the right one.\<close>

lemma apval_Concat:
  assumes "in_width w v" "in_width w' v'"
  shows "ConstantExpr_Concat (APInt w v) (APInt w' v') = APInt (w + w') (push_bit w' v + v')"
proof -
  have "push_bit w' v OR v' = concat_bit w' v' v"
    using assms by (simp add: concat_bit_def or.commute)
  also have "\<dots> = push_bit w' v + v'"
    using assms by (simp add: concat_bit_eq)
  finally have eq: "push_bit w' v OR v' = push_bit w' v + v'" .
  have "in_width (w + w') v" "in_width (w + w') v'"
    using assms by (auto intro: in_width_mono)
  moreover have "in_width (w + w') (push_bit w' v)"
    using assms by (simp add: in_width_def push_bit_eq_mult power_add)
  ultimately show ?thesis
    by (simp add: ConstantExpr_Concat_def ap_zextOrTrunc_def ap_shl_def ap_or_def ap_mk_def
        Let_def in_width_or eq [symmetric])
qed

end
