(* ===== verification/Expr_Syntax.thy ===== *)
theory Expr_Syntax
  imports Const_Expr "HOL-Library.Char_ord" "HOL-Library.List_Lexorder"
begin

unbundle bit_operations_syntax

text \<open>
  The symbolic expression language: the class hierarchy of \<^verbatim>\<open>include/klee/Expr/Expr.h\<close>,
  its structural hash and comparison (\<^verbatim>\<open>lib/Expr/Expr.cpp\<close>, \<^verbatim>\<open>lib/Expr/Updates.cpp\<close>), the
  meaning of an expression under an assignment of the symbolic arrays, and the typing
  discipline that the assertions of the constructors enforce.  Reference counts and the
  sharing of nodes have no observable effect on these operations and are left out.
\<close>

section \<open>Arrays, update nodes and expressions\<close>

text \<open>
  The field \<open>arr_ptr\<close> is the address of the array object: \<^verbatim>\<open>UpdateList::compare\<close> tells two
  arrays of the same name apart by it.  An array with no constant values is symbolic.
\<close>

record array =
  arr_ptr :: nat
  arr_name :: string
  arr_size :: nat
  arr_domain :: width
  arr_range :: width
  constantValues :: "apint list"

definition isSymbolicArray :: "array \<Rightarrow> bool" where
  "isSymbolicArray a \<longleftrightarrow> constantValues a = []"

definition isConstantArray :: "array \<Rightarrow> bool" where
  "isConstantArray a \<longleftrightarrow> \<not> isSymbolicArray a"

definition Array_create ::
  "nat \<Rightarrow> string \<Rightarrow> nat \<Rightarrow> apint list \<Rightarrow> width \<Rightarrow> width \<Rightarrow> array option" where
  "Array_create ptr name sz consts domw ranw = do {
     let a = \<lparr>arr_ptr = ptr, arr_name = name, arr_size = sz, arr_domain = domw,
              arr_range = ranw, constantValues = consts\<rparr>;
     assert_that (isSymbolicArray a \<or> length consts = sz);
     assert_that (\<forall>c \<in> set consts. bitWidth c = ranw);
     Some a
   }"

datatype bop = Add | Sub | Mul | UDiv | SDiv | URem | SRem
  | And | Or | Xor | Shl | LShr | AShr

datatype cop = Eq | Ne | Ult | Ule | Ugt | Uge | Slt | Sle | Sgt | Sge

datatype expr =
    ConstantExpr apint
  | NotOptimizedExpr expr
  | ReadExpr array unode expr
  | SelectExpr expr expr expr
  | ConcatExpr expr expr
  | ExtractExpr expr nat width
  | ZExtExpr expr width
  | SExtExpr expr width
  | NotExpr expr
  | BinaryExpr bop expr expr
  | CmpExpr cop expr expr
and unode =
    NullNode
  | UpdateNode unode expr expr

text \<open>An update list is its root array and the most recent update.\<close>

type_synonym ulist = "array \<times> unode"

primrec getWidth :: "expr \<Rightarrow> width" where
  "getWidth (ConstantExpr c) = bitWidth c"
| "getWidth (NotOptimizedExpr e) = getWidth e"
| "getWidth (ReadExpr a un i) = arr_range a"
| "getWidth (SelectExpr c t f) = getWidth t"
| "getWidth (ConcatExpr l r) = getWidth l + getWidth r"
| "getWidth (ExtractExpr e off w) = w"
| "getWidth (ZExtExpr e w) = w"
| "getWidth (SExtExpr e w) = w"
| "getWidth (NotExpr e) = getWidth e"
| "getWidth (BinaryExpr k l r) = getWidth l"
| "getWidth (CmpExpr k l r) = 1"

primrec bop_kind :: "bop \<Rightarrow> nat" where
  "bop_kind Add = 10" | "bop_kind Sub = 11" | "bop_kind Mul = 12" | "bop_kind UDiv = 13"
| "bop_kind SDiv = 14" | "bop_kind URem = 15" | "bop_kind SRem = 16" | "bop_kind And = 17"
| "bop_kind Or = 18" | "bop_kind Xor = 19" | "bop_kind Shl = 20" | "bop_kind LShr = 21"
| "bop_kind AShr = 22"

primrec cop_kind :: "cop \<Rightarrow> nat" where
  "cop_kind Eq = 23" | "cop_kind Ne = 24" | "cop_kind Ult = 25" | "cop_kind Ule = 26"
| "cop_kind Ugt = 27" | "cop_kind Uge = 28" | "cop_kind Slt = 29" | "cop_kind Sle = 30"
| "cop_kind Sgt = 31" | "cop_kind Sge = 32"

primrec getKind :: "expr \<Rightarrow> nat" where
  "getKind (ConstantExpr c) = 0"
| "getKind (NotOptimizedExpr e) = 1"
| "getKind (ReadExpr a un i) = 3"
| "getKind (SelectExpr c t f) = 4"
| "getKind (ConcatExpr l r) = 5"
| "getKind (ExtractExpr e off w) = 6"
| "getKind (ZExtExpr e w) = 7"
| "getKind (SExtExpr e w) = 8"
| "getKind (NotExpr e) = 9"
| "getKind (BinaryExpr k l r) = bop_kind k"
| "getKind (CmpExpr k l r) = cop_kind k"

primrec UpdateNode_getSize :: "unode \<Rightarrow> nat" where
  "UpdateNode_getSize NullNode = 0"
| "UpdateNode_getSize (UpdateNode nx i v) = 1 + UpdateNode_getSize nx"

definition UpdateList_getSize :: "ulist \<Rightarrow> nat" where
  "UpdateList_getSize ul = UpdateNode_getSize (snd ul)"

text \<open>\<^verbatim>\<open>UpdateList::extend\<close> asserts the widths against the root array.\<close>

definition UpdateList_extend :: "ulist \<Rightarrow> expr \<Rightarrow> expr \<Rightarrow> ulist option" where
  "UpdateList_extend ul index val = do {
     assert_that (arr_domain (fst ul) = getWidth index);
     assert_that (arr_range (fst ul) = getWidth val);
     Some (fst ul, UpdateNode (snd ul) index val)
   }"

definition isConstantExpr :: "expr \<Rightarrow> bool" where
  "isConstantExpr e \<longleftrightarrow> (case e of ConstantExpr _ \<Rightarrow> True | _ \<Rightarrow> False)"

text \<open>\<^verbatim>\<open>dyn_cast<ConstantExpr>(e)\<close>.\<close>

definition as_const :: "expr \<Rightarrow> apint option" where
  "as_const e = (case e of ConstantExpr c \<Rightarrow> Some c | _ \<Rightarrow> None)"

lemma as_const_Some [simp]: "as_const e = Some c \<longleftrightarrow> e = ConstantExpr c"
  by (simp add: as_const_def split: expr.split)

lemma as_const_ConstantExpr [simp]: "as_const (ConstantExpr c) = Some c"
  by simp

section \<open>Structural hash\<close>

text \<open>
  \<open>hv\<close> is the hash of an integer wider than 64 bits, a function of the integer library.
  All arithmetic is on 32-bit unsigned words.
\<close>

definition MAGIC_HASH_CONSTANT :: u32 where
  "MAGIC_HASH_CONSTANT = 39"

definition ConstantExpr_computeHash :: "(apint \<Rightarrow> u32) \<Rightarrow> apint \<Rightarrow> u32" where
  "ConstantExpr_computeHash hv c =
     (if bitWidth c \<le> 64
      then word_of_int (apval c) XOR (of_nat (bitWidth c) * MAGIC_HASH_CONSTANT)
      else hv c XOR (of_nat (bitWidth c) * MAGIC_HASH_CONSTANT))"

definition name_hash :: "string \<Rightarrow> u32" where
  "name_hash nm = foldl (\<lambda>res c. res * MAGIC_HASH_CONSTANT + word_of_int (sval 8 (of_char c))) 0 nm"

definition Array_computeHash :: "array \<Rightarrow> u32" where
  "Array_computeHash a = name_hash (arr_name a) * MAGIC_HASH_CONSTANT + of_nat (arr_size a)"

fun computeHash_kids :: "u32 \<Rightarrow> u32 list \<Rightarrow> u32" where
  "computeHash_kids res [] = res"
| "computeHash_kids res (h # hs) =
     computeHash_kids (push_bit 1 res XOR (h * MAGIC_HASH_CONSTANT)) hs"

definition computeHash :: "nat \<Rightarrow> u32 list \<Rightarrow> u32" where
  "computeHash k kids = computeHash_kids (of_nat k * MAGIC_HASH_CONSTANT) kids"

primrec Expr_hash :: "(apint \<Rightarrow> u32) \<Rightarrow> expr \<Rightarrow> u32"
  and UpdateNode_computeHash :: "(apint \<Rightarrow> u32) \<Rightarrow> unode \<Rightarrow> u32" where
  "Expr_hash hv (ConstantExpr c) = ConstantExpr_computeHash hv c"
| "Expr_hash hv (NotOptimizedExpr e) = computeHash 1 [Expr_hash hv e]"
| "Expr_hash hv (ReadExpr a un i) =
     (Expr_hash hv i * MAGIC_HASH_CONSTANT) XOR
     (name_hash (arr_name a) XOR UpdateNode_computeHash hv un)"
| "Expr_hash hv (SelectExpr c t f) = computeHash 4 [Expr_hash hv c, Expr_hash hv t, Expr_hash hv f]"
| "Expr_hash hv (ConcatExpr l r) = computeHash 5 [Expr_hash hv l, Expr_hash hv r]"
| "Expr_hash hv (ExtractExpr e off w) =
     ((of_nat off * MAGIC_HASH_CONSTANT) XOR (of_nat w * MAGIC_HASH_CONSTANT)) XOR
     (Expr_hash hv e * MAGIC_HASH_CONSTANT)"
| "Expr_hash hv (ZExtExpr e w) =
     (of_nat w * MAGIC_HASH_CONSTANT) XOR (Expr_hash hv e * MAGIC_HASH_CONSTANT)"
| "Expr_hash hv (SExtExpr e w) =
     (of_nat w * MAGIC_HASH_CONSTANT) XOR (Expr_hash hv e * MAGIC_HASH_CONSTANT)"
| "Expr_hash hv (NotExpr e) = Expr_hash hv e * MAGIC_HASH_CONSTANT * 9"
| "Expr_hash hv (BinaryExpr k l r) = computeHash (bop_kind k) [Expr_hash hv l, Expr_hash hv r]"
| "Expr_hash hv (CmpExpr k l r) = computeHash (cop_kind k) [Expr_hash hv l, Expr_hash hv r]"
| "UpdateNode_computeHash hv NullNode = 0"
| "UpdateNode_computeHash hv (UpdateNode nx i v) =
     Expr_hash hv i XOR Expr_hash hv v XOR UpdateNode_computeHash hv nx"

section \<open>Structural comparison\<close>

definition cmp_nat :: "nat \<Rightarrow> nat \<Rightarrow> int" where
  "cmp_nat a b = (if a < b then -1 else if b < a then 1 else 0)"

definition then_cmp :: "int \<Rightarrow> int \<Rightarrow> int" where
  "then_cmp r k = (if r \<noteq> 0 then r else k)"

definition cmp_string :: "string \<Rightarrow> string \<Rightarrow> int" where
  "cmp_string a b = (if a \<noteq> b then (if a < b then -1 else 1) else 0)"

definition root_compare :: "array \<Rightarrow> array \<Rightarrow> int" where
  "root_compare a b =
     then_cmp (cmp_string (arr_name a) (arr_name b)) (cmp_nat (arr_ptr a) (arr_ptr b))"

text \<open>What precedes the comparison of the contents: kinds, then hashes.\<close>

definition head_compare :: "(apint \<Rightarrow> u32) \<Rightarrow> expr \<Rightarrow> expr \<Rightarrow> int" where
  "head_compare hv a b =
     then_cmp (cmp_nat (getKind a) (getKind b)) (cmp_nat (unat (Expr_hash hv a)) (unat (Expr_hash hv b)))"

primrec Expr_compare :: "(apint \<Rightarrow> u32) \<Rightarrow> expr \<Rightarrow> expr \<Rightarrow> int"
  and UpdateNodes_compare :: "(apint \<Rightarrow> u32) \<Rightarrow> unode \<Rightarrow> unode \<Rightarrow> int" where
  "Expr_compare hv (ConstantExpr c) b = then_cmp (head_compare hv (ConstantExpr c) b)
     (case b of ConstantExpr c' \<Rightarrow> ConstantExpr_compareContents c c' | _ \<Rightarrow> 0)"
| "Expr_compare hv (NotOptimizedExpr e) b = then_cmp (head_compare hv (NotOptimizedExpr e) b)
     (case b of NotOptimizedExpr e' \<Rightarrow> Expr_compare hv e e' | _ \<Rightarrow> 0)"
| "Expr_compare hv (ReadExpr a un i) b = then_cmp (head_compare hv (ReadExpr a un i) b)
     (case b of ReadExpr a' un' i' \<Rightarrow>
        then_cmp (root_compare a a')
          (then_cmp (cmp_nat (UpdateNode_getSize un) (UpdateNode_getSize un'))
            (then_cmp (UpdateNodes_compare hv un un') (Expr_compare hv i i')))
      | _ \<Rightarrow> 0)"
| "Expr_compare hv (SelectExpr c t f) b = then_cmp (head_compare hv (SelectExpr c t f) b)
     (case b of SelectExpr c' t' f' \<Rightarrow>
        then_cmp (Expr_compare hv c c') (then_cmp (Expr_compare hv t t') (Expr_compare hv f f'))
      | _ \<Rightarrow> 0)"
| "Expr_compare hv (ConcatExpr l r) b = then_cmp (head_compare hv (ConcatExpr l r) b)
     (case b of ConcatExpr l' r' \<Rightarrow>
        then_cmp (cmp_nat (getWidth l + getWidth r) (getWidth l' + getWidth r'))
          (then_cmp (Expr_compare hv l l') (Expr_compare hv r r'))
      | _ \<Rightarrow> 0)"
| "Expr_compare hv (ExtractExpr e off w) b = then_cmp (head_compare hv (ExtractExpr e off w) b)
     (case b of ExtractExpr e' off' w' \<Rightarrow>
        then_cmp (cmp_nat off off') (then_cmp (cmp_nat w w') (Expr_compare hv e e'))
      | _ \<Rightarrow> 0)"
| "Expr_compare hv (ZExtExpr e w) b = then_cmp (head_compare hv (ZExtExpr e w) b)
     (case b of ZExtExpr e' w' \<Rightarrow> then_cmp (cmp_nat w w') (Expr_compare hv e e') | _ \<Rightarrow> 0)"
| "Expr_compare hv (SExtExpr e w) b = then_cmp (head_compare hv (SExtExpr e w) b)
     (case b of SExtExpr e' w' \<Rightarrow> then_cmp (cmp_nat w w') (Expr_compare hv e e') | _ \<Rightarrow> 0)"
| "Expr_compare hv (NotExpr e) b = then_cmp (head_compare hv (NotExpr e) b)
     (case b of NotExpr e' \<Rightarrow> Expr_compare hv e e' | _ \<Rightarrow> 0)"
| "Expr_compare hv (BinaryExpr k l r) b = then_cmp (head_compare hv (BinaryExpr k l r) b)
     (case b of BinaryExpr k' l' r' \<Rightarrow> then_cmp (Expr_compare hv l l') (Expr_compare hv r r')
      | _ \<Rightarrow> 0)"
| "Expr_compare hv (CmpExpr k l r) b = then_cmp (head_compare hv (CmpExpr k l r) b)
     (case b of CmpExpr k' l' r' \<Rightarrow> then_cmp (Expr_compare hv l l') (Expr_compare hv r r')
      | _ \<Rightarrow> 0)"
| "UpdateNodes_compare hv NullNode b = 0"
| "UpdateNodes_compare hv (UpdateNode nx i v) b =
     (case b of NullNode \<Rightarrow> 0
      | UpdateNode nx' i' v' \<Rightarrow>
          then_cmp (then_cmp (Expr_compare hv i i') (Expr_compare hv v v'))
            (UpdateNodes_compare hv nx nx'))"

definition UpdateList_compare :: "(apint \<Rightarrow> u32) \<Rightarrow> ulist \<Rightarrow> ulist \<Rightarrow> int" where
  "UpdateList_compare hv a b =
     then_cmp (root_compare (fst a) (fst b))
       (then_cmp (cmp_nat (UpdateList_getSize a) (UpdateList_getSize b))
         (UpdateNodes_compare hv (snd a) (snd b)))"

end
