(* ===== verification/Expr_Semantics.thy ===== *)
theory Expr_Semantics
  imports Expr_Syntax
begin

unbundle bit_operations_syntax

text \<open>
  The reference meaning of expressions.  An environment gives every cell of every symbolic
  array a value; \<open>eval\<close> maps an expression to the unsigned integer it stands for.  \<open>wt\<close> is the
  typing discipline that the assertions in the source enforce node by node.  The predicate
  \<open>denotes A e w f\<close> joins the two: \<open>e\<close> is well typed, \<open>w\<close> bits wide, and has value \<open>f \<sigma>\<close> in every
  environment \<open>\<sigma>\<close> that satisfies the assumption \<open>A\<close> (a path condition).  The correctness lemmas of the smart constructors are rules for \<open>denotes\<close>.
\<close>

type_synonym env = "array \<Rightarrow> int \<Rightarrow> int"

section \<open>Meaning of the operators\<close>

text \<open>
  Division by zero has no meaning.  A one-bit divisor is therefore 1, and the constructors of
  one-bit quotients and remainders rely on that.
\<close>

definition divisor :: "width \<Rightarrow> int \<Rightarrow> int" where
  "divisor w b = (if w = 1 then 1 else b)"

primrec bop_sem :: "bop \<Rightarrow> width \<Rightarrow> int \<Rightarrow> int \<Rightarrow> int" where
  "bop_sem Add w a b = take_bit w (a + b)"
| "bop_sem Sub w a b = take_bit w (a - b)"
| "bop_sem Mul w a b = take_bit w (a * b)"
| "bop_sem UDiv w a b = take_bit w (a div divisor w b)"
| "bop_sem SDiv w a b = take_bit w (sval w a sdiv sval w (divisor w b))"
| "bop_sem URem w a b = take_bit w (a mod divisor w b)"
| "bop_sem SRem w a b = take_bit w (sval w a smod sval w (divisor w b))"
| "bop_sem And w a b = a AND b"
| "bop_sem Or w a b = a OR b"
| "bop_sem Xor w a b = a XOR b"
| "bop_sem Shl w a b = take_bit w (push_bit (nat b) a)"
| "bop_sem LShr w a b = take_bit w (drop_bit (nat b) a)"
| "bop_sem AShr w a b = take_bit w (drop_bit (nat b) (sval w a))"

primrec cop_sem :: "cop \<Rightarrow> width \<Rightarrow> int \<Rightarrow> int \<Rightarrow> bool" where
  "cop_sem Eq w a b = (a = b)"
| "cop_sem Ne w a b = (a \<noteq> b)"
| "cop_sem Ult w a b = (a < b)"
| "cop_sem Ule w a b = (a \<le> b)"
| "cop_sem Ugt w a b = (b < a)"
| "cop_sem Uge w a b = (b \<le> a)"
| "cop_sem Slt w a b = (sval w a < sval w b)"
| "cop_sem Sle w a b = (sval w a \<le> sval w b)"
| "cop_sem Sgt w a b = (sval w b < sval w a)"
| "cop_sem Sge w a b = (sval w b \<le> sval w a)"

text \<open>The initial contents of an array: its constant value where there is one.\<close>

definition init_val :: "env \<Rightarrow> array \<Rightarrow> int \<Rightarrow> int" where
  "init_val \<sigma> a i =
     (if isConstantArray a \<and> 0 \<le> i \<and> i < int (arr_size a)
      then apval (constantValues a ! nat i) else \<sigma> a i)"

primrec eval :: "env \<Rightarrow> expr \<Rightarrow> int"
  and read_updates :: "env \<Rightarrow> unode \<Rightarrow> array \<Rightarrow> int \<Rightarrow> int" where
  "eval \<sigma> (ConstantExpr c) = apval c"
| "eval \<sigma> (NotOptimizedExpr e) = eval \<sigma> e"
| "eval \<sigma> (ReadExpr a un i) = read_updates \<sigma> un a (eval \<sigma> i)"
| "eval \<sigma> (SelectExpr c t f) = (if eval \<sigma> c \<noteq> 0 then eval \<sigma> t else eval \<sigma> f)"
| "eval \<sigma> (ConcatExpr l r) = push_bit (getWidth r) (eval \<sigma> l) + eval \<sigma> r"
| "eval \<sigma> (ExtractExpr e off w) = take_bit w (drop_bit off (eval \<sigma> e))"
| "eval \<sigma> (ZExtExpr e w) = take_bit w (eval \<sigma> e)"
| "eval \<sigma> (SExtExpr e w) = take_bit w (sval (getWidth e) (eval \<sigma> e))"
| "eval \<sigma> (NotExpr e) = take_bit (getWidth e) (NOT (eval \<sigma> e))"
| "eval \<sigma> (BinaryExpr k l r) = bop_sem k (getWidth l) (eval \<sigma> l) (eval \<sigma> r)"
| "eval \<sigma> (CmpExpr k l r) = of_bool (cop_sem k (getWidth l) (eval \<sigma> l) (eval \<sigma> r))"
| "read_updates \<sigma> NullNode a i = init_val \<sigma> a i"
| "read_updates \<sigma> (UpdateNode nx idx v) a i =
     (if eval \<sigma> idx = i then eval \<sigma> v else read_updates \<sigma> nx a i)"

lemma divisor_nonzero: "in_width w b \<Longrightarrow> b \<noteq> 0 \<Longrightarrow> divisor w b = b"
  by (auto simp: divisor_def in_width_def)

section \<open>Typing\<close>

definition wf_array :: "array \<Rightarrow> bool" where
  "wf_array a \<longleftrightarrow> 0 < arr_domain a \<and> arr_domain a \<le> 64 \<and> 0 < arr_range a \<and> arr_size a \<le> 2 ^ arr_domain a \<and>
     (isSymbolicArray a \<or> length (constantValues a) = arr_size a) \<and>
     (\<forall>c \<in> set (constantValues a). wf_ap c \<and> bitWidth c = arr_range a)"

primrec wt :: "expr \<Rightarrow> bool" and wt_updates :: "unode \<Rightarrow> array \<Rightarrow> bool" where
  "wt (ConstantExpr c) \<longleftrightarrow> wf_ap c"
| "wt (NotOptimizedExpr e) \<longleftrightarrow> wt e"
| "wt (ReadExpr a un i) \<longleftrightarrow> wf_array a \<and> wt_updates un a \<and> wt i \<and> getWidth i = arr_domain a"
| "wt (SelectExpr c t f) \<longleftrightarrow> wt c \<and> wt t \<and> wt f \<and> getWidth c = 1 \<and> getWidth t = getWidth f"
| "wt (ConcatExpr l r) \<longleftrightarrow> wt l \<and> wt r"
| "wt (ExtractExpr e off w) \<longleftrightarrow> wt e \<and> 0 < w \<and> off + w \<le> getWidth e"
| "wt (ZExtExpr e w) \<longleftrightarrow> wt e \<and> getWidth e \<le> w"
| "wt (SExtExpr e w) \<longleftrightarrow> wt e \<and> getWidth e \<le> w"
| "wt (NotExpr e) \<longleftrightarrow> wt e"
| "wt (BinaryExpr k l r) \<longleftrightarrow> wt l \<and> wt r \<and> getWidth l = getWidth r"
| "wt (CmpExpr k l r) \<longleftrightarrow> wt l \<and> wt r \<and> getWidth l = getWidth r"
| "wt_updates NullNode a \<longleftrightarrow> True"
| "wt_updates (UpdateNode nx i v) a \<longleftrightarrow>
     wt_updates nx a \<and> wt i \<and> wt v \<and> getWidth i = arr_domain a \<and> getWidth v = arr_range a"

definition wf_env :: "env \<Rightarrow> bool" where
  "wf_env \<sigma> \<longleftrightarrow> (\<forall>a i. in_width (arr_range a) (\<sigma> a i))"

definition denotes :: "(env \<Rightarrow> bool) \<Rightarrow> expr \<Rightarrow> width \<Rightarrow> (env \<Rightarrow> int) \<Rightarrow> bool" where
  "denotes A e w f \<longleftrightarrow>
     wt e \<and> getWidth e = w \<and> (\<forall>\<sigma>. wf_env \<sigma> \<longrightarrow> A \<sigma> \<longrightarrow> eval \<sigma> e = f \<sigma>)"

section \<open>Values fit their width\<close>

lemma wt_width_pos: "wt e \<Longrightarrow> 0 < getWidth e"
  by (induction e rule: expr.induct [where ?P2.0 = "\<lambda>_. True"]) (auto simp: wf_array_def)

lemma init_val_in_width: "wf_array a \<Longrightarrow> wf_env \<sigma> \<Longrightarrow> in_width (arr_range a) (init_val \<sigma> a i)"
  unfolding init_val_def wf_array_def isConstantArray_def wf_env_def
  by (auto simp: wf_ap_def) (metis nat_less_iff nth_mem)

lemma in_width_concat:
  assumes "in_width w v" "in_width w' v'"
  shows "in_width (w + w') (push_bit w' v + v')"
proof -
  have "push_bit w' v + v' = concat_bit w' v' v"
    using assms by (simp add: concat_bit_eq)
  moreover have "take_bit (w + w') (concat_bit w' v' v) = concat_bit w' v' v"
  proof (rule bit_eqI)
    fix n
    have "bit v (n - w') \<Longrightarrow> n - w' < w"
      using assms(1) by (metis bit_take_bit_iff in_width_take_bit)
    then show "bit (take_bit (w + w') (concat_bit w' v' v)) n = bit (concat_bit w' v' v) n"
      by (auto simp: bit_take_bit_iff bit_concat_bit_iff)
  qed
  ultimately show ?thesis by (simp add: in_width_iff_take_bit)
qed

lemma in_width_bop_sem:
  "in_width w a \<Longrightarrow> in_width w b \<Longrightarrow> in_width w (bop_sem k w a b)"
  by (cases k) (simp_all add: width_simps)

lemma eval_in_width:
  "wt e \<Longrightarrow> wf_env \<sigma> \<Longrightarrow> in_width (getWidth e) (eval \<sigma> e)"
  "wt_updates un a \<Longrightarrow> wf_array a \<Longrightarrow> wf_env \<sigma> \<Longrightarrow> in_width (arr_range a) (read_updates \<sigma> un a i)"
proof (induction e and un arbitrary: and a i)
  case (ConcatExpr l r)
  then show ?case by (simp add: in_width_concat)
next
  case (BinaryExpr k l r)
  then show ?case by (simp add: in_width_bop_sem)
qed (auto simp: init_val_in_width wf_ap_def)

lemma eval_nonneg: "wt e \<Longrightarrow> wf_env \<sigma> \<Longrightarrow> 0 \<le> eval \<sigma> e"
  using eval_in_width(1) [of e \<sigma>] by (simp add: in_width_def)

section \<open>Rules for what an expression denotes\<close>

lemma denotesI:
  "wt e \<Longrightarrow> getWidth e = w \<Longrightarrow> (\<And>\<sigma>. wf_env \<sigma> \<Longrightarrow> A \<sigma> \<Longrightarrow> eval \<sigma> e = f \<sigma>) \<Longrightarrow> denotes A e w f"
  by (simp add: denotes_def)

lemma denotesD:
  assumes "denotes A e w f"
  shows "wt e" "getWidth e = w" "wf_env \<sigma> \<Longrightarrow> A \<sigma> \<Longrightarrow> eval \<sigma> e = f \<sigma>" "0 < w"
    "wf_env \<sigma> \<Longrightarrow> A \<sigma> \<Longrightarrow> in_width w (f \<sigma>)"
  using assms wt_width_pos [of e] eval_in_width(1) [of e \<sigma>] by (auto simp: denotes_def)

lemma denotes_self: "wt e \<Longrightarrow> denotes A e (getWidth e) (\<lambda>\<sigma>. eval \<sigma> e)"
  by (simp add: denotes_def)

lemma denotes_cong:
  "denotes A e w f \<Longrightarrow> (\<And>\<sigma>. wf_env \<sigma> \<Longrightarrow> A \<sigma> \<Longrightarrow> f \<sigma> = g \<sigma>) \<Longrightarrow> denotes A e w g"
  by (simp add: denotes_def)

lemma ok_denotes_cong:
  assumes "ok r (\<lambda>e. denotes A e w f)" "\<And>\<sigma>. wf_env \<sigma> \<Longrightarrow> A \<sigma> \<Longrightarrow> f \<sigma> = g \<sigma>"
  shows "ok r (\<lambda>e. denotes A e w g)"
  using assms(1) by (rule ok_mono) (rule denotes_cong [OF _ assms(2)])

lemma denotes_Const [simp]:
  "denotes A (ConstantExpr c) w f \<longleftrightarrow> wf_ap c \<and> bitWidth c = w \<and> (\<forall>\<sigma>. wf_env \<sigma> \<longrightarrow> A \<sigma> \<longrightarrow> f \<sigma> = apval c)"
  by (auto simp: denotes_def)

lemma denotes_Bin [denotes_rules]:
  "denotes A l w f \<Longrightarrow> denotes A r w g \<Longrightarrow> denotes A (BinaryExpr k l r) w (\<lambda>\<sigma>. bop_sem k w (f \<sigma>) (g \<sigma>))"
  by (simp add: denotes_def)

lemma denotes_Cmp [denotes_rules]:
  "denotes A l w f \<Longrightarrow> denotes A r w g \<Longrightarrow>
   denotes A (CmpExpr k l r) 1 (\<lambda>\<sigma>. of_bool (cop_sem k w (f \<sigma>) (g \<sigma>)))"
  by (simp add: denotes_def)

lemma denotes_Concat [denotes_rules]:
  "denotes A l w f \<Longrightarrow> denotes A r w' g \<Longrightarrow>
   denotes A (ConcatExpr l r) (w + w') (\<lambda>\<sigma>. push_bit w' (f \<sigma>) + g \<sigma>)"
  by (simp add: denotes_def)

lemma denotes_Extract [denotes_rules]:
  "denotes A e w f \<Longrightarrow> 0 < n \<Longrightarrow> off + n \<le> w \<Longrightarrow>
   denotes A (ExtractExpr e off n) n (\<lambda>\<sigma>. take_bit n (drop_bit off (f \<sigma>)))"
  by (simp add: denotes_def)

lemma denotes_weaken:
  "denotes A e w f \<Longrightarrow> (\<And>\<sigma>. wf_env \<sigma> \<Longrightarrow> B \<sigma> \<Longrightarrow> A \<sigma>) \<Longrightarrow> denotes B e w f"
  by (simp add: denotes_def)

lemma wf_env_exists: "wf_env (\<lambda>a i. 0)"
  by (simp add: wf_env_def)

end
