(* ===== verification/Expr_Create.thy ===== *)
theory Expr_Create
  imports Expr_Semantics
begin

unbundle bit_operations_syntax

text \<open>
  The simplifying constructors of \<^verbatim>\<open>lib/Expr/Expr.cpp\<close>.  \<open>X_create\<close> is the static method
  \<^verbatim>\<open>X::create\<close>; \<open>X_create_nc\<close> is the file-local helper \<^verbatim>\<open>X_create\<close>, called when neither operand
  is a constant; \<open>X_createPartial\<close> and \<open>X_createPartialR\<close> are the helpers for one constant
  operand.  \<open>X_create_c\<close> is the call of \<^verbatim>\<open>X::create\<close> at a constant first operand and
  \<open>X_create_r\<close> at a constant second operand; they unfold the dispatch macros once, so that the
  recursion below them is visibly on a subterm.  A failed assertion is \<open>None\<close>.  The argument
  \<open>cao\<close> is the command-line switch \<^verbatim>\<open>const-array-opt\<close>.
\<close>

section \<open>Dispatch on constant operands\<close>

definition BCREATE_R ::
  "(apint \<Rightarrow> apint \<Rightarrow> apint) \<Rightarrow> (expr \<Rightarrow> apint \<Rightarrow> expr option) \<Rightarrow> (apint \<Rightarrow> expr \<Rightarrow> expr option) \<Rightarrow>
   (expr \<Rightarrow> expr \<Rightarrow> expr option) \<Rightarrow> expr \<Rightarrow> expr \<Rightarrow> expr option" where
  "BCREATE_R fold_op partialL partialR nc l r = do {
     assert_that (getWidth l = getWidth r);
     (case l of
        ConstantExpr cl \<Rightarrow>
          (case r of ConstantExpr cr \<Rightarrow> Some (ConstantExpr (fold_op cl cr)) | _ \<Rightarrow> partialR cl r)
      | _ \<Rightarrow> (case r of ConstantExpr cr \<Rightarrow> partialL l cr | _ \<Rightarrow> nc l r))
   }"

definition BCREATE ::
  "(apint \<Rightarrow> apint \<Rightarrow> apint option) \<Rightarrow> (expr \<Rightarrow> expr \<Rightarrow> expr option) \<Rightarrow> expr \<Rightarrow> expr \<Rightarrow> expr option" where
  "BCREATE fold_op nc l r = do {
     assert_that (getWidth l = getWidth r);
     (case (l, r) of
        (ConstantExpr cl, ConstantExpr cr) \<Rightarrow> map_option ConstantExpr (fold_op cl cr)
      | _ \<Rightarrow> nc l r)
   }"

section \<open>And, or, multiplication\<close>

definition AndExpr_createPartial :: "expr \<Rightarrow> apint \<Rightarrow> expr" where
  "AndExpr_createPartial l cr =
     (if ConstantExpr_isAllOnes cr then l
      else if ConstantExpr_isZero cr then ConstantExpr cr
      else BinaryExpr And l (ConstantExpr cr))"

definition AndExpr_createPartialR :: "apint \<Rightarrow> expr \<Rightarrow> expr" where
  "AndExpr_createPartialR cl r = AndExpr_createPartial r cl"

definition AndExpr_create_nc :: "expr \<Rightarrow> expr \<Rightarrow> expr" where
  "AndExpr_create_nc l r = BinaryExpr And l r"

definition AndExpr_create :: "expr \<Rightarrow> expr \<Rightarrow> expr option" where
  "AndExpr_create = BCREATE_R ConstantExpr_And (\<lambda>l cr. Some (AndExpr_createPartial l cr))
     (\<lambda>cl r. Some (AndExpr_createPartialR cl r)) (\<lambda>l r. Some (AndExpr_create_nc l r))"

definition OrExpr_createPartial :: "expr \<Rightarrow> apint \<Rightarrow> expr" where
  "OrExpr_createPartial l cr =
     (if ConstantExpr_isAllOnes cr then ConstantExpr cr
      else if ConstantExpr_isZero cr then l
      else BinaryExpr Or l (ConstantExpr cr))"

definition OrExpr_createPartialR :: "apint \<Rightarrow> expr \<Rightarrow> expr" where
  "OrExpr_createPartialR cl r = OrExpr_createPartial r cl"

definition OrExpr_create_nc :: "expr \<Rightarrow> expr \<Rightarrow> expr" where
  "OrExpr_create_nc l r = BinaryExpr Or l r"

definition OrExpr_create :: "expr \<Rightarrow> expr \<Rightarrow> expr option" where
  "OrExpr_create = BCREATE_R ConstantExpr_Or (\<lambda>l cr. Some (OrExpr_createPartial l cr))
     (\<lambda>cl r. Some (OrExpr_createPartialR cl r)) (\<lambda>l r. Some (OrExpr_create_nc l r))"

definition MulExpr_createPartialR :: "apint \<Rightarrow> expr \<Rightarrow> expr" where
  "MulExpr_createPartialR cl r =
     (if bitWidth cl = 1 then AndExpr_createPartialR cl r
      else if ConstantExpr_isOne cl then r
      else if ConstantExpr_isZero cl then ConstantExpr cl
      else BinaryExpr Mul (ConstantExpr cl) r)"

definition MulExpr_createPartial :: "expr \<Rightarrow> apint \<Rightarrow> expr" where
  "MulExpr_createPartial l cr = MulExpr_createPartialR cr l"

definition MulExpr_create_nc :: "expr \<Rightarrow> expr \<Rightarrow> expr" where
  "MulExpr_create_nc l r =
     (if getWidth l = 1 then BinaryExpr And l r else BinaryExpr Mul l r)"

definition MulExpr_create :: "expr \<Rightarrow> expr \<Rightarrow> expr option" where
  "MulExpr_create = BCREATE_R ConstantExpr_Mul (\<lambda>l cr. Some (MulExpr_createPartial l cr))
     (\<lambda>cl r. Some (MulExpr_createPartialR cl r)) (\<lambda>l r. Some (MulExpr_create_nc l r))"

section \<open>Equality\<close>

definition EqExpr_create_nc :: "expr \<Rightarrow> expr \<Rightarrow> expr" where
  "EqExpr_create_nc l r = (if l = r then ConstantExpr (ap_bool True) else CmpExpr Eq l r)"

text \<open>
  \<open>TryConstArrayOpt_loop\<close> is the loop of \<^verbatim>\<open>TryConstArrayOpt\<close>: the remaining constant values of
  the array, the index \<open>i\<close> of the first of them, the number of matches so far and the
  disjunction built so far.
\<close>

function (sequential) EqExpr_createPartialR :: "bool \<Rightarrow> apint \<Rightarrow> expr \<Rightarrow> expr option"
  and EqExpr_create_c :: "bool \<Rightarrow> expr \<Rightarrow> apint \<Rightarrow> expr option"
  and TryConstArrayOpt_loop ::
    "bool \<Rightarrow> apint \<Rightarrow> array \<Rightarrow> unode \<Rightarrow> expr \<Rightarrow> apint list \<Rightarrow> nat \<Rightarrow> nat \<Rightarrow> expr \<Rightarrow> expr option" where
  "EqExpr_createPartialR cao cl r =
     (if bitWidth cl = 1 then
        (if ConstantExpr_isTrue cl then Some r
         else
           (case r of
              CmpExpr Eq (ConstantExpr ce) rr \<Rightarrow>
                (if bitWidth ce = 1 \<and> ConstantExpr_isFalse ce then Some rr
                 else Some (EqExpr_create_nc (ConstantExpr cl) r))
            | BinaryExpr Or a b \<Rightarrow> do {
                x \<leftarrow> EqExpr_create_c cao a (APInt (getWidth a) 0);
                y \<leftarrow> EqExpr_create_c cao b (APInt (getWidth b) 0);
                AndExpr_create x y
              }
            | _ \<Rightarrow> Some (EqExpr_create_nc (ConstantExpr cl) r)))
      else
        (case r of
           SExtExpr src w \<Rightarrow>
             (let trunc = ConstantExpr_ZExt cl (getWidth src)
              in if cl = ConstantExpr_SExt trunc (bitWidth cl)
                 then EqExpr_create_c cao src trunc
                 else Some (ConstantExpr (ap_bool False)))
         | ZExtExpr src w \<Rightarrow>
             (let trunc = ConstantExpr_ZExt cl (getWidth src)
              in if cl = ConstantExpr_ZExt trunc (bitWidth cl)
                 then EqExpr_create_c cao src trunc
                 else Some (ConstantExpr (ap_bool False)))
         | BinaryExpr Add (ConstantExpr k) b \<Rightarrow> do {
             assert_that (bitWidth cl = bitWidth k);
             EqExpr_createPartialR cao (ConstantExpr_Sub cl k) b
           }
         | BinaryExpr Sub (ConstantExpr k) b \<Rightarrow> do {
             assert_that (bitWidth k = bitWidth cl);
             EqExpr_createPartialR cao (ConstantExpr_Sub k cl) b
           }
         | ReadExpr a un idx \<Rightarrow>
             (if cao then
                (if isSymbolicArray a \<or> un \<noteq> NullNode
                 then Some (EqExpr_create_nc (ConstantExpr cl) r)
                 else TryConstArrayOpt_loop cao cl a un idx (constantValues a) 0 0
                        (ConstantExpr (ap_bool False)))
              else Some (EqExpr_create_nc (ConstantExpr cl) r))
         | _ \<Rightarrow> Some (EqExpr_create_nc (ConstantExpr cl) r)))"
| "EqExpr_create_c cao e c = do {
     assert_that (getWidth e = bitWidth c);
     (case e of ConstantExpr ce \<Rightarrow> Some (ConstantExpr (ConstantExpr_Eq ce c))
      | _ \<Rightarrow> EqExpr_createPartialR cao c e)
   }"
| "TryConstArrayOpt_loop cao cl a un idx [] i numMatches res = Some res"
| "TryConstArrayOpt_loop cao cl a un idx (v # vs) i numMatches res =
     (if cl = v then
        (if Suc numMatches > 100 then Some (EqExpr_create_nc (ConstantExpr cl) (ReadExpr a un idx))
         else do {
           mayBe \<leftarrow> EqExpr_create_c cao idx (ap_mk (getWidth idx) (int i));
           res' \<leftarrow> OrExpr_create res mayBe;
           TryConstArrayOpt_loop cao cl a un idx vs (Suc i) (Suc numMatches) res'
         })
      else TryConstArrayOpt_loop cao cl a un idx vs (Suc i) numMatches res)"
  by pat_completeness auto

termination
  by (relation "measures [\<lambda>s. case s of Inl (cao, cl, r) \<Rightarrow> size r
        | Inr (Inl (cao, e, c)) \<Rightarrow> size e
        | Inr (Inr (cao, cl, a, un, idx, vs, i, n, res)) \<Rightarrow> size idx,
      \<lambda>s. case s of Inl (cao, cl, r) \<Rightarrow> 0
        | Inr (Inl (cao, e, c)) \<Rightarrow> 1
        | Inr (Inr (cao, cl, a, un, idx, vs, i, n, res)) \<Rightarrow> 2 + length vs]") auto

declare EqExpr_createPartialR.simps [simp del] EqExpr_create_c.simps [simp del]

definition EqExpr_createPartial :: "bool \<Rightarrow> expr \<Rightarrow> apint \<Rightarrow> expr option" where
  "EqExpr_createPartial cao l cr = EqExpr_createPartialR cao cr l"

definition EqExpr_create :: "bool \<Rightarrow> expr \<Rightarrow> expr \<Rightarrow> expr option" where
  "EqExpr_create cao = BCREATE_R ConstantExpr_Eq (EqExpr_createPartial cao)
     (EqExpr_createPartialR cao) (\<lambda>l r. Some (EqExpr_create_nc l r))"

definition createIsZero :: "bool \<Rightarrow> expr \<Rightarrow> expr option" where
  "createIsZero cao e = EqExpr_create cao e (ConstantExpr (APInt (getWidth e) 0))"

definition createImplies :: "bool \<Rightarrow> expr \<Rightarrow> expr \<Rightarrow> expr option" where
  "createImplies cao hyp conc = do { z \<leftarrow> createIsZero cao hyp; OrExpr_create z conc }"

definition NeExpr_create :: "bool \<Rightarrow> expr \<Rightarrow> expr \<Rightarrow> expr option" where
  "NeExpr_create cao l r = do {
     e \<leftarrow> EqExpr_create cao l r;
     EqExpr_create cao (ConstantExpr (ap_bool False)) e
   }"

section \<open>Correctness of and, or, multiplication\<close>

lemma BCREATE_R_ok:
  assumes l: "denotes A l w f" and r: "denotes A r w g"
    and cc: "\<And>cl cr. l = ConstantExpr cl \<Longrightarrow> r = ConstantExpr cr \<Longrightarrow>
              denotes A (ConstantExpr (fold_op cl cr)) w' h"
    and pR: "\<And>cl. l = ConstantExpr cl \<Longrightarrow> ok (partialR cl r) (\<lambda>e. denotes A e w' h)"
    and pL: "\<And>cr. r = ConstantExpr cr \<Longrightarrow> ok (partialL l cr) (\<lambda>e. denotes A e w' h)"
    and nc: "ok (nc l r) (\<lambda>e. denotes A e w' h)"
  shows "ok (BCREATE_R fold_op partialL partialR nc l r) (\<lambda>e. denotes A e w' h)"
proof -
  have "getWidth l = getWidth r"
    using l r by (simp add: denotesD(2))
  then show ?thesis
    using cc pR pL nc unfolding BCREATE_R_def by (auto split: expr.split)
qed

lemma BCREATE_ok:
  assumes l: "denotes A l w f" and r: "denotes A r w g"
    and cc: "\<And>cl cr. l = ConstantExpr cl \<Longrightarrow> r = ConstantExpr cr \<Longrightarrow>
              ok (fold_op cl cr) (\<lambda>c. denotes A (ConstantExpr c) w' h)"
    and nc: "ok (nc l r) (\<lambda>e. denotes A e w' h)"
  shows "ok (BCREATE fold_op nc l r) (\<lambda>e. denotes A e w' h)"
proof -
  have "getWidth l = getWidth r"
    using l r by (simp add: denotesD(2))
  then show ?thesis
    using cc nc unfolding BCREATE_def by (auto split: expr.split)
qed

lemma and_mask_width: "in_width w v \<Longrightarrow> v AND mask w = v"
  using in_width_take_bit [of w v] by (simp add: take_bit_eq_mask)

lemma or_mask_width: "in_width w v \<Longrightarrow> v OR mask w = mask w"
proof (rule bit_eqI)
  fix n
  assume "in_width w v"
  then have "bit v n \<Longrightarrow> n < w"
    by (metis bit_take_bit_iff in_width_take_bit)
  then show "bit (v OR mask w) n = bit (mask w :: int) n"
    by (auto simp: bit_or_iff bit_mask_iff)
qed

lemma AndExpr_createPartial_ok:
  assumes "denotes A l w f" "denotes A (ConstantExpr cr) w g"
  shows "denotes A (AndExpr_createPartial l cr) w (\<lambda>\<sigma>. f \<sigma> AND g \<sigma>)"
  using assms denotes_Bin [OF assms, of And] denotesD(5) [OF assms(1)]
  unfolding AndExpr_createPartial_def ConstantExpr_isAllOnes_def ConstantExpr_isZero_def
  by (auto simp: and_mask_width elim: denotes_cong)

lemma OrExpr_createPartial_ok:
  assumes "denotes A l w f" "denotes A (ConstantExpr cr) w g"
  shows "denotes A (OrExpr_createPartial l cr) w (\<lambda>\<sigma>. f \<sigma> OR g \<sigma>)"
  using assms denotes_Bin [OF assms, of Or] denotesD(5) [OF assms(1)]
  unfolding OrExpr_createPartial_def ConstantExpr_isAllOnes_def ConstantExpr_isZero_def
  by (auto simp: or_mask_width elim: denotes_cong)

lemma AndExpr_create_ok [denotes_rules]:
  assumes "denotes A l w f" "denotes A r w g"
  shows "ok (AndExpr_create l r) (\<lambda>e. denotes A e w (\<lambda>\<sigma>. f \<sigma> AND g \<sigma>))"
  unfolding AndExpr_create_def
proof (rule BCREATE_R_ok [OF assms])
  show "ok (Some (AndExpr_createPartialR cl r)) (\<lambda>e. denotes A e w (\<lambda>\<sigma>. f \<sigma> AND g \<sigma>))"
    if "l = ConstantExpr cl" for cl
    using AndExpr_createPartial_ok [of A r w g cl f] assms that
    by (simp add: AndExpr_createPartialR_def and.commute)
  show "ok (Some (AndExpr_createPartial l cr)) (\<lambda>e. denotes A e w (\<lambda>\<sigma>. f \<sigma> AND g \<sigma>))"
    if "r = ConstantExpr cr" for cr
    using AndExpr_createPartial_ok [of A l w f cr g] assms that by simp
qed (use assms denotes_Bin [OF assms, of And] in
      \<open>auto simp: ConstantExpr_And_def AndExpr_create_nc_def wf_ap_def in_width_and\<close>)

lemma OrExpr_create_ok [denotes_rules]:
  assumes "denotes A l w f" "denotes A r w g"
  shows "ok (OrExpr_create l r) (\<lambda>e. denotes A e w (\<lambda>\<sigma>. f \<sigma> OR g \<sigma>))"
  unfolding OrExpr_create_def
proof (rule BCREATE_R_ok [OF assms])
  show "ok (Some (OrExpr_createPartialR cl r)) (\<lambda>e. denotes A e w (\<lambda>\<sigma>. f \<sigma> OR g \<sigma>))"
    if "l = ConstantExpr cl" for cl
    using OrExpr_createPartial_ok [of A r w g cl f] assms that
    by (simp add: OrExpr_createPartialR_def or.commute)
  show "ok (Some (OrExpr_createPartial l cr)) (\<lambda>e. denotes A e w (\<lambda>\<sigma>. f \<sigma> OR g \<sigma>))"
    if "r = ConstantExpr cr" for cr
    using OrExpr_createPartial_ok [of A l w f cr g] assms that by simp
qed (use assms denotes_Bin [OF assms, of Or] in
      \<open>auto simp: ConstantExpr_Or_def ap_or_def OrExpr_create_nc_def wf_ap_def in_width_or\<close>)

text \<open>On one bit, multiplication is conjunction.\<close>

lemma in_width_one_iff: "in_width (Suc 0) v \<longleftrightarrow> v = 0 \<or> v = 1"
  by (auto simp: in_width_def)

lemma bool_mult: "in_width 1 a \<Longrightarrow> in_width 1 b \<Longrightarrow> a AND b = take_bit 1 (a * b)"
  by (auto simp: in_width_one_iff)

lemma MulExpr_createPartialR_ok:
  assumes "denotes A (ConstantExpr cl) w f" "denotes A r w g"
  shows "denotes A (MulExpr_createPartialR cl r) w (\<lambda>\<sigma>. take_bit w (f \<sigma> * g \<sigma>))"
proof (cases "w = 1")
  case True
  have "denotes A (AndExpr_createPartial r cl) w (\<lambda>\<sigma>. g \<sigma> AND f \<sigma>)"
    by (rule AndExpr_createPartial_ok [OF assms(2,1)])
  then have "denotes A (AndExpr_createPartial r cl) w (\<lambda>\<sigma>. take_bit w (f \<sigma> * g \<sigma>))"
    by (rule denotes_cong)
      (use True denotesD(5) [OF assms(1)] denotesD(5) [OF assms(2)] in
        \<open>simp add: bool_mult mult.commute\<close>)
  then show ?thesis
    using True assms(1) by (simp add: MulExpr_createPartialR_def AndExpr_createPartialR_def)
next
  case False
  have one: "ConstantExpr_isOne cl \<longleftrightarrow> apval cl = 1"
    by (auto simp: ConstantExpr_isOne_def min_def)
  show ?thesis
    using False one assms denotes_Bin [OF assms, of Mul] denotesD(5) [OF assms(2)]
    unfolding MulExpr_createPartialR_def ConstantExpr_isZero_def
    by (auto elim: denotes_cong)
qed

lemma MulExpr_create_ok [denotes_rules]:
  assumes "denotes A l w f" "denotes A r w g"
  shows "ok (MulExpr_create l r) (\<lambda>e. denotes A e w (\<lambda>\<sigma>. take_bit w (f \<sigma> * g \<sigma>)))"
  unfolding MulExpr_create_def
proof (rule BCREATE_R_ok [OF assms])
  show "ok (Some (MulExpr_createPartialR cl r)) (\<lambda>e. denotes A e w (\<lambda>\<sigma>. take_bit w (f \<sigma> * g \<sigma>)))"
    if "l = ConstantExpr cl" for cl
    using MulExpr_createPartialR_ok [of A cl w f r g] assms that by simp
  show "ok (Some (MulExpr_createPartial l cr)) (\<lambda>e. denotes A e w (\<lambda>\<sigma>. take_bit w (f \<sigma> * g \<sigma>)))"
    if "r = ConstantExpr cr" for cr
    using MulExpr_createPartialR_ok [of A cr w g l f] assms that
    by (simp add: MulExpr_createPartial_def mult.commute)
  have "denotes A (MulExpr_create_nc l r) w (\<lambda>\<sigma>. take_bit w (f \<sigma> * g \<sigma>))"
  proof (cases "w = 1")
    case True
    then have "denotes A (BinaryExpr And l r) w (\<lambda>\<sigma>. take_bit w (f \<sigma> * g \<sigma>))"
      using denotes_Bin [OF assms, of And] denotesD(5) [OF assms(1)] denotesD(5) [OF assms(2)]
      by (auto simp: bool_mult elim: denotes_cong)
    then show ?thesis
      using True denotesD(2) [OF assms(1)] by (simp add: MulExpr_create_nc_def)
  next
    case False
    then show ?thesis
      using denotes_Bin [OF assms, of Mul] denotesD(2) [OF assms(1)]
      by (simp add: MulExpr_create_nc_def)
  qed
  then show "ok (Some (MulExpr_create_nc l r)) (\<lambda>e. denotes A e w (\<lambda>\<sigma>. take_bit w (f \<sigma> * g \<sigma>)))"
    by simp
qed (use assms in \<open>auto simp: ConstantExpr_Mul_def\<close>)

section \<open>Correctness of equality\<close>

text \<open>
  With \<^verbatim>\<open>const-array-opt\<close> an equality with a read of a constant array becomes a disjunction over
  the matching positions.  That is only right for an index inside the array, so the statement
  assumes it for every such read the constructor can meet.
\<close>

primrec const_reads_in_bounds :: "env \<Rightarrow> expr \<Rightarrow> bool" where
  "const_reads_in_bounds \<sigma> (ConstantExpr c) = True"
| "const_reads_in_bounds \<sigma> (NotOptimizedExpr e) = const_reads_in_bounds \<sigma> e"
| "const_reads_in_bounds \<sigma> (ReadExpr a un i) =
     ((isConstantArray a \<longrightarrow> eval \<sigma> i < int (arr_size a)) \<and>
      const_reads_in_bounds \<sigma> i)"
| "const_reads_in_bounds \<sigma> (SelectExpr c t f) =
     (const_reads_in_bounds \<sigma> c \<and> const_reads_in_bounds \<sigma> t \<and> const_reads_in_bounds \<sigma> f)"
| "const_reads_in_bounds \<sigma> (ConcatExpr l r) =
     (const_reads_in_bounds \<sigma> l \<and> const_reads_in_bounds \<sigma> r)"
| "const_reads_in_bounds \<sigma> (ExtractExpr e off w) = const_reads_in_bounds \<sigma> e"
| "const_reads_in_bounds \<sigma> (ZExtExpr e w) = const_reads_in_bounds \<sigma> e"
| "const_reads_in_bounds \<sigma> (SExtExpr e w) = const_reads_in_bounds \<sigma> e"
| "const_reads_in_bounds \<sigma> (NotExpr e) = const_reads_in_bounds \<sigma> e"
| "const_reads_in_bounds \<sigma> (BinaryExpr k l r) =
     (const_reads_in_bounds \<sigma> l \<and> const_reads_in_bounds \<sigma> r)"
| "const_reads_in_bounds \<sigma> (CmpExpr k l r) =
     (const_reads_in_bounds \<sigma> l \<and> const_reads_in_bounds \<sigma> r)"

lemma EqExpr_create_nc_ok:
  assumes "denotes A l w f" "denotes A r w g"
  shows "denotes A (EqExpr_create_nc l r) 1 (\<lambda>\<sigma>. of_bool (f \<sigma> = g \<sigma>))"
proof (cases "l = r")
  case True
  then have "f \<sigma> = g \<sigma>" if "wf_env \<sigma>" "A \<sigma>" for \<sigma>
    using assms that by (metis denotesD(3))
  then show ?thesis using True by (simp add: EqExpr_create_nc_def)
next
  case False
  then show ?thesis
    using denotes_Cmp [OF assms, of Eq] by (simp add: EqExpr_create_nc_def)
qed

text \<open>An extended value equals a constant exactly when the constant is an extension.\<close>

lemma zext_eq_iff:
  assumes "in_width w c" "in_width n v" "n \<le> w"
  shows "c = take_bit w v \<longleftrightarrow> take_bit w (take_bit n c) = c \<and> v = take_bit n c"
  using assms by (metis in_width_mono in_width_take_bit take_bit_in_width)

lemma sext_eq_iff:
  assumes "in_width w c" "in_width n v" "n \<le> w" "0 < n"
  shows "c = take_bit w (sval n v) \<longleftrightarrow>
         take_bit w (sval n (take_bit n c)) = c \<and> v = take_bit n c"
proof -
  have "take_bit n (take_bit w (sval n v)) = v"
    using assms by (simp add: min_def sval_def take_bit_signed_take_bit)
  then show ?thesis by auto
qed

lemma eq_add_iff:
  assumes "in_width w a" "in_width w c"
  shows "c = take_bit w (k + a) \<longleftrightarrow> take_bit w (c - k) = a"
proof
  assume "c = take_bit w (k + a)"
  then have "take_bit w (c - k) = take_bit w a"
    by (simp add: take_bit_eq_mod mod_simps)
  then show "take_bit w (c - k) = a" using assms by simp
next
  assume "take_bit w (c - k) = a"
  then have "take_bit w (k + a) = take_bit w c"
    by (auto simp: take_bit_eq_mod mod_simps)
  then show "c = take_bit w (k + a)" using assms by simp
qed

lemma eq_sub_iff:
  assumes "in_width w a" "in_width w c"
  shows "c = take_bit w (k - a) \<longleftrightarrow> take_bit w (k - c) = a"
proof
  assume "c = take_bit w (k - a)"
  then have "take_bit w (k - c) = take_bit w a"
    by (simp add: take_bit_eq_mod mod_simps)
  then show "take_bit w (k - c) = a" using assms by simp
next
  assume "take_bit w (k - c) = a"
  then have "take_bit w (k - a) = take_bit w c"
    by (auto simp: take_bit_eq_mod mod_simps)
  then show "c = take_bit w (k - a)" using assms by simp
qed

lemma of_bool_or: "(of_bool P :: int) OR of_bool Q = of_bool (P \<or> Q)"
  by (cases P; cases Q) auto

lemma of_bool_and: "(of_bool P :: int) AND of_bool Q = of_bool (P \<and> Q)"
  by (cases P; cases Q) auto

lemma denotes_bool_cases:
  "denotes A e 1 f \<Longrightarrow> wf_env \<sigma> \<Longrightarrow> A \<sigma> \<Longrightarrow> f \<sigma> = 0 \<or> f \<sigma> = 1"
  using denotesD(5) [of A e 1 f \<sigma>] by (simp add: in_width_one_iff)

lemma denotes_eval: "denotes A e w f \<Longrightarrow> wf_env \<sigma> \<Longrightarrow> A \<sigma> \<Longrightarrow> f \<sigma> = eval \<sigma> e"
  by (simp add: denotes_def)

lemma denotes_wt: "wt e \<Longrightarrow> getWidth e = w \<Longrightarrow> denotes A e w (\<lambda>\<sigma>. eval \<sigma> e)"
  by (simp add: denotes_def)

text \<open>Equality with a one-bit constant.\<close>

lemma eq_true:
  assumes "denotes A r 1 g" "apval cl = 1"
  shows "denotes A r 1 (\<lambda>\<sigma>. of_bool (apval cl = g \<sigma>))"
  using denotes_bool_cases [OF assms(1)] assms(2)
  by (intro denotes_cong [OF assms(1)]) force

lemma eq_false_not:
  assumes "denotes A (CmpExpr Eq (ConstantExpr ce) b) 1 g" "ConstantExpr_isFalse ce"
  shows "denotes A b 1 (\<lambda>\<sigma>. of_bool (0 = g \<sigma>))"
proof -
  have b: "denotes A b 1 (\<lambda>\<sigma>. eval \<sigma> b)"
    using assms by (auto simp: denotes_def ConstantExpr_isFalse_def)
  show ?thesis
    using denotes_eval [OF assms(1)] denotes_bool_cases [OF b] assms(2)
    by (intro denotes_cong [OF b]) (force simp: ConstantExpr_isFalse_def)
qed

lemma eq_false_or:
  assumes "denotes A (BinaryExpr Or a b) 1 g"
    and "denotes A x 1 (\<lambda>\<sigma>. of_bool (eval \<sigma> a = 0))"
    and "denotes A y 1 (\<lambda>\<sigma>. of_bool (eval \<sigma> b = 0))"
  shows "ok (AndExpr_create x y) (\<lambda>e. denotes A e 1 (\<lambda>\<sigma>. of_bool (0 = g \<sigma>)))"
  using AndExpr_create_ok [OF assms(2,3)] denotes_eval [OF assms(1)]
  by (auto simp: of_bool_and or_eq_0_iff elim!: ok_mono denotes_cong)

text \<open>Equality of a constant with an extension and with a sum or difference.\<close>

lemma eq_zext:
  assumes "wf_ap cl" "denotes A (ZExtExpr src n) (bitWidth cl) g"
    and t: "trunc = ConstantExpr_ZExt cl (getWidth src)" and "wf_env \<sigma>" "A \<sigma>"
  shows "apval cl = g \<sigma> \<longleftrightarrow> cl = ConstantExpr_ZExt trunc (bitWidth cl) \<and> eval \<sigma> src = apval trunc"
proof -
  have *: "wt src" "getWidth src \<le> bitWidth cl" "g \<sigma> = take_bit (bitWidth cl) (eval \<sigma> src)"
    using assms by (auto simp: denotes_def)
  have tv: "apval trunc = take_bit (getWidth src) (apval cl)"
    by (simp add: t ConstantExpr_ZExt_def ap_zextOrTrunc_def)
  have "cl = ConstantExpr_ZExt trunc (bitWidth cl) \<longleftrightarrow>
        take_bit (bitWidth cl) (take_bit (getWidth src) (apval cl)) = apval cl"
    unfolding apint_eq_iff [of cl] ConstantExpr_ZExt_def ap_zextOrTrunc_def bitWidth_ap_mk
      apval_ap_mk tv by argo
  then show ?thesis
    unfolding *(3) tv
    using zext_eq_iff [OF wf_apD(1) [OF assms(1)] eval_in_width(1) [OF *(1) assms(4)] *(2)]
    by simp
qed

lemma eq_sext:
  assumes "wf_ap cl" "denotes A (SExtExpr src n) (bitWidth cl) g"
    and t: "trunc = ConstantExpr_ZExt cl (getWidth src)" and "wf_env \<sigma>" "A \<sigma>"
  shows "apval cl = g \<sigma> \<longleftrightarrow> cl = ConstantExpr_SExt trunc (bitWidth cl) \<and> eval \<sigma> src = apval trunc"
proof -
  have *: "wt src" "getWidth src \<le> bitWidth cl"
    "g \<sigma> = take_bit (bitWidth cl) (sval (getWidth src) (eval \<sigma> src))"
    using assms by (auto simp: denotes_def)
  have tv: "apval trunc = take_bit (getWidth src) (apval cl)" "bitWidth trunc = getWidth src"
    by (simp_all add: t ConstantExpr_ZExt_def ap_zextOrTrunc_def)
  have "cl = ConstantExpr_SExt trunc (bitWidth cl) \<longleftrightarrow>
        take_bit (bitWidth cl) (sval (getWidth src) (take_bit (getWidth src) (apval cl))) = apval cl"
    unfolding apint_eq_iff [of cl] ConstantExpr_SExt_def ap_sextOrTrunc_def bitWidth_ap_mk
      apval_ap_mk tv by argo
  then show ?thesis
    unfolding *(3) tv
    using sext_eq_iff [OF wf_apD(1) [OF assms(1)] eval_in_width(1) [OF *(1) assms(4)] *(2)
        wt_width_pos [OF *(1)]]
    by simp
qed

lemma eq_add:
  assumes "wf_ap cl" "denotes A (BinaryExpr Add (ConstantExpr k) b) (bitWidth cl) g"
    and "wf_env \<sigma>" "A \<sigma>"
  shows "apval cl = g \<sigma> \<longleftrightarrow> apval (ConstantExpr_Sub cl k) = eval \<sigma> b"
proof -
  have "wt b" "bitWidth k = bitWidth cl" "getWidth b = bitWidth cl"
    "g \<sigma> = take_bit (bitWidth cl) (apval k + eval \<sigma> b)"
    using assms by (auto simp: denotes_def)
  then show ?thesis
    using eq_add_iff [of "bitWidth cl" "eval \<sigma> b" "apval cl" "apval k"]
      eval_in_width(1) [of b \<sigma>] assms wf_apD(1) [OF assms(1)]
    by (auto simp: ConstantExpr_Sub_def)
qed

lemma eq_sub:
  assumes "wf_ap cl" "denotes A (BinaryExpr Sub (ConstantExpr k) b) (bitWidth cl) g"
    and "wf_env \<sigma>" "A \<sigma>"
  shows "apval cl = g \<sigma> \<longleftrightarrow> apval (ConstantExpr_Sub k cl) = eval \<sigma> b"
proof -
  have "wt b" "bitWidth k = bitWidth cl" "getWidth b = bitWidth cl"
    "g \<sigma> = take_bit (bitWidth cl) (apval k - eval \<sigma> b)"
    using assms by (auto simp: denotes_def)
  then show ?thesis
    using eq_sub_iff [of "bitWidth cl" "eval \<sigma> b" "apval cl" "apval k"]
      eval_in_width(1) [of b \<sigma>] assms wf_apD(1) [OF assms(1)]
    by (auto simp: ConstantExpr_Sub_def)
qed

text \<open>The disjunction over the matching positions of a constant array.\<close>

definition bounds_ok :: "bool \<Rightarrow> (env \<Rightarrow> bool) \<Rightarrow> expr \<Rightarrow> bool" where
  "bounds_ok cao A e \<longleftrightarrow> (cao \<longrightarrow> (\<forall>\<sigma>. wf_env \<sigma> \<longrightarrow> A \<sigma> \<longrightarrow> const_reads_in_bounds \<sigma> e))"

definition match_before :: "array \<Rightarrow> apint \<Rightarrow> nat \<Rightarrow> int \<Rightarrow> bool" where
  "match_before a cl i v \<longleftrightarrow> (\<exists>j < i. v = int j \<and> constantValues a ! j = cl)"

lemma match_before_0 [simp]: "match_before a cl 0 v = False"
  by (simp add: match_before_def)

lemma match_before_Suc:
  "match_before a cl (Suc i) v \<longleftrightarrow> match_before a cl i v \<or> (v = int i \<and> constantValues a ! i = cl)"
  by (auto simp: match_before_def less_Suc_eq)

lemma match_before_size:
  assumes "wf_array a" "isConstantArray a" "wf_ap cl" "bitWidth cl = arr_range a"
    and "0 \<le> v" "v < int (arr_size a)"
  shows "match_before a cl (arr_size a) v \<longleftrightarrow> apval cl = init_val \<sigma> a v"
proof -
  have "length (constantValues a) = arr_size a"
    using assms by (auto simp: wf_array_def isConstantArray_def)
  moreover have "bitWidth (constantValues a ! nat v) = arr_range a"
    using assms calculation by (auto simp: wf_array_def)
  ultimately show ?thesis
    using assms by (auto simp: match_before_def init_val_def apint_eq_iff nat_less_iff)
      (metis nat_0_le nat_less_iff)
qed

lemma TryConstArrayOpt_step:
  assumes res: "denotes A res 1 (\<lambda>\<sigma>. of_bool (match_before a cl i (g \<sigma>)))"
    and mb: "denotes A mayBe 1 (\<lambda>\<sigma>. of_bool (g \<sigma> = apval (ap_mk w (int i))))"
    and i: "int i < 2 ^ w" and v: "constantValues a ! i = cl"
  shows "ok (OrExpr_create res mayBe)
    (\<lambda>e. denotes A e 1 (\<lambda>\<sigma>. of_bool (match_before a cl (Suc i) (g \<sigma>))))"
proof -
  have "take_bit w (int i) = int i"
    using i by (simp add: take_bit_int_eq_self)
  then show ?thesis
    using OrExpr_create_ok [OF res mb] v
    by (auto simp: of_bool_or match_before_Suc elim!: ok_mono denotes_cong)
qed

lemma EqExpr_createPartialR_false:
  "bitWidth cl = 1 \<Longrightarrow> \<not> ConstantExpr_isTrue cl \<Longrightarrow>
   (\<exists>a b. r = BinaryExpr Or a b) \<or>
   (\<exists>ce b. r = CmpExpr Eq (ConstantExpr ce) b \<and> ConstantExpr_isFalse ce) \<or>
   EqExpr_createPartialR cao cl r = Some (EqExpr_create_nc (ConstantExpr cl) r)"
  by (cases r) (auto simp: EqExpr_createPartialR.simps split: bop.split cop.split expr.split)

lemma EqExpr_createPartialR_bool:
  assumes w: "bitWidth cl = 1" and wf: "wf_ap cl" and r: "denotes A r (bitWidth cl) g"
    and IH: "\<And>a b. r = BinaryExpr Or a b \<Longrightarrow> \<not> ConstantExpr_isTrue cl \<Longrightarrow>
      ok (EqExpr_create_c cao a (APInt (getWidth a) 0)) (\<lambda>e. denotes A e 1 (\<lambda>\<sigma>. of_bool (eval \<sigma> a = 0))) \<and>
      ok (EqExpr_create_c cao b (APInt (getWidth b) 0)) (\<lambda>e. denotes A e 1 (\<lambda>\<sigma>. of_bool (eval \<sigma> b = 0)))"
  shows "ok (EqExpr_createPartialR cao cl r) (\<lambda>e. denotes A e 1 (\<lambda>\<sigma>. of_bool (apval cl = g \<sigma>)))"
proof (cases "ConstantExpr_isTrue cl")
  case True
  then have "apval cl = 1"
    using wf w by (auto simp: ConstantExpr_isTrue_def wf_ap_def in_width_one_iff)
  then show ?thesis
    using eq_true [OF r [unfolded w]] True w by (simp add: EqExpr_createPartialR.simps)
next
  case False
  then have z: "apval cl = 0" using w by (simp add: ConstantExpr_isTrue_def)
  have nc: "denotes A (EqExpr_create_nc (ConstantExpr cl) r) 1 (\<lambda>\<sigma>. of_bool (0 = g \<sigma>))"
    using EqExpr_create_nc_ok [OF _ r, of "ConstantExpr cl" "\<lambda>_. 0"] wf z by simp
  have orc: "ok (do { x \<leftarrow> EqExpr_create_c cao a (APInt (getWidth a) 0);
      y \<leftarrow> EqExpr_create_c cao b (APInt (getWidth b) 0); AndExpr_create x y })
      (\<lambda>e. denotes A e 1 (\<lambda>\<sigma>. of_bool (0 = g \<sigma>)))" if "r = BinaryExpr Or a b" for a b
    using IH [OF that False] r w eq_false_or [of A a b g]
    by (auto simp: that intro!: ok_bind)
  have notc: "denotes A b 1 (\<lambda>\<sigma>. of_bool (0 = g \<sigma>))"
    if "r = CmpExpr Eq (ConstantExpr ce) b" "ConstantExpr_isFalse ce" for ce b
    using eq_false_not [of A ce b g] r w that by simp
  consider (disj) a b where "r = BinaryExpr Or a b"
    | (neg) ce b where "r = CmpExpr Eq (ConstantExpr ce) b" "ConstantExpr_isFalse ce"
    | (other) "EqExpr_createPartialR cao cl r = Some (EqExpr_create_nc (ConstantExpr cl) r)"
    using EqExpr_createPartialR_false [OF w False] by blast
  then show ?thesis
  proof cases
    case disj
    then show ?thesis using orc [OF disj] False w z by (simp add: EqExpr_createPartialR.simps)
  next
    case neg
    then show ?thesis using notc [OF neg] False w z
      by (simp add: EqExpr_createPartialR.simps ConstantExpr_isFalse_def)
  next
    case other
    then show ?thesis using nc z by simp
  qed
qed

text \<open>The right-hand sides that the comparison of a wide constant reduces.\<close>

lemma EqExpr_createPartialR_wide:
  assumes w: "bitWidth cl \<noteq> 1" and wf: "wf_ap cl" and r: "denotes A r (bitWidth cl) g"
    and ext: "\<And>src n trunc. trunc = ConstantExpr_ZExt cl (getWidth src) \<Longrightarrow>
      r = SExtExpr src n \<and> cl = ConstantExpr_SExt trunc (bitWidth cl) \<or>
      r = ZExtExpr src n \<and> cl = ConstantExpr_ZExt trunc (bitWidth cl) \<Longrightarrow>
      ok (EqExpr_create_c cao src trunc) (\<lambda>e. denotes A e 1 (\<lambda>\<sigma>. of_bool (eval \<sigma> src = apval trunc)))"
    and ari: "\<And>k b c. r = BinaryExpr Add (ConstantExpr k) b \<and> c = ConstantExpr_Sub cl k \<or>
        r = BinaryExpr Sub (ConstantExpr k) b \<and> c = ConstantExpr_Sub k cl \<Longrightarrow>
        ok (EqExpr_createPartialR cao c b) (\<lambda>e. denotes A e 1 (\<lambda>\<sigma>. of_bool (apval c = eval \<sigma> b)))"
    and rd: "\<And>a idx. r = ReadExpr a NullNode idx \<Longrightarrow> cao \<Longrightarrow> isConstantArray a \<Longrightarrow>
        ok (TryConstArrayOpt_loop cao cl a NullNode idx (constantValues a) 0 0 (ConstantExpr (ap_bool False)))
          (\<lambda>e. denotes A e 1 (\<lambda>\<sigma>. of_bool (apval cl = g \<sigma>)))"
  shows "ok (EqExpr_createPartialR cao cl r) (\<lambda>e. denotes A e 1 (\<lambda>\<sigma>. of_bool (apval cl = g \<sigma>)))"
proof -
  have nc: "denotes A (EqExpr_create_nc (ConstantExpr cl) r) 1 (\<lambda>\<sigma>. of_bool (apval cl = g \<sigma>))"
    using EqExpr_create_nc_ok [OF _ r, of "ConstantExpr cl" "\<lambda>_. apval cl"] wf by simp
  have kw: "bitWidth k = bitWidth cl" if "r = BinaryExpr op (ConstantExpr k) b" for op k b
    using r that by (auto simp: denotes_def)
  show ?thesis
  proof (cases r)
    case (ReadExpr a un idx)
    then show ?thesis
      using nc w rd by (auto simp: EqExpr_createPartialR.simps [of cao cl] isConstantArray_def)
  next
    case (SExtExpr src n)
    then show ?thesis
      using w ext [of "ConstantExpr_ZExt cl (getWidth src)" src n] eq_sext [OF wf r [unfolded SExtExpr] refl]
      by (auto simp: EqExpr_createPartialR.simps [of cao cl] Let_def elim!: ok_mono denotes_cong)
  next
    case (ZExtExpr src n)
    then show ?thesis
      using w ext [of "ConstantExpr_ZExt cl (getWidth src)" src n] eq_zext [OF wf r [unfolded ZExtExpr] refl]
      by (auto simp: EqExpr_createPartialR.simps [of cao cl] Let_def elim!: ok_mono denotes_cong)
  next
    case (BinaryExpr op a b)
    consider (add) k where "op = Add" "a = ConstantExpr k" | (sub) k where "op = Sub" "a = ConstantExpr k"
      | (other) "EqExpr_createPartialR cao cl r = Some (EqExpr_create_nc (ConstantExpr cl) r)"
      using w BinaryExpr
      by (cases op; cases a) (auto simp: EqExpr_createPartialR.simps)
    then show ?thesis
    proof cases
      case (add k)
      have "ok (EqExpr_createPartialR cao (ConstantExpr_Sub cl k) b)
          (\<lambda>e. denotes A e 1 (\<lambda>\<sigma>. of_bool (apval cl = g \<sigma>)))"
        using ari [of k b] BinaryExpr add eq_add [OF wf, of A k b g] r
        by (auto elim!: ok_mono denotes_cong)
      then show ?thesis using w add BinaryExpr kw by (simp add: EqExpr_createPartialR.simps [of cao cl])
    next
      case (sub k)
      have "ok (EqExpr_createPartialR cao (ConstantExpr_Sub k cl) b)
          (\<lambda>e. denotes A e 1 (\<lambda>\<sigma>. of_bool (apval cl = g \<sigma>)))"
        using ari [of k b] BinaryExpr sub eq_sub [OF wf, of A k b g] r
        by (auto elim!: ok_mono denotes_cong)
      then show ?thesis using w sub BinaryExpr kw by (simp add: EqExpr_createPartialR.simps [of cao cl])
    next
      case other
      then show ?thesis using nc by simp
    qed
  qed (use nc w in \<open>simp_all add: EqExpr_createPartialR.simps\<close>)
qed


lemma EqExpr_create_c_from_partial:
  assumes "wf_ap c" "denotes A e (bitWidth c) g"
    and "\<not> isConstantExpr e \<Longrightarrow>
      ok (EqExpr_createPartialR cao c e) (\<lambda>e. denotes A e 1 (\<lambda>\<sigma>. of_bool (apval c = g \<sigma>)))"
  shows "ok (EqExpr_create_c cao e c) (\<lambda>e. denotes A e 1 (\<lambda>\<sigma>. of_bool (g \<sigma> = apval c)))"
proof -
  have "getWidth e = bitWidth c" using assms(2) by (rule denotesD)
  then show ?thesis
    using assms by (cases e) (auto simp: isConstantExpr_def EqExpr_create_c.simps
        ConstantExpr_Eq_def eq_commute)
qed

lemma EqExpr_create_partial_ok:
  "wf_ap cl \<Longrightarrow> denotes A r (bitWidth cl) g \<Longrightarrow> bounds_ok cao A r \<Longrightarrow>
     ok (EqExpr_createPartialR cao cl r) (\<lambda>e. denotes A e 1 (\<lambda>\<sigma>. of_bool (apval cl = g \<sigma>)))"
  "wf_ap c \<Longrightarrow> denotes A e (bitWidth c) g \<Longrightarrow> bounds_ok cao A e \<Longrightarrow>
     ok (EqExpr_create_c cao e c) (\<lambda>e. denotes A e 1 (\<lambda>\<sigma>. of_bool (g \<sigma> = apval c)))"
  "un = NullNode \<Longrightarrow> isConstantArray a \<Longrightarrow> wf_ap cl \<Longrightarrow> bitWidth cl = arr_range a \<Longrightarrow> wf_array a \<Longrightarrow>
   denotes A idx (arr_domain a) g \<Longrightarrow> bounds_ok cao A (ReadExpr a un idx) \<Longrightarrow> cao \<Longrightarrow>
   vs = drop i (constantValues a) \<Longrightarrow> i \<le> arr_size a \<Longrightarrow>
   denotes A res 1 (\<lambda>\<sigma>. of_bool (match_before a cl i (g \<sigma>))) \<Longrightarrow>
     ok (TryConstArrayOpt_loop cao cl a un idx vs i n res)
       (\<lambda>e. denotes A e 1 (\<lambda>\<sigma>. of_bool (apval cl = init_val \<sigma> a (g \<sigma>))))"
proof (induction cao cl r and cao e c and cao cl a un idx vs i n res
    arbitrary: g and g and g
    rule: EqExpr_createPartialR_EqExpr_create_c_TryConstArrayOpt_loop.induct)
  case (1 cao cl r)
  have wtr: "wt r" and gr: "getWidth r = bitWidth cl"
    using "1.prems" by (auto dest: denotesD)
  show ?case
  proof (cases "bitWidth cl = 1")
    case w1: True
    show ?thesis
    proof (rule EqExpr_createPartialR_bool [OF w1 "1.prems"(1,2)])
      fix a b
      assume r: "r = BinaryExpr Or a b" and nt: "\<not> ConstantExpr_isTrue cl"
      have ab: "wt a" "wt b" "0 < getWidth a" "0 < getWidth b" "bounds_ok cao A a" "bounds_ok cao A b"
        using wtr "1.prems"(3) r by (auto simp: bounds_ok_def dest: wt_width_pos)
      have a: "ok (EqExpr_create_c cao a (APInt (getWidth a) 0))
          (\<lambda>e. denotes A e 1 (\<lambda>\<sigma>. of_bool (eval \<sigma> a = 0)))"
        using "1.IH"(1) [OF w1 nt r refl, where g = "\<lambda>\<sigma>. eval \<sigma> a"] ab by (simp add: denotes_self)
      then obtain x where x: "EqExpr_create_c cao a (APInt (getWidth a) 0) = Some x"
        by (rule okE)
      have "ok (EqExpr_create_c cao b (APInt (getWidth b) 0))
          (\<lambda>e. denotes A e 1 (\<lambda>\<sigma>. of_bool (eval \<sigma> b = 0)))"
        using "1.IH"(2) [OF w1 nt r refl x, where g = "\<lambda>\<sigma>. eval \<sigma> b"] ab by (simp add: denotes_self)
      with a show "ok (EqExpr_create_c cao a (APInt (getWidth a) 0)) (\<lambda>e. denotes A e 1 (\<lambda>\<sigma>. of_bool (eval \<sigma> a = 0))) \<and>
        ok (EqExpr_create_c cao b (APInt (getWidth b) 0)) (\<lambda>e. denotes A e 1 (\<lambda>\<sigma>. of_bool (eval \<sigma> b = 0)))"
        by simp
    qed
  next
    case w: False
    show ?thesis
    proof (rule EqExpr_createPartialR_wide [OF w "1.prems"(1,2)])
      fix src n trunc
      assume t: "trunc = ConstantExpr_ZExt cl (getWidth src)"
        and r: "r = SExtExpr src n \<and> cl = ConstantExpr_SExt trunc (bitWidth cl) \<or>
                r = ZExtExpr src n \<and> cl = ConstantExpr_ZExt trunc (bitWidth cl)"
      have "wt src" "bounds_ok cao A src"
        using wtr "1.prems"(3) r by (auto simp: bounds_ok_def)
      moreover have "wf_ap trunc" "bitWidth trunc = getWidth src"
        using wt_width_pos [OF \<open>wt src\<close>] by (simp_all add: t ConstantExpr_ZExt_def ap_zextOrTrunc_def)
      ultimately show "ok (EqExpr_create_c cao src trunc)
          (\<lambda>e. denotes A e 1 (\<lambda>\<sigma>. of_bool (eval \<sigma> src = apval trunc)))"
        using r "1.IH"(4) [OF w _ t, of n] "1.IH"(5) [OF w _ t, of n]
        by (auto simp: denotes_self)
    next
      fix k b c
      assume r: "r = BinaryExpr Add (ConstantExpr k) b \<and> c = ConstantExpr_Sub cl k \<or>
        r = BinaryExpr Sub (ConstantExpr k) b \<and> c = ConstantExpr_Sub k cl"
      then have "wt b" "bounds_ok cao A b" "bitWidth k = bitWidth cl" "getWidth b = bitWidth cl"
        "bitWidth c = bitWidth cl" "wf_ap c"
        using wtr gr "1.prems"(1,3) by (auto simp: bounds_ok_def ConstantExpr_Sub_def)
      then show "ok (EqExpr_createPartialR cao c b)
          (\<lambda>e. denotes A e 1 (\<lambda>\<sigma>. of_bool (apval c = eval \<sigma> b)))"
        using r "1.IH"(6) [OF w, of Add "ConstantExpr k" b k] "1.IH"(7) [OF w, of Sub "ConstantExpr k" b k]
        by (auto simp: denotes_wt)
    next
      fix a idx
      assume r: "r = ReadExpr a NullNode idx" and cao: cao "isConstantArray a"
      have a: "wf_array a" "wt idx" "getWidth idx = arr_domain a" "bitWidth cl = arr_range a"
        using wtr gr r by auto
      have "ok (TryConstArrayOpt_loop cao cl a NullNode idx (constantValues a) 0 0 (ConstantExpr (ap_bool False)))
          (\<lambda>e. denotes A e 1 (\<lambda>\<sigma>. of_bool (apval cl = init_val \<sigma> a (eval \<sigma> idx))))"
        using "1.IH"(3) [OF w r cao(1), where g = "\<lambda>\<sigma>. eval \<sigma> idx"] a cao "1.prems"(1,3) r
        by (auto simp: isConstantArray_def denotes_wt)
      then show "ok (TryConstArrayOpt_loop cao cl a NullNode idx (constantValues a) 0 0 (ConstantExpr (ap_bool False)))
          (\<lambda>e. denotes A e 1 (\<lambda>\<sigma>. of_bool (apval cl = g \<sigma>)))"
        using denotes_eval [OF "1.prems"(2)] r by (auto elim!: ok_mono denotes_cong)
    qed
  qed
next
  case (2 cao e c)
  show ?case
  proof (rule EqExpr_create_c_from_partial [OF "2.prems"(1,2)])
    have gw: "getWidth e = bitWidth c" using "2.prems"(2) by (rule denotesD)
    assume "\<not> isConstantExpr e"
    then show "ok (EqExpr_createPartialR cao c e) (\<lambda>e. denotes A e 1 (\<lambda>\<sigma>. of_bool (apval c = g \<sigma>)))"
      using gw "2.prems" "2.IH" by (cases e) (simp_all add: isConstantExpr_def)
  qed
next
  case (3 cao cl a un idx i n res)
  then have i: "i = arr_size a"
    by (auto simp: wf_array_def isConstantArray_def)
  have "of_bool (match_before a cl i (g \<sigma>)) = of_bool (apval cl = init_val \<sigma> a (g \<sigma>))"
    if "wf_env \<sigma>" "A \<sigma>" for \<sigma>
    using that "3.prems"(2-10) denotesD(5) [OF "3.prems"(6) that] denotes_eval [OF "3.prems"(6) that]
      match_before_size [of a cl "g \<sigma>" \<sigma>]
    by (simp add: i in_width_def bounds_ok_def)
  then show ?case using "3.prems"(11) by (auto elim!: denotes_cong)
next
  case (4 cao cl a un idx v vs i n res)
  have len: "length (constantValues a) = arr_size a"
    using "4.prems"(2,5) by (auto simp: wf_array_def isConstantArray_def)
  then have i: "i < arr_size a" "constantValues a ! i = v" "vs = drop (Suc i) (constantValues a)"
    using "4.prems"(9) by (auto simp: drop_Suc nth_via_drop drop_tl dest: sym split: if_splits)
       (metis drop_all leI list.distinct(1))+
  have iw: "int i < 2 ^ arr_domain a"
    using i(1) "4.prems"(5) by (auto simp: wf_array_def)
  show ?case
  proof (cases "cl = v")
    case True
    show ?thesis
    proof (cases "Suc n > 100")
      case big: True
      have rd: "denotes A (ReadExpr a un idx) (arr_range a) (\<lambda>\<sigma>. init_val \<sigma> a (g \<sigma>))"
        using "4.prems"(1,5,6) by (auto simp: denotes_def)
      show ?thesis
        using EqExpr_create_nc_ok [OF _ rd, of "ConstantExpr cl" "\<lambda>_. apval cl"] "4.prems"(3,4) big True
        by simp
    next
      case False
      have gi: "getWidth idx = arr_domain a" using "4.prems"(6) by (rule denotesD)
      have "wf_ap (ap_mk (getWidth idx) (int i))" "bounds_ok cao A idx"
        using "4.prems"(5,7) gi by (auto simp: wf_array_def bounds_ok_def)
      then have mb: "ok (EqExpr_create_c cao idx (ap_mk (getWidth idx) (int i)))
          (\<lambda>e. denotes A e 1 (\<lambda>\<sigma>. of_bool (g \<sigma> = apval (ap_mk (getWidth idx) (int i)))))"
        using "4.IH"(1) [OF True False, where g = g] "4.prems"(6) gi by simp
      then obtain m where m: "EqExpr_create_c cao idx (ap_mk (getWidth idx) (int i)) = Some m"
        and dm: "denotes A m 1 (\<lambda>\<sigma>. of_bool (g \<sigma> = apval (ap_mk (getWidth idx) (int i))))"
        by (rule okE)
      have "constantValues a ! i = cl" using i(2) True by simp
      from TryConstArrayOpt_step [OF "4.prems"(11) dm _ this] iw gi
      obtain res' where r': "OrExpr_create res m = Some res'"
        and dr: "denotes A res' 1 (\<lambda>\<sigma>. of_bool (match_before a cl (Suc i) (g \<sigma>)))"
        by (auto elim: okE)
      show ?thesis
        using "4.IH"(2) [OF True False m r' "4.prems"(1-8) i(3) _ dr] i(1) True False m r' by simp
    qed
  next
    case False
    then have "denotes A res 1 (\<lambda>\<sigma>. of_bool (match_before a cl (Suc i) (g \<sigma>)))"
      using "4.prems"(11) i by (simp add: match_before_Suc)
    then show ?thesis
      using "4.IH"(3) [OF False "4.prems"(1-8) i(3)] i False by simp
  qed
qed

lemma bounds_ok_False [simp]: "bounds_ok False A e"
  by (simp add: bounds_ok_def)

lemma bounds_ok_Const [simp]: "bounds_ok cao A (ConstantExpr c)"
  by (simp add: bounds_ok_def)

lemma EqExpr_create_ok [denotes_rules]:
  assumes "denotes A l w f" "denotes A r w g" "bounds_ok cao A l" "bounds_ok cao A r"
  shows "ok (EqExpr_create cao l r) (\<lambda>e. denotes A e 1 (\<lambda>\<sigma>. of_bool (f \<sigma> = g \<sigma>)))"
  unfolding EqExpr_create_def
proof (rule BCREATE_R_ok [OF assms(1,2)])
  show "ok (EqExpr_createPartialR cao cl r) (\<lambda>e. denotes A e 1 (\<lambda>\<sigma>. of_bool (f \<sigma> = g \<sigma>)))"
    if "l = ConstantExpr cl" for cl
    using EqExpr_create_partial_ok(1) [of cl A r g cao] assms that
    by (auto elim!: ok_mono denotes_cong)
  show "ok (EqExpr_createPartial cao l cr) (\<lambda>e. denotes A e 1 (\<lambda>\<sigma>. of_bool (f \<sigma> = g \<sigma>)))"
    if "r = ConstantExpr cr" for cr
    using EqExpr_create_partial_ok(1) [of cr A l f cao] assms that
    by (auto simp: EqExpr_createPartial_def elim!: ok_mono denotes_cong)
qed (use assms EqExpr_create_nc_ok [OF assms(1,2)] in \<open>auto simp: ConstantExpr_Eq_def\<close>)

lemma createIsZero_ok [denotes_rules]:
  assumes "denotes A e w f" "bounds_ok cao A e"
  shows "ok (createIsZero cao e) (\<lambda>e. denotes A e 1 (\<lambda>\<sigma>. of_bool (f \<sigma> = 0)))"
  unfolding createIsZero_def
  using EqExpr_create_ok [OF assms(1) _ assms(2), of "ConstantExpr (APInt (getWidth e) 0)" "\<lambda>_. 0"]
    denotesD(2,4) [OF assms(1)] by simp

lemma createImplies_ok [denotes_rules]:
  assumes "denotes A h 1 f" "denotes A c 1 g" "bounds_ok cao A h"
  shows "ok (createImplies cao h c) (\<lambda>e. denotes A e 1 (\<lambda>\<sigma>. of_bool (f \<sigma> = 1 \<longrightarrow> g \<sigma> = 1)))"
proof -
  have "of_bool (f \<sigma> = 0) OR g \<sigma> = of_bool (f \<sigma> = 1 \<longrightarrow> g \<sigma> = 1)" if "wf_env \<sigma>" "A \<sigma>" for \<sigma>
    using denotes_bool_cases [OF assms(1) that] denotes_bool_cases [OF assms(2) that] by auto
  then show ?thesis
    unfolding createImplies_def
    by (intro ok_bind [OF createIsZero_ok [OF assms(1,3)]]
        ok_denotes_cong [OF OrExpr_create_ok [OF _ assms(2)]])
qed

lemma NeExpr_create_ok [denotes_rules]:
  assumes "denotes A l w f" "denotes A r w g"
  shows "ok (NeExpr_create False l r) (\<lambda>e. denotes A e 1 (\<lambda>\<sigma>. of_bool (f \<sigma> \<noteq> g \<sigma>)))"
proof -
  have "ok (EqExpr_create False (ConstantExpr (ap_bool False)) e)
      (\<lambda>e. denotes A e 1 (\<lambda>\<sigma>. of_bool (f \<sigma> \<noteq> g \<sigma>)))"
    if "denotes A e 1 (\<lambda>\<sigma>. of_bool (f \<sigma> = g \<sigma>))" for e
    using EqExpr_create_ok [OF _ that, of "ConstantExpr (ap_bool False)" "\<lambda>_. 0" False]
    by (auto elim!: ok_mono denotes_cong)
  then show ?thesis
    unfolding NeExpr_create_def by (auto intro!: ok_bind [OF EqExpr_create_ok [OF assms]])
qed

end
