(* ===== verification/Expr_Arith.thy ===== *)
theory Expr_Arith
  imports Expr_Create
begin

unbundle bit_operations_syntax

text \<open>
  The constructors of \<^verbatim>\<open>lib/Expr/Expr.cpp\<close> for exclusive or, addition and subtraction, which
  collect constant summands at the front of a sum.  \<^verbatim>\<open>AddExpr::create\<close> and
  \<^verbatim>\<open>SubExpr::create\<close> call each other; the calls fall in two layers.  A call with a constant
  first operand only makes such calls again, on a subterm of the other operand
  (\<open>AddExpr_create_c\<close>, \<open>SubExpr_create_c\<close>).  A call on two general operands first builds a sum
  or difference of smaller operands and then adds a constant to it or subtracts a constant from
  it.  \<open>AddExpr_create_const\<close>, \<open>SubExpr_create_const\<close> and \<open>SubExpr_create_const_right\<close> show that
  the layers are the same constructor.
\<close>

section \<open>Exclusive or\<close>

definition XorExpr_createPartialR :: "bool \<Rightarrow> apint \<Rightarrow> expr \<Rightarrow> expr option" where
  "XorExpr_createPartialR cao cl r =
     (if ConstantExpr_isZero cl then Some r
      else if bitWidth cl = 1 then EqExpr_createPartial cao r (ap_bool False)
      else Some (BinaryExpr Xor (ConstantExpr cl) r))"

definition XorExpr_createPartial :: "bool \<Rightarrow> expr \<Rightarrow> apint \<Rightarrow> expr option" where
  "XorExpr_createPartial cao l cr = XorExpr_createPartialR cao cr l"

definition XorExpr_create_nc :: "expr \<Rightarrow> expr \<Rightarrow> expr" where
  "XorExpr_create_nc l r = BinaryExpr Xor l r"

definition XorExpr_create :: "bool \<Rightarrow> expr \<Rightarrow> expr \<Rightarrow> expr option" where
  "XorExpr_create cao = BCREATE_R ConstantExpr_Xor (XorExpr_createPartial cao)
     (XorExpr_createPartialR cao) (\<lambda>l r. Some (XorExpr_create_nc l r))"

section \<open>Addition and subtraction\<close>

text \<open>The test \<^verbatim>\<open>e->getKind() == op && isa<ConstantExpr>(e->getKid(0))\<close>, with the two kids.\<close>

definition const_left :: "bop \<Rightarrow> expr \<Rightarrow> (apint \<times> expr) option" where
  "const_left op e =
     (case e of BinaryExpr op' (ConstantExpr k) b \<Rightarrow> if op' = op then Some (k, b) else None | _ \<Rightarrow> None)"

lemma const_left_Some [simp]:
  "const_left op e = Some (k, b) \<longleftrightarrow> e = BinaryExpr op (ConstantExpr k) b"
  by (auto simp: const_left_def split: expr.splits)

lemma const_left_Binary [simp]:
  "const_left op (BinaryExpr op' (ConstantExpr k) b) = (if op' = op then Some (k, b) else None)"
  by (simp add: const_left_def)

function (sequential) AddExpr_createPartialR :: "bool \<Rightarrow> apint \<Rightarrow> expr \<Rightarrow> expr option"
  and SubExpr_createPartialR :: "bool \<Rightarrow> apint \<Rightarrow> expr \<Rightarrow> expr option"
  and AddExpr_create_c :: "bool \<Rightarrow> apint \<Rightarrow> expr \<Rightarrow> expr option"
  and SubExpr_create_c :: "bool \<Rightarrow> apint \<Rightarrow> expr \<Rightarrow> expr option" where
  "AddExpr_createPartialR cao cl r =
     (if bitWidth cl = 1 then XorExpr_createPartialR cao cl r
      else if ConstantExpr_isZero cl then Some r
      else
        (case const_left Add r of
           Some (k, b) \<Rightarrow> do {
             assert_that (bitWidth cl = bitWidth k);
             AddExpr_create_c cao (ConstantExpr_Add cl k) b
           }
         | None \<Rightarrow>
             (case const_left Sub r of
                Some (k, b) \<Rightarrow> do {
                  assert_that (bitWidth cl = bitWidth k);
                  SubExpr_create_c cao (ConstantExpr_Add cl k) b
                }
              | None \<Rightarrow> Some (BinaryExpr Add (ConstantExpr cl) r))))"
| "SubExpr_createPartialR cao cl r =
     (if bitWidth cl = 1 then XorExpr_createPartialR cao cl r
      else
        (case const_left Add r of
           Some (k, b) \<Rightarrow> do {
             assert_that (bitWidth cl = bitWidth k);
             SubExpr_create_c cao (ConstantExpr_Sub cl k) b
           }
         | None \<Rightarrow>
             (case const_left Sub r of
                Some (k, b) \<Rightarrow> do {
                  assert_that (bitWidth cl = bitWidth k);
                  AddExpr_create_c cao (ConstantExpr_Sub cl k) b
                }
              | None \<Rightarrow> Some (BinaryExpr Sub (ConstantExpr cl) r))))"
| "AddExpr_create_c cao cl r = do {
     assert_that (bitWidth cl = getWidth r);
     (case r of ConstantExpr cr \<Rightarrow> Some (ConstantExpr (ConstantExpr_Add cl cr))
      | _ \<Rightarrow> AddExpr_createPartialR cao cl r)
   }"
| "SubExpr_create_c cao cl r = do {
     assert_that (bitWidth cl = getWidth r);
     (case r of ConstantExpr cr \<Rightarrow> Some (ConstantExpr (ConstantExpr_Sub cl cr))
      | _ \<Rightarrow> SubExpr_createPartialR cao cl r)
   }"
  by pat_completeness auto

termination
  by (relation "measures [\<lambda>s. case s of Inl (Inl (cao, cl, r)) \<Rightarrow> size r | Inl (Inr (cao, cl, r)) \<Rightarrow> size r
        | Inr (Inl (cao, cl, r)) \<Rightarrow> size r | Inr (Inr (cao, cl, r)) \<Rightarrow> size r,
      \<lambda>s. case s of Inl _ \<Rightarrow> 0 | Inr _ \<Rightarrow> 1]") auto

declare AddExpr_createPartialR.simps [simp del] SubExpr_createPartialR.simps [simp del]
  AddExpr_create_c.simps [simp del] SubExpr_create_c.simps [simp del]

definition AddExpr_createPartial :: "bool \<Rightarrow> expr \<Rightarrow> apint \<Rightarrow> expr option" where
  "AddExpr_createPartial cao l cr = AddExpr_createPartialR cao cr l"

definition SubExpr_createPartial :: "bool \<Rightarrow> expr \<Rightarrow> apint \<Rightarrow> expr option" where
  "SubExpr_createPartial cao l cr =
     AddExpr_createPartial cao l (ConstantExpr_Sub (APInt (bitWidth cr) 0) cr)"

definition SubExpr_create_r :: "bool \<Rightarrow> expr \<Rightarrow> apint \<Rightarrow> expr option" where
  "SubExpr_create_r cao l cr = do {
     assert_that (getWidth l = bitWidth cr);
     (case l of ConstantExpr cl \<Rightarrow> Some (ConstantExpr (ConstantExpr_Sub cl cr))
      | _ \<Rightarrow> SubExpr_createPartial cao l cr)
   }"

lemma BCREATE_R_cong [fundef_cong]:
  assumes "l = l'" "r = r'" "fold_op = fold_op'" "pL = pL'" "pR = pR'" "nc l' r' = nc' l' r'"
  shows "BCREATE_R fold_op pL pR nc l r = BCREATE_R fold_op' pL' pR' nc' l' r'"
  using assms unfolding BCREATE_R_def by (auto split: expr.split)

function (sequential) AddExpr_create :: "bool \<Rightarrow> expr \<Rightarrow> expr \<Rightarrow> expr option"
  and SubExpr_create :: "bool \<Rightarrow> expr \<Rightarrow> expr \<Rightarrow> expr option"
  and AddExpr_create_nc :: "bool \<Rightarrow> expr \<Rightarrow> expr \<Rightarrow> expr option"
  and SubExpr_create_nc :: "bool \<Rightarrow> expr \<Rightarrow> expr \<Rightarrow> expr option" where
  "AddExpr_create cao l r =
     BCREATE_R ConstantExpr_Add (AddExpr_createPartial cao) (AddExpr_createPartialR cao)
       (AddExpr_create_nc cao) l r"
| "SubExpr_create cao l r =
     BCREATE_R ConstantExpr_Sub (SubExpr_createPartial cao) (SubExpr_createPartialR cao)
       (SubExpr_create_nc cao) l r"
| "AddExpr_create_nc cao l r =
     (if getWidth l = 1 then Some (XorExpr_create_nc l r)
      else
        (case const_left Add l of
           Some (k, a) \<Rightarrow> do { e \<leftarrow> AddExpr_create cao a r; AddExpr_create_c cao k e }
         | None \<Rightarrow>
        (case const_left Sub l of
           Some (k, a) \<Rightarrow> do { e \<leftarrow> SubExpr_create cao r a; AddExpr_create_c cao k e }
         | None \<Rightarrow>
        (case const_left Add r of
           Some (k, b) \<Rightarrow> do { e \<leftarrow> AddExpr_create cao l b; AddExpr_create_c cao k e }
         | None \<Rightarrow>
        (case const_left Sub r of
           Some (k, b) \<Rightarrow> do { e \<leftarrow> SubExpr_create cao l b; AddExpr_create_c cao k e }
         | None \<Rightarrow> Some (BinaryExpr Add l r))))))"
| "SubExpr_create_nc cao l r =
     (if getWidth l = 1 then Some (XorExpr_create_nc l r)
      else if l = r then Some (ConstantExpr (APInt (getWidth l) 0))
      else
        (case const_left Add l of
           Some (k, a) \<Rightarrow> do { e \<leftarrow> SubExpr_create cao a r; AddExpr_create_c cao k e }
         | None \<Rightarrow>
        (case const_left Sub l of
           Some (k, a) \<Rightarrow> do { e \<leftarrow> AddExpr_create cao a r; SubExpr_create_c cao k e }
         | None \<Rightarrow>
        (case const_left Add r of
           Some (k, b) \<Rightarrow> do { e \<leftarrow> SubExpr_create cao l b; SubExpr_create_r cao e k }
         | None \<Rightarrow>
        (case const_left Sub r of
           Some (k, b) \<Rightarrow> do { e \<leftarrow> AddExpr_create cao l b; SubExpr_create_r cao e k }
         | None \<Rightarrow> Some (BinaryExpr Sub l r))))))"
  by pat_completeness auto

termination
  by (relation "measures [\<lambda>s. case s of Inl (Inl (cao, l, r)) \<Rightarrow> size l + size r
        | Inl (Inr (cao, l, r)) \<Rightarrow> size l + size r
        | Inr (Inl (cao, l, r)) \<Rightarrow> size l + size r | Inr (Inr (cao, l, r)) \<Rightarrow> size l + size r,
      \<lambda>s. case s of Inl _ \<Rightarrow> 1 | Inr _ \<Rightarrow> 0]") auto

declare AddExpr_create.simps [simp del] SubExpr_create.simps [simp del]
  AddExpr_create_nc.simps [simp del] SubExpr_create_nc.simps [simp del]

text \<open>The layers are one constructor.\<close>

lemma AddExpr_create_const: "AddExpr_create cao (ConstantExpr k) e = AddExpr_create_c cao k e"
  by (simp add: AddExpr_create.simps BCREATE_R_def AddExpr_create_c.simps split: expr.split)

lemma SubExpr_create_const: "SubExpr_create cao (ConstantExpr k) e = SubExpr_create_c cao k e"
  by (simp add: SubExpr_create.simps BCREATE_R_def SubExpr_create_c.simps split: expr.split)

lemma SubExpr_create_const_right:
  "SubExpr_create cao e (ConstantExpr k) = SubExpr_create_r cao e k"
  by (cases e) (simp_all add: SubExpr_create.simps BCREATE_R_def SubExpr_create_r_def)

section \<open>Correctness\<close>

lemma XorExpr_createPartialR_ok:
  assumes "wf_ap cl" "denotes A r (bitWidth cl) g"
  shows "ok (XorExpr_createPartialR False cl r) (\<lambda>e. denotes A e (bitWidth cl) (\<lambda>\<sigma>. apval cl XOR g \<sigma>))"
proof (cases "\<not> ConstantExpr_isZero cl \<and> bitWidth cl = 1")
  case True
  then have "apval cl = 1"
    using assms(1) by (auto simp: wf_ap_def in_width_def ConstantExpr_isZero_def)
  moreover have "of_bool (0 = g \<sigma>) = 1 XOR g \<sigma>" if "wf_env \<sigma>" "A \<sigma>" for \<sigma>
    using denotes_bool_cases [of A r g] assms(2) True that by force
  ultimately show ?thesis
    using ok_denotes_cong [OF EqExpr_create_partial_ok(1) [of "ap_bool False" A r g False]] assms True
    by (simp add: XorExpr_createPartialR_def EqExpr_createPartial_def)
next
  case False
  have "denotes A (BinaryExpr Xor (ConstantExpr cl) r) (bitWidth cl) (\<lambda>\<sigma>. apval cl XOR g \<sigma>)"
    using denotes_Bin [of A "ConstantExpr cl" "bitWidth cl" "\<lambda>_. apval cl" r g Xor] assms by simp
  with False show ?thesis
    using assms by (auto simp: XorExpr_createPartialR_def ConstantExpr_isZero_def)
qed

lemma XorExpr_create_ok [denotes_rules]:
  assumes "denotes A l w f" "denotes A r w g"
  shows "ok (XorExpr_create False l r) (\<lambda>e. denotes A e w (\<lambda>\<sigma>. f \<sigma> XOR g \<sigma>))"
  unfolding XorExpr_create_def
proof (rule BCREATE_R_ok [OF assms])
  show "ok (XorExpr_createPartialR False cl r) (\<lambda>e. denotes A e w (\<lambda>\<sigma>. f \<sigma> XOR g \<sigma>))"
    if "l = ConstantExpr cl" for cl
    using ok_denotes_cong [OF XorExpr_createPartialR_ok [of cl A r g]] assms that by auto
  show "ok (XorExpr_createPartial False l cr) (\<lambda>e. denotes A e w (\<lambda>\<sigma>. f \<sigma> XOR g \<sigma>))"
    if "r = ConstantExpr cr" for cr
    using ok_denotes_cong [OF XorExpr_createPartialR_ok [of cr A l f]] assms that
    by (auto simp: XorExpr_createPartial_def xor.commute)
qed (use assms denotes_Bin [OF assms, of Xor] in
    \<open>auto simp: ConstantExpr_Xor_def XorExpr_create_nc_def wf_ap_def intro: in_width_xor\<close>)

text \<open>On one bit, sum and difference are exclusive or.\<close>

lemma bool_add_sub:
  assumes "denotes A l 1 f" "denotes A r 1 g" "wf_env \<sigma>" "A \<sigma>"
  shows "take_bit (Suc 0) (f \<sigma> + g \<sigma>) = f \<sigma> XOR g \<sigma>"
    and "take_bit (Suc 0) (f \<sigma> - g \<sigma>) = f \<sigma> XOR g \<sigma>"
  using denotes_bool_cases [OF assms(1,3,4)] denotes_bool_cases [OF assms(2-4)]
  by (auto simp: take_bit_eq_mod)

lemma denotes_constD:
  assumes "denotes A (BinaryExpr op (ConstantExpr k) b) w g"
  shows "wf_ap k" "bitWidth k = w" "denotes A b w (\<lambda>\<sigma>. eval \<sigma> b)" "denotes A (ConstantExpr k) w (\<lambda>_. apval k)"
    and "wf_env \<sigma> \<Longrightarrow> A \<sigma> \<Longrightarrow> g \<sigma> = bop_sem op w (apval k) (eval \<sigma> b)"
  using assms by (auto simp: denotes_def)

lemma bool_partial_ok:
  assumes "wf_ap cl" "bitWidth cl = 1" "denotes A r (bitWidth cl) g"
  shows "ok (XorExpr_createPartialR False cl r)
      (\<lambda>e. denotes A e (bitWidth cl) (\<lambda>\<sigma>. take_bit (bitWidth cl) (apval cl + g \<sigma>)))"
    and "ok (XorExpr_createPartialR False cl r)
      (\<lambda>e. denotes A e (bitWidth cl) (\<lambda>\<sigma>. take_bit (bitWidth cl) (apval cl - g \<sigma>)))"
  using XorExpr_createPartialR_ok [OF assms(1,3)] assms
    bool_add_sub [of A "ConstantExpr cl" "\<lambda>_. apval cl" r g]
  by (auto elim!: ok_denotes_cong)

lemmas take_bit_arith = take_bit_eq_mod mod_simps algebra_simps

text \<open>
  The common step: a constant \<open>k\<close> at the front of the other operand is moved into the constant
  \<open>c\<close>, and the constructor is called again on what remains.
\<close>

lemma const_step_ok:
  assumes "denotes A (BinaryExpr op (ConstantExpr k) b) (bitWidth cl) g"
    and "wf_ap c" "bitWidth c = bitWidth cl"
    and IH: "bitWidth cl = bitWidth k \<Longrightarrow> denotes A b (bitWidth c) (\<lambda>\<sigma>. eval \<sigma> b) \<Longrightarrow>
      ok (f c b) (\<lambda>e. denotes A e (bitWidth c) (\<lambda>\<sigma>. h (apval c) (eval \<sigma> b)))"
    and arith: "\<And>y. h (apval c) y = h' (bop_sem op (bitWidth cl) (apval k) y)"
  shows "ok (do { assert_that (bitWidth cl = bitWidth k); f c b })
      (\<lambda>e. denotes A e (bitWidth cl) (\<lambda>\<sigma>. h' (g \<sigma>)))"
  using ok_denotes_cong [OF IH, of "\<lambda>\<sigma>. h' (g \<sigma>)"] denotes_constD [OF assms(1)] assms(3) arith by simp

lemma const_left_cases:
  obtains (add) k b where "r = BinaryExpr Add (ConstantExpr k) b" "const_left Add r = Some (k, b)"
  | (sub) k b where "r = BinaryExpr Sub (ConstantExpr k) b" "const_left Add r = None" "const_left Sub r = Some (k, b)"
  | (other) "const_left Add r = None" "const_left Sub r = None"
  by (cases "const_left Add r"; cases "const_left Sub r"; fastforce)

lemma bitWidth_Add_Sub [simp]:
  "bitWidth (ConstantExpr_Add a b) = bitWidth a" "bitWidth (ConstantExpr_Sub a b) = bitWidth a"
  by (simp_all add: ConstantExpr_Add_def ConstantExpr_Sub_def)

lemma const_step_arith:
  "take_bit (bitWidth c) (apval (ConstantExpr_Add c k) + y) =
     take_bit (bitWidth c) (apval c + bop_sem Add (bitWidth c) (apval k) y)"
  "take_bit (bitWidth c) (apval (ConstantExpr_Add c k) - y) =
     take_bit (bitWidth c) (apval c + bop_sem Sub (bitWidth c) (apval k) y)"
  "take_bit (bitWidth c) (apval (ConstantExpr_Sub c k) - y) =
     take_bit (bitWidth c) (apval c - bop_sem Add (bitWidth c) (apval k) y)"
  "take_bit (bitWidth c) (apval (ConstantExpr_Sub c k) + y) =
     take_bit (bitWidth c) (apval c - bop_sem Sub (bitWidth c) (apval k) y)"
  by (simp_all add: ConstantExpr_Add_def ConstantExpr_Sub_def take_bit_arith)

lemma add_sub_const_ok:
  "wf_ap cl \<Longrightarrow> denotes A r (bitWidth cl) g \<Longrightarrow> \<not> cao \<Longrightarrow>
     ok (AddExpr_createPartialR cao cl r)
       (\<lambda>e. denotes A e (bitWidth cl) (\<lambda>\<sigma>. take_bit (bitWidth cl) (apval cl + g \<sigma>)))"
  "wf_ap cl \<Longrightarrow> denotes A r (bitWidth cl) g \<Longrightarrow> \<not> cao \<Longrightarrow>
     ok (SubExpr_createPartialR cao cl r)
       (\<lambda>e. denotes A e (bitWidth cl) (\<lambda>\<sigma>. take_bit (bitWidth cl) (apval cl - g \<sigma>)))"
  "wf_ap cl \<Longrightarrow> denotes A r (bitWidth cl) g \<Longrightarrow> \<not> cao \<Longrightarrow>
     ok (AddExpr_create_c cao cl r)
       (\<lambda>e. denotes A e (bitWidth cl) (\<lambda>\<sigma>. take_bit (bitWidth cl) (apval cl + g \<sigma>)))"
  "wf_ap cl \<Longrightarrow> denotes A r (bitWidth cl) g \<Longrightarrow> \<not> cao \<Longrightarrow>
     ok (SubExpr_create_c cao cl r)
       (\<lambda>e. denotes A e (bitWidth cl) (\<lambda>\<sigma>. take_bit (bitWidth cl) (apval cl - g \<sigma>)))"
proof (induction cao cl r and cao cl r and cao cl r and cao cl r arbitrary: g and g and g and g
    rule: AddExpr_createPartialR_SubExpr_createPartialR_AddExpr_create_c_SubExpr_create_c.induct)
  case (1 cao cl r)
  let ?w = "bitWidth cl"
  have wf: "wf_ap (ConstantExpr_Add cl k)" for k
    using "1.prems"(1) by (simp add: ConstantExpr_Add_def wf_apD)
  show ?case
  proof (cases "?w = 1 \<or> ConstantExpr_isZero cl")
    case True
    have "denotes A r ?w (\<lambda>\<sigma>. take_bit ?w (apval cl + g \<sigma>))" if "ConstantExpr_isZero cl"
      using "1.prems"(2)
      by (rule denotes_cong)
        (use that denotesD(5) [OF "1.prems"(2)] in \<open>simp add: ConstantExpr_isZero_def in_width_take_bit\<close>)
    then show ?thesis
      using bool_partial_ok(1) [OF "1.prems"(1) _ "1.prems"(2)] "1.prems"(3) True
      by (auto simp: AddExpr_createPartialR.simps)
  next
    case False
    then have nb: "?w \<noteq> 1" "\<not> ConstantExpr_isZero cl" by auto
    show ?thesis
    proof (cases r rule: const_left_cases)
      case (add k b)
      have "ok (do { assert_that (?w = bitWidth k); AddExpr_create_c cao (ConstantExpr_Add cl k) b })
          (\<lambda>e. denotes A e ?w (\<lambda>\<sigma>. take_bit ?w (apval cl + g \<sigma>)))"
        by (rule const_step_ok [where h = "\<lambda>x y. take_bit ?w (x + y)" and h' = "\<lambda>y. take_bit ?w (apval cl + y)" and op = Add])
          (use "1.prems" "1.IH"(2) [OF nb add(2) refl] wf add(1) in
            \<open>simp_all add: const_step_arith\<close>)
      then show ?thesis using add(2) nb by (simp add: AddExpr_createPartialR.simps)
    next
      case (sub k b)
      have "ok (do { assert_that (?w = bitWidth k); SubExpr_create_c cao (ConstantExpr_Add cl k) b })
          (\<lambda>e. denotes A e ?w (\<lambda>\<sigma>. take_bit ?w (apval cl + g \<sigma>)))"
        by (rule const_step_ok [where h = "\<lambda>x y. take_bit ?w (x - y)" and h' = "\<lambda>y. take_bit ?w (apval cl + y)" and op = Sub])
          (use "1.prems" "1.IH"(1) [OF nb sub(2,3) refl] wf sub(1) in
            \<open>simp_all add: const_step_arith\<close>)
      then show ?thesis using sub(2,3) nb by (simp add: AddExpr_createPartialR.simps)
    next
      case other
      then show ?thesis
        using denotes_Bin [of A "ConstantExpr cl" ?w "\<lambda>_. apval cl" r g Add] "1.prems" nb
        by (simp add: AddExpr_createPartialR.simps)
    qed
  qed
next
  case (2 cao cl r)
  let ?w = "bitWidth cl"
  have wf: "wf_ap (ConstantExpr_Sub cl k)" for k
    using "2.prems"(1) by (simp add: ConstantExpr_Sub_def wf_apD)
  show ?case
  proof (cases "?w = 1")
    case True
    then show ?thesis
      using bool_partial_ok(2) [OF "2.prems"(1) _ "2.prems"(2)] "2.prems"
      by (auto simp: SubExpr_createPartialR.simps)
  next
    case nb: False
    show ?thesis
    proof (cases r rule: const_left_cases)
      case (add k b)
      have "ok (do { assert_that (?w = bitWidth k); SubExpr_create_c cao (ConstantExpr_Sub cl k) b })
          (\<lambda>e. denotes A e ?w (\<lambda>\<sigma>. take_bit ?w (apval cl - g \<sigma>)))"
        by (rule const_step_ok [where h = "\<lambda>x y. take_bit ?w (x - y)" and h' = "\<lambda>y. take_bit ?w (apval cl - y)" and op = Add])
          (use "2.prems" "2.IH"(2) [OF nb add(2) refl] wf add(1) in
            \<open>simp_all add: const_step_arith\<close>)
      then show ?thesis using add(2) nb by (simp add: SubExpr_createPartialR.simps)
    next
      case (sub k b)
      have "ok (do { assert_that (?w = bitWidth k); AddExpr_create_c cao (ConstantExpr_Sub cl k) b })
          (\<lambda>e. denotes A e ?w (\<lambda>\<sigma>. take_bit ?w (apval cl - g \<sigma>)))"
        by (rule const_step_ok [where h = "\<lambda>x y. take_bit ?w (x + y)" and h' = "\<lambda>y. take_bit ?w (apval cl - y)" and op = Sub])
          (use "2.prems" "2.IH"(1) [OF nb sub(2,3) refl] wf sub(1) in
            \<open>simp_all add: const_step_arith\<close>)
      then show ?thesis using sub(2,3) nb by (simp add: SubExpr_createPartialR.simps)
    next
      case other
      then show ?thesis
        using denotes_Bin [of A "ConstantExpr cl" ?w "\<lambda>_. apval cl" r g Sub] "2.prems" nb
        by (simp add: SubExpr_createPartialR.simps)
    qed
  qed
next
  case (3 cao cl r)
  have "bitWidth cl = getWidth r" using "3.prems"(2) by (simp add: denotesD(2))
  with 3 show ?case
    by (cases r) (auto simp: AddExpr_create_c.simps ConstantExpr_Add_def)
next
  case (4 cao cl r)
  have "bitWidth cl = getWidth r" using "4.prems"(2) by (simp add: denotesD(2))
  with 4 show ?case
    by (cases r) (auto simp: SubExpr_create_c.simps ConstantExpr_Sub_def)
qed

lemma SubExpr_createPartial_ok:
  assumes "wf_ap cr" "denotes A l (bitWidth cr) f"
  shows "ok (SubExpr_createPartial False l cr)
    (\<lambda>e. denotes A e (bitWidth cr) (\<lambda>\<sigma>. take_bit (bitWidth cr) (f \<sigma> - apval cr)))"
proof -
  let ?c = "ConstantExpr_Sub (APInt (bitWidth cr) 0) cr"
  have "wf_ap ?c" "bitWidth ?c = bitWidth cr"
    using assms(1) by (simp_all add: ConstantExpr_Sub_def wf_apD)
  then show ?thesis
    unfolding SubExpr_createPartial_def AddExpr_createPartial_def
    using ok_denotes_cong [OF add_sub_const_ok(1) [of ?c A l f False]] assms(2)
    by (simp add: ConstantExpr_Sub_def take_bit_arith)
qed

lemma SubExpr_create_r_ok:
  assumes "wf_ap cr" "denotes A l (bitWidth cr) f"
  shows "ok (SubExpr_create_r False l cr)
    (\<lambda>e. denotes A e (bitWidth cr) (\<lambda>\<sigma>. take_bit (bitWidth cr) (f \<sigma> - apval cr)))"
proof -
  have "getWidth l = bitWidth cr" using assms(2) by (rule denotesD)
  with SubExpr_createPartial_ok [OF assms] assms show ?thesis
    by (cases l) (auto simp: SubExpr_create_r_def ConstantExpr_Sub_def)
qed

text \<open>The two general operands: each rewriting step computes the same sum or difference.\<close>

abbreviation sum_ok :: "(env \<Rightarrow> bool) \<Rightarrow> expr option \<Rightarrow> expr \<Rightarrow> expr \<Rightarrow> bool" where
  "sum_ok A res l r \<equiv> ok res (\<lambda>e. denotes A e (getWidth l) (\<lambda>\<sigma>. take_bit (getWidth l) (eval \<sigma> l + eval \<sigma> r)))"

abbreviation diff_ok :: "(env \<Rightarrow> bool) \<Rightarrow> expr option \<Rightarrow> expr \<Rightarrow> expr \<Rightarrow> bool" where
  "diff_ok A res l r \<equiv> ok res (\<lambda>e. denotes A e (getWidth l) (\<lambda>\<sigma>. take_bit (getWidth l) (eval \<sigma> l - eval \<sigma> r)))"

lemma add_const_ok:
  assumes "ok res (\<lambda>e. denotes A e w f)" "wf_ap k" "bitWidth k = w"
  shows "ok (do { e \<leftarrow> res; AddExpr_create_c False k e }) (\<lambda>e. denotes A e w (\<lambda>\<sigma>. take_bit w (apval k + f \<sigma>)))"
    and "ok (do { e \<leftarrow> res; SubExpr_create_c False k e }) (\<lambda>e. denotes A e w (\<lambda>\<sigma>. take_bit w (apval k - f \<sigma>)))"
    and "ok (do { e \<leftarrow> res; SubExpr_create_r False e k }) (\<lambda>e. denotes A e w (\<lambda>\<sigma>. take_bit w (f \<sigma> - apval k)))"
  using assms by (auto intro!: ok_bind [OF assms(1)] add_sub_const_ok SubExpr_create_r_ok)

lemma AddExpr_create_nc_step:
  assumes wt: "wt l" "wt r" "getWidth l = getWidth r"
    and IH: "\<And>k a. getWidth l \<noteq> 1 \<Longrightarrow> l = BinaryExpr Add (ConstantExpr k) a \<Longrightarrow>
         sum_ok A (AddExpr_create False a r) a r"
      "\<And>k a. getWidth l \<noteq> 1 \<Longrightarrow> l = BinaryExpr Sub (ConstantExpr k) a \<Longrightarrow>
         diff_ok A (SubExpr_create False r a) r a"
      "\<And>k b. getWidth l \<noteq> 1 \<Longrightarrow> const_left Add l = None \<Longrightarrow> const_left Sub l = None \<Longrightarrow>
        r = BinaryExpr Add (ConstantExpr k) b \<Longrightarrow> sum_ok A (AddExpr_create False l b) l b"
      "\<And>k b. getWidth l \<noteq> 1 \<Longrightarrow> const_left Add l = None \<Longrightarrow> const_left Sub l = None \<Longrightarrow>
        r = BinaryExpr Sub (ConstantExpr k) b \<Longrightarrow> diff_ok A (SubExpr_create False l b) l b"
  shows "sum_ok A (AddExpr_create_nc False l r) l r"
proof (cases "getWidth l = 1")
  case True
  then show ?thesis
    using denotes_cong [OF denotes_Bin [of A l 1 "\<lambda>\<sigma>. eval \<sigma> l" r "\<lambda>\<sigma>. eval \<sigma> r" Xor]] wt
      bool_add_sub(1) [of A l "\<lambda>\<sigma>. eval \<sigma> l" r "\<lambda>\<sigma>. eval \<sigma> r"]
    by (simp add: AddExpr_create_nc.simps XorExpr_create_nc_def denotes_wt)
next
  case False
  show ?thesis
  proof (cases l rule: const_left_cases)
    case (add k a)
    then show ?thesis
      using ok_denotes_cong [OF add_const_ok(1) [OF IH(1) [OF False add(1)], of k]] wt False
      by (simp add: AddExpr_create_nc.simps take_bit_arith)
  next
    case (sub k a)
    then show ?thesis
      using ok_denotes_cong [OF add_const_ok(1) [OF IH(2) [OF False sub(1)], of k]] wt False
      by (simp add: AddExpr_create_nc.simps take_bit_arith)
  next
    case l: other
    show ?thesis
    proof (cases r rule: const_left_cases)
      case (add k b)
      then show ?thesis
        using ok_denotes_cong [OF add_const_ok(1) [OF IH(3) [OF False l add(1)], of k]] wt False l
        by (simp add: AddExpr_create_nc.simps take_bit_arith)
    next
      case (sub k b)
      then show ?thesis
        using ok_denotes_cong [OF add_const_ok(1) [OF IH(4) [OF False l sub(1)], of k]] wt False l
        by (simp add: AddExpr_create_nc.simps take_bit_arith)
    next
      case other
      then show ?thesis
        using denotes_wt [of "BinaryExpr Add l r"] wt False l by (simp add: AddExpr_create_nc.simps)
    qed
  qed
qed

lemma SubExpr_create_nc_step:
  assumes wt: "wt l" "wt r" "getWidth l = getWidth r"
    and IH: "\<And>k a. getWidth l \<noteq> 1 \<Longrightarrow> l \<noteq> r \<Longrightarrow> l = BinaryExpr Add (ConstantExpr k) a \<Longrightarrow>
         diff_ok A (SubExpr_create False a r) a r"
      "\<And>k a. getWidth l \<noteq> 1 \<Longrightarrow> l \<noteq> r \<Longrightarrow> l = BinaryExpr Sub (ConstantExpr k) a \<Longrightarrow>
         sum_ok A (AddExpr_create False a r) a r"
      "\<And>k b. getWidth l \<noteq> 1 \<Longrightarrow> l \<noteq> r \<Longrightarrow> const_left Add l = None \<Longrightarrow> const_left Sub l = None \<Longrightarrow>
        r = BinaryExpr Add (ConstantExpr k) b \<Longrightarrow> diff_ok A (SubExpr_create False l b) l b"
      "\<And>k b. getWidth l \<noteq> 1 \<Longrightarrow> l \<noteq> r \<Longrightarrow> const_left Add l = None \<Longrightarrow> const_left Sub l = None \<Longrightarrow>
        r = BinaryExpr Sub (ConstantExpr k) b \<Longrightarrow> sum_ok A (AddExpr_create False l b) l b"
  shows "diff_ok A (SubExpr_create_nc False l r) l r"
proof (cases "getWidth l = 1")
  case True
  then show ?thesis
    using denotes_cong [OF denotes_Bin [of A l 1 "\<lambda>\<sigma>. eval \<sigma> l" r "\<lambda>\<sigma>. eval \<sigma> r" Xor]] wt
      bool_add_sub(2) [of A l "\<lambda>\<sigma>. eval \<sigma> l" r "\<lambda>\<sigma>. eval \<sigma> r"]
    by (simp add: SubExpr_create_nc.simps XorExpr_create_nc_def denotes_wt)
next
  case w: False
  show ?thesis
  proof (cases "l = r")
    case True
    with w show ?thesis using wt by (simp add: SubExpr_create_nc.simps wt_width_pos)
  next
    case False
    show ?thesis
    proof (cases l rule: const_left_cases)
      case (add k a)
      then show ?thesis
        using ok_denotes_cong [OF add_const_ok(1) [OF IH(1) [OF w False add(1)], of k]] wt w False
        by (simp add: SubExpr_create_nc.simps take_bit_arith)
    next
      case (sub k a)
      then show ?thesis
        using ok_denotes_cong [OF add_const_ok(2) [OF IH(2) [OF w False sub(1)], of k]] wt w False
        by (simp add: SubExpr_create_nc.simps take_bit_arith)
    next
      case l: other
      show ?thesis
      proof (cases r rule: const_left_cases)
        case (add k b)
        then show ?thesis
          using ok_denotes_cong [OF add_const_ok(3) [OF IH(3) [OF w False l add(1)], of k]] wt w False l
          by (simp add: SubExpr_create_nc.simps take_bit_arith)
      next
        case (sub k b)
        then show ?thesis
          using ok_denotes_cong [OF add_const_ok(3) [OF IH(4) [OF w False l sub(1)], of k]] wt w False l
          by (simp add: SubExpr_create_nc.simps take_bit_arith)
      next
        case other
        then show ?thesis
          using denotes_wt [of "BinaryExpr Sub l r"] wt w False l by (simp add: SubExpr_create_nc.simps)
      qed
    qed
  qed
qed

lemma AddExpr_dispatch_ok:
  assumes "wt l" "wt r" "getWidth l = getWidth r" "sum_ok A (AddExpr_create_nc False l r) l r"
  shows "sum_ok A (AddExpr_create False l r) l r"
  unfolding AddExpr_create.simps
proof (rule BCREATE_R_ok [OF denotes_self [OF assms(1)] denotes_wt [OF assms(2)]])
  show "sum_ok A (AddExpr_createPartialR False cl r) l r" if "l = ConstantExpr cl" for cl
    using add_sub_const_ok(1) [of cl A r "\<lambda>\<sigma>. eval \<sigma> r" False] assms that by (simp add: denotes_wt)
  show "sum_ok A (AddExpr_createPartial False l cr) l r" if "r = ConstantExpr cr" for cr
    using add_sub_const_ok(1) [of cr A l "\<lambda>\<sigma>. eval \<sigma> l" False] assms that
    by (simp add: denotes_wt AddExpr_createPartial_def add.commute)
qed (use assms in \<open>auto simp: ConstantExpr_Add_def wf_apD\<close>)

lemma SubExpr_dispatch_ok:
  assumes "wt l" "wt r" "getWidth l = getWidth r" "diff_ok A (SubExpr_create_nc False l r) l r"
  shows "diff_ok A (SubExpr_create False l r) l r"
  unfolding SubExpr_create.simps
proof (rule BCREATE_R_ok [OF denotes_self [OF assms(1)] denotes_wt [OF assms(2)]])
  show "diff_ok A (SubExpr_createPartialR False cl r) l r" if "l = ConstantExpr cl" for cl
    using add_sub_const_ok(2) [of cl A r "\<lambda>\<sigma>. eval \<sigma> r" False] assms that by (simp add: denotes_wt)
  show "diff_ok A (SubExpr_createPartial False l cr) l r" if "r = ConstantExpr cr" for cr
    using SubExpr_createPartial_ok [of cr A l "\<lambda>\<sigma>. eval \<sigma> l"] assms that by (simp add: denotes_wt)
qed (use assms in \<open>auto simp: ConstantExpr_Sub_def wf_apD\<close>)

lemma add_sub_create_wt_ok:
  "\<not> cao \<Longrightarrow> wt l \<Longrightarrow> wt r \<Longrightarrow> getWidth l = getWidth r \<Longrightarrow> sum_ok A (AddExpr_create cao l r) l r"
  "\<not> cao \<Longrightarrow> wt l \<Longrightarrow> wt r \<Longrightarrow> getWidth l = getWidth r \<Longrightarrow> diff_ok A (SubExpr_create cao l r) l r"
  "\<not> cao \<Longrightarrow> wt l \<Longrightarrow> wt r \<Longrightarrow> getWidth l = getWidth r \<Longrightarrow> sum_ok A (AddExpr_create_nc cao l r) l r"
  "\<not> cao \<Longrightarrow> wt l \<Longrightarrow> wt r \<Longrightarrow> getWidth l = getWidth r \<Longrightarrow> diff_ok A (SubExpr_create_nc cao l r) l r"
proof (induction cao l r and cao l r and cao l r and cao l r
    rule: AddExpr_create_SubExpr_create_AddExpr_create_nc_SubExpr_create_nc.induct)
  case (1 cao l r)
  then show ?case using AddExpr_dispatch_ok by simp
next
  case (2 cao l r)
  then show ?case using SubExpr_dispatch_ok by simp
next
  case (3 cao l r)
  then have cao: "cao = False" by simp
  show ?case
    unfolding cao
    by (rule AddExpr_create_nc_step [OF "3.prems"(2-4)]) (use "3.IH" "3.prems" cao in force)+
next
  case (4 cao l r)
  then have cao: "cao = False" by simp
  show ?case
    unfolding cao
    by (rule SubExpr_create_nc_step [OF "4.prems"(2-4)]) (use "4.IH" "4.prems" cao in force)+
qed

lemma AddExpr_create_ok [denotes_rules]:
  assumes "denotes A l w f" "denotes A r w g"
  shows "ok (AddExpr_create False l r) (\<lambda>e. denotes A e w (\<lambda>\<sigma>. take_bit w (f \<sigma> + g \<sigma>)))"
  using ok_denotes_cong [OF add_sub_create_wt_ok(1) [of False l r A]] assms by (simp add: denotes_def)

lemma SubExpr_create_ok [denotes_rules]:
  assumes "denotes A l w f" "denotes A r w g"
  shows "ok (SubExpr_create False l r) (\<lambda>e. denotes A e w (\<lambda>\<sigma>. take_bit w (f \<sigma> - g \<sigma>)))"
  using ok_denotes_cong [OF add_sub_create_wt_ok(2) [of False l r A]] assms by (simp add: denotes_def)

end
