(* ===== verification/Expr_Concat.thy ===== *)
theory Expr_Concat
  imports Expr_Create
begin

unbundle bit_operations_syntax

text \<open>
  The bit-field constructors of \<^verbatim>\<open>lib/Expr/Expr.cpp\<close>: \<^verbatim>\<open>ExtractExpr::create\<close>,
  \<^verbatim>\<open>ConcatExpr::create\<close> and its shortcuts, \<^verbatim>\<open>ZExtExpr::create\<close>, \<^verbatim>\<open>SExtExpr::create\<close> and
  \<^verbatim>\<open>NotExpr::create\<close>.  Extraction pushes itself into a concatenation and rebuilds it;
  concatenation merges two adjacent extractions of one expression into an extraction.  The two
  call each other on results, so the termination proof first bounds what an extraction can
  return.  Widths and offsets are far below \<open>2^32\<close>, so \<^verbatim>\<open>off + w\<close> is the sum.
\<close>

section \<open>Extract and concat\<close>

function (sequential) ExtractExpr_create :: "expr \<Rightarrow> nat \<Rightarrow> width \<Rightarrow> expr option"
  and ConcatExpr_create :: "expr \<Rightarrow> expr \<Rightarrow> expr option" where
  "ExtractExpr_create e off w = do {
     assert_that (0 < w \<and> off + w \<le> getWidth e);
     (if w = getWidth e then Some e
      else
        (case e of
           ConstantExpr c \<Rightarrow> Some (ConstantExpr (ConstantExpr_Extract c off w))
         | ConcatExpr l r \<Rightarrow>
             (if getWidth r \<le> off then ExtractExpr_create l (off - getWidth r) w
              else if off + w \<le> getWidth r then ExtractExpr_create r off w
              else do {
                x \<leftarrow> ExtractExpr_create l 0 (w + off - getWidth r);
                y \<leftarrow> ExtractExpr_create r off (getWidth r - off);
                ConcatExpr_create x y
              })
         | _ \<Rightarrow> Some (ExtractExpr e off w)))
   }"
| "ConcatExpr_create (ConstantExpr cl) (ConstantExpr cr) =
     Some (ConstantExpr (ConstantExpr_Concat cl cr))"
| "ConcatExpr_create (ExtractExpr el offl wl) (ExtractExpr er offr wr) =
     (if el = er \<and> offr + wr = offl then ExtractExpr_create el offr (wl + wr)
      else Some (ConcatExpr (ExtractExpr el offl wl) (ExtractExpr er offr wr)))"
| "ConcatExpr_create l r = Some (ConcatExpr l r)"
  by pat_completeness auto

lemma extract_result_size:
  "ExtractExpr_create_ConcatExpr_create_dom (Inl (e, off, w)) \<Longrightarrow>
     ExtractExpr_create e off w = Some (ExtractExpr e' off' w') \<Longrightarrow> size e' \<le> size e"
  "ExtractExpr_create_ConcatExpr_create_dom (Inr (l, r)) \<Longrightarrow>
     ConcatExpr_create l r = Some (ExtractExpr e' off' w') \<Longrightarrow>
     \<exists>el offl wl. l = ExtractExpr el offl wl \<and> size e' \<le> size el"
proof (induction arbitrary: e' off' w' and e' off' w' rule: ExtractExpr_create_ConcatExpr_create.pinduct)
  case (1 e off w)
  show ?case
  proof (cases e)
    case (ConcatExpr l r)
    consider "ExtractExpr e' off' w' = e" | "ExtractExpr_create l (off - getWidth r) w = Some (ExtractExpr e' off' w')"
        "off + w \<le> getWidth e" "0 < w" "w \<noteq> getWidth e" "getWidth r \<le> off"
      | "ExtractExpr_create r off w = Some (ExtractExpr e' off' w')"
        "off + w \<le> getWidth e" "0 < w" "w \<noteq> getWidth e" "\<not> getWidth r \<le> off" "off + w \<le> getWidth r"
      | x y where "ExtractExpr_create l 0 (w + off - getWidth r) = Some x"
        "ExtractExpr_create r off (getWidth r - off) = Some y"
        "ConcatExpr_create x y = Some (ExtractExpr e' off' w')"
        "off + w \<le> getWidth e" "0 < w" "w \<noteq> getWidth e" "\<not> getWidth r \<le> off" "\<not> off + w \<le> getWidth r"
      using 1(1,7) ConcatExpr
      by (auto simp: ExtractExpr_create.psimps split: if_splits bind_splits)
    then show ?thesis
    proof cases
      case 2
      from 2 "1.IH"(1) [of "()" l r e' off' w'] ConcatExpr show ?thesis by simp
    next
      case 3
      from 3 "1.IH"(2) [of "()" l r e' off' w'] ConcatExpr show ?thesis by simp
    next
      case (4 x y)
      from 4 "1.IH"(5) [of "()" l r x y e' off' w'] ConcatExpr
      obtain el offl wl where "x = ExtractExpr el offl wl" "size e' \<le> size el" by auto
      with 4 "1.IH"(3) [of "()" l r el offl wl] ConcatExpr show ?thesis by simp
    qed (use ConcatExpr in simp)
  qed (use 1(1,7) in \<open>auto simp: ExtractExpr_create.psimps split: if_splits bind_splits\<close>)
qed (auto simp: ConcatExpr_create.psimps split: if_splits)

termination ExtractExpr_create
  by (relation "measure (\<lambda>s. case s of Inl (e, off, w) \<Rightarrow> 2 * size e
      | Inr (l, r) \<Rightarrow> (case l of ExtractExpr el _ _ \<Rightarrow> 2 * size el + 1 | _ \<Rightarrow> 0))")
    (auto dest: extract_result_size split: expr.split)

declare ExtractExpr_create.simps [simp del]

text \<open>Shortcuts for a list of kids, most significant first.\<close>

fun ConcatExpr_createN :: "expr list \<Rightarrow> expr option" where
  "ConcatExpr_createN [] = None"
| "ConcatExpr_createN [k] = Some k"
| "ConcatExpr_createN (k # ks) = do { r \<leftarrow> ConcatExpr_createN ks; ConcatExpr_create k r }"

definition ConcatExpr_create4 :: "expr \<Rightarrow> expr \<Rightarrow> expr \<Rightarrow> expr \<Rightarrow> expr option" where
  "ConcatExpr_create4 kid1 kid2 kid3 kid4 = do {
     x \<leftarrow> ConcatExpr_create kid3 kid4;
     y \<leftarrow> ConcatExpr_create kid2 x;
     ConcatExpr_create kid1 y
   }"

definition ConcatExpr_create8 ::
  "expr \<Rightarrow> expr \<Rightarrow> expr \<Rightarrow> expr \<Rightarrow> expr \<Rightarrow> expr \<Rightarrow> expr \<Rightarrow> expr \<Rightarrow> expr option" where
  "ConcatExpr_create8 kid1 kid2 kid3 kid4 kid5 kid6 kid7 kid8 = do {
     a \<leftarrow> ConcatExpr_create4 kid5 kid6 kid7 kid8;
     b \<leftarrow> ConcatExpr_create kid4 a;
     c \<leftarrow> ConcatExpr_create kid3 b;
     d \<leftarrow> ConcatExpr_create kid2 c;
     ConcatExpr_create kid1 d
   }"

section \<open>Not, zero and sign extension\<close>

definition NotExpr_create :: "expr \<Rightarrow> expr" where
  "NotExpr_create e =
     (case e of ConstantExpr c \<Rightarrow> ConstantExpr (ConstantExpr_Not c) | _ \<Rightarrow> NotExpr e)"

definition ZExtExpr_create :: "expr \<Rightarrow> width \<Rightarrow> expr option" where
  "ZExtExpr_create e w =
     (let kBits = getWidth e
      in if w = kBits then Some e
         else if w < kBits then ExtractExpr_create e 0 w
         else (case e of ConstantExpr c \<Rightarrow> Some (ConstantExpr (ConstantExpr_ZExt c w))
               | _ \<Rightarrow> Some (ZExtExpr e w)))"

definition SExtExpr_create :: "expr \<Rightarrow> width \<Rightarrow> expr option" where
  "SExtExpr_create e w =
     (let kBits = getWidth e
      in if w = kBits then Some e
         else if w < kBits then ExtractExpr_create e 0 w
         else (case e of ConstantExpr c \<Rightarrow> Some (ConstantExpr (ConstantExpr_SExt c w))
               | _ \<Rightarrow> Some (SExtExpr e w)))"

section \<open>Bit fields of a concatenation\<close>

lemma concat_or:
  assumes "in_width w b"
  shows "push_bit w a + b = push_bit w a OR b"
proof -
  have "push_bit w a AND b = 0"
    by (rule bit_eqI) (metis assms bit_and_iff bit_push_bit_iff bit_take_bit_iff in_width_take_bit
        linorder_not_less bit_0_eq bot_apply bot_boolE)
  then show ?thesis by (metis plus_and_or add_0)
qed

lemma bit_in_width: "in_width w b \<Longrightarrow> w \<le> n \<Longrightarrow> \<not> bit b n"
  by (metis bit_take_bit_iff in_width_take_bit linorder_not_less)

lemma extract_concat_high:
  assumes "in_width w' b" "w' \<le> off"
  shows "take_bit w (drop_bit off (push_bit w' a + b)) = take_bit w (drop_bit (off - w') a)"
  unfolding concat_or [OF assms(1)]
  by (rule bit_eqI) (use assms bit_in_width [OF assms(1)] in
      \<open>auto simp: bit_take_bit_iff bit_drop_bit_eq bit_or_iff bit_push_bit_iff\<close>)

lemma extract_concat_low:
  assumes "in_width w' b" "off + w \<le> w'"
  shows "take_bit w (drop_bit off (push_bit w' a + b)) = take_bit w (drop_bit off b)"
  unfolding concat_or [OF assms(1)]
  by (rule bit_eqI) (use assms in
      \<open>auto simp: bit_take_bit_iff bit_drop_bit_eq bit_or_iff bit_push_bit_iff\<close>)

lemma extract_concat_split:
  assumes "in_width w' b" "off < w'" "w' < off + w"
  shows "take_bit w (drop_bit off (push_bit w' a + b)) =
    push_bit (w' - off) (take_bit (w + off - w') a) + take_bit (w' - off) (drop_bit off b)"
  unfolding concat_or [OF assms(1)] concat_or [OF take_bit_in_width]
  by (rule bit_eqI) (use assms bit_in_width [OF assms(1)] in
      \<open>auto simp: bit_take_bit_iff bit_drop_bit_eq bit_or_iff bit_push_bit_iff add.commute\<close>)

lemma concat_extracts:
  "push_bit wr (take_bit wl (drop_bit (off + wr) x)) + take_bit wr (drop_bit off x) =
     take_bit (wl + wr) (drop_bit off (x :: int))"
  unfolding concat_or [OF take_bit_in_width]
  by (rule bit_eqI)
    (auto simp: bit_take_bit_iff bit_drop_bit_eq bit_or_iff bit_push_bit_iff)

section \<open>Correctness\<close>

lemma ExtractExpr_create_Concat_step:
  assumes wt: "wt l" "wt r" "0 < w" "off + w \<le> getWidth l + getWidth r" "w \<noteq> getWidth l + getWidth r"
    and high: "getWidth r \<le> off \<Longrightarrow> ok (ExtractExpr_create l (off - getWidth r) w)
      (\<lambda>e'. denotes A e' w (\<lambda>\<sigma>. take_bit w (drop_bit (off - getWidth r) (eval \<sigma> l))))"
    and low: "off < getWidth r \<Longrightarrow> off + w \<le> getWidth r \<Longrightarrow> ok (ExtractExpr_create r off w)
      (\<lambda>e'. denotes A e' w (\<lambda>\<sigma>. take_bit w (drop_bit off (eval \<sigma> r))))"
    and split: "off < getWidth r \<Longrightarrow> getWidth r < off + w \<Longrightarrow>
      ok (do { x \<leftarrow> ExtractExpr_create l 0 (w + off - getWidth r);
               y \<leftarrow> ExtractExpr_create r off (getWidth r - off);
               ConcatExpr_create x y })
      (\<lambda>e'. denotes A e' w (\<lambda>\<sigma>. push_bit (getWidth r - off) (take_bit (w + off - getWidth r) (eval \<sigma> l)) +
         take_bit (getWidth r - off) (drop_bit off (eval \<sigma> r))))"
  shows "ok (ExtractExpr_create (ConcatExpr l r) off w)
    (\<lambda>e'. denotes A e' w (\<lambda>\<sigma>. take_bit w (drop_bit off (eval \<sigma> (ConcatExpr l r)))))"
proof -
  have iw: "in_width (getWidth r) (eval \<sigma> r)" if "wf_env \<sigma>" for \<sigma>
    using eval_in_width wt that by blast
  consider "getWidth r \<le> off" | "off < getWidth r" "off + w \<le> getWidth r"
    | "off < getWidth r" "getWidth r < off + w" by linarith
  then show ?thesis
  proof cases
    case 1
    then show ?thesis
      using ok_denotes_cong [OF high [OF 1]] wt iw
      by (simp add: ExtractExpr_create.simps extract_concat_high)
  next
    case 2
    then show ?thesis
      using ok_denotes_cong [OF low [OF 2]] wt iw
      by (simp add: ExtractExpr_create.simps extract_concat_low)
  next
    case 3
    then show ?thesis
      using ok_denotes_cong [OF split [OF 3]] wt iw
      by (simp add: ExtractExpr_create.simps extract_concat_split)
  qed
qed

lemma Extract_const:
  "wf_ap c \<Longrightarrow> off + n \<le> bitWidth c \<Longrightarrow> 0 < n \<Longrightarrow>
     ConstantExpr_Extract c off n = ap_mk n (drop_bit off (apval c))"
  by (cases c) (simp add: apval_Extract)

lemma Concat_const:
  "wf_ap c \<Longrightarrow> wf_ap d \<Longrightarrow>
     ConstantExpr_Concat c d = APInt (bitWidth c + bitWidth d) (push_bit (bitWidth d) (apval c) + apval d)"
  by (cases c, cases d) (simp add: apval_Concat)

lemma extract_whole:
  assumes "wt e" "w = getWidth e" "off = 0"
  shows "denotes A e w (\<lambda>\<sigma>. take_bit w (drop_bit off (eval \<sigma> e)))"
  using assms eval_in_width(1) [of e] by (simp add: denotes_def in_width_take_bit)

lemma extract_concat_wt_ok:
  "wt e \<Longrightarrow> 0 < w \<Longrightarrow> off + w \<le> getWidth e \<Longrightarrow>
     ok (ExtractExpr_create e off w) (\<lambda>e'. denotes A e' w (\<lambda>\<sigma>. take_bit w (drop_bit off (eval \<sigma> e))))"
  "wt l \<Longrightarrow> wt r \<Longrightarrow>
     ok (ConcatExpr_create l r)
       (\<lambda>e. denotes A e (getWidth l + getWidth r) (\<lambda>\<sigma>. push_bit (getWidth r) (eval \<sigma> l) + eval \<sigma> r))"
proof (induction e off w and l r rule: ExtractExpr_create_ConcatExpr_create.induct)
  case (1 e off w)
  show ?case
  proof (cases "w = getWidth e")
    case True
    then show ?thesis
      using "1.prems" extract_whole [of e w off A] by (simp add: ExtractExpr_create.simps)
  next
    case w: False
    show ?thesis
    proof (cases "\<exists>l r. e = ConcatExpr l r")
      case True
      then obtain l r where e: "e = ConcatExpr l r" by blast
      show ?thesis
        unfolding e
      proof (rule ExtractExpr_create_Concat_step, goal_cases)
        case 6
        then show ?case using "1.IH"(1) [of "()" l r] "1.prems" w e by simp
      next
        case 7
        then show ?case using "1.IH"(2) [of "()" l r] "1.prems" w e by simp
      next
        case 8
        have "ok (ExtractExpr_create l 0 (w + off - getWidth r)) (\<lambda>e'. denotes A e' (w + off - getWidth r)
            (\<lambda>\<sigma>. take_bit (w + off - getWidth r) (drop_bit 0 (eval \<sigma> l))))"
          using 8 "1.IH"(3) [of "()" l r] "1.prems" w e by simp
        then obtain x where x: "ExtractExpr_create l 0 (w + off - getWidth r) = Some x"
          "denotes A x (w + off - getWidth r) (\<lambda>\<sigma>. take_bit (w + off - getWidth r) (drop_bit 0 (eval \<sigma> l)))"
          by (rule okE)
        have "ok (ExtractExpr_create r off (getWidth r - off)) (\<lambda>e'. denotes A e' (getWidth r - off)
            (\<lambda>\<sigma>. take_bit (getWidth r - off) (drop_bit off (eval \<sigma> r))))"
          using 8 "1.IH"(4) [of "()" l r x] "1.prems" w e x by simp
        then obtain y where y: "ExtractExpr_create r off (getWidth r - off) = Some y"
          "denotes A y (getWidth r - off) (\<lambda>\<sigma>. take_bit (getWidth r - off) (drop_bit off (eval \<sigma> r)))"
          by (rule okE)
        show ?case
          using 8 ok_denotes_cong [OF "1.IH"(5) [of "()" l r x y]] "1.prems" w e x y
          by (simp add: denotes_def)
      qed (use "1.prems" w e in auto)
    next
      case False
      then show ?thesis
        using w "1.prems"
        by (cases e) (auto simp: ExtractExpr_create.simps denotes_def Extract_const)
    qed
  qed
next
  case (2 cl cr)
  then show ?case by (auto simp: Concat_const wf_ap_def in_width_concat)
next
  case (3 el offl wl er offr wr)
  then show ?case
  proof (cases "el = er \<and> offr + wr = offl")
    case True
    with 3 have "ok (ExtractExpr_create el offr (wl + wr))
        (\<lambda>e'. denotes A e' (wl + wr) (\<lambda>\<sigma>. take_bit (wl + wr) (drop_bit offr (eval \<sigma> el))))"
      by simp
    with True show ?thesis by (auto simp: concat_extracts)
  qed (auto simp: denotes_def)
qed (auto simp: denotes_def)

lemma ExtractExpr_create_ok [denotes_rules]:
  assumes "denotes A e kw f" "0 < w" "off + w \<le> kw"
  shows "ok (ExtractExpr_create e off w) (\<lambda>e'. denotes A e' w (\<lambda>\<sigma>. take_bit w (drop_bit off (f \<sigma>))))"
  using ok_denotes_cong [OF extract_concat_wt_ok(1) [of e w off A]] assms by (simp add: denotes_def)

lemma ConcatExpr_create_ok [denotes_rules]:
  assumes "denotes A l w f" "denotes A r w' g"
  shows "ok (ConcatExpr_create l r) (\<lambda>e. denotes A e (w + w') (\<lambda>\<sigma>. push_bit w' (f \<sigma>) + g \<sigma>))"
  using ok_denotes_cong [OF extract_concat_wt_ok(2) [of l r A]] assms by (simp add: denotes_def)

text \<open>A list of kids denotes the number whose digits they are, most significant first.\<close>

fun concat_val :: "(width \<times> int) list \<Rightarrow> int" where
  "concat_val [] = 0"
| "concat_val ((w, v) # ds) = push_bit (sum_list (map fst ds)) v + concat_val ds"

lemma ConcatExpr_createN_ok:
  assumes "ks \<noteq> []" "\<And>k. k \<in> set ks \<Longrightarrow> wt k"
  shows "ok (ConcatExpr_createN ks) (\<lambda>e. denotes A e (sum_list (map getWidth ks))
      (\<lambda>\<sigma>. concat_val (map (\<lambda>k. (getWidth k, eval \<sigma> k)) ks)))"
  using assms
proof (induction ks rule: ConcatExpr_createN.induct)
  case (3 k k' ks)
  have "ok (ConcatExpr_createN (k' # ks)) (\<lambda>e. denotes A e (sum_list (map getWidth (k' # ks)))
      (\<lambda>\<sigma>. concat_val (map (\<lambda>k. (getWidth k, eval \<sigma> k)) (k' # ks))))"
    using 3 by simp
  from ok_bind [OF this ConcatExpr_create_ok [OF denotes_self]] 3(3) show ?case
    by (auto simp: comp_def elim!: ok_denotes_cong)
qed (auto simp: denotes_self)

lemma ConcatExpr_create4_createN: "ConcatExpr_create4 a b c d = ConcatExpr_createN [a, b, c, d]"
  by (simp add: ConcatExpr_create4_def)

lemma ConcatExpr_create8_createN:
  "ConcatExpr_create8 a b c d e f g h = ConcatExpr_createN [a, b, c, d, e, f, g, h]"
  by (simp add: ConcatExpr_create8_def ConcatExpr_create4_def)

lemma NotExpr_create_ok [denotes_rules]:
  "denotes A e w f \<Longrightarrow> denotes A (NotExpr_create e) w (\<lambda>\<sigma>. take_bit w (NOT (f \<sigma>)))"
  by (cases e) (auto simp: NotExpr_create_def denotes_def ConstantExpr_Not_def wf_apD)

lemma ZExtExpr_create_ok [denotes_rules]:
  assumes "denotes A e kw f" "0 < w"
  shows "ok (ZExtExpr_create e w) (\<lambda>e. denotes A e w (\<lambda>\<sigma>. take_bit w (f \<sigma>)))"
proof (cases "w < kw")
  case True
  then show ?thesis
    using ExtractExpr_create_ok [OF assms, of 0] denotesD(2) [OF assms(1)] by (simp add: ZExtExpr_create_def)
next
  case False
  have e: "wt e" "getWidth e = kw" "\<And>\<sigma>. wf_env \<sigma> \<Longrightarrow> A \<sigma> \<Longrightarrow> f \<sigma> = eval \<sigma> e"
    using assms(1) by (auto simp: denotes_def)
  have "take_bit kw (eval \<sigma> e) = eval \<sigma> e" if "wf_env \<sigma>" for \<sigma>
    using eval_in_width(1) [OF e(1) that] e(2) by (simp add: in_width_take_bit)
  with e False assms(2) show ?thesis
    by (cases e) (auto simp: ZExtExpr_create_def denotes_def ConstantExpr_ZExt_def ap_zextOrTrunc_def)
qed

text \<open>Sign extension to a smaller width is truncation.\<close>

lemma take_bit_sval_le: "w \<le> kw \<Longrightarrow> 0 < w \<Longrightarrow> take_bit w (sval kw v) = take_bit w v"
  by (simp add: sval_def take_bit_signed_take_bit)

lemma SExtExpr_create_ok [denotes_rules]:
  assumes "denotes A e kw f" "0 < w"
  shows "ok (SExtExpr_create e w) (\<lambda>e. denotes A e w (\<lambda>\<sigma>. take_bit w (sval kw (f \<sigma>))))"
proof (cases "w < kw")
  case True
  then show ?thesis
    using ok_denotes_cong [OF ExtractExpr_create_ok [OF assms, of 0]] denotesD(2) [OF assms(1)] assms(2)
    by (simp add: SExtExpr_create_def take_bit_sval_le)
next
  case False
  have e: "wt e" "getWidth e = kw" "\<And>\<sigma>. wf_env \<sigma> \<Longrightarrow> A \<sigma> \<Longrightarrow> f \<sigma> = eval \<sigma> e"
    using assms(1) by (auto simp: denotes_def)
  have "take_bit kw (sval kw (eval \<sigma> e)) = eval \<sigma> e" if "wf_env \<sigma>" for \<sigma>
    using eval_in_width(1) [OF e(1) that] e(2) wt_width_pos [OF e(1)]
    by (simp add: in_width_take_bit take_bit_sval_le)
  with e False assms(2) show ?thesis
    by (cases e) (auto simp: SExtExpr_create_def denotes_def ConstantExpr_SExt_def ap_sextOrTrunc_def)
qed

end
