(* ===== verification/Expr_Build.thy ===== *)
theory Expr_Build
  imports Expr_Arith Expr_Concat
begin

unbundle bit_operations_syntax

text \<open>
  The remaining constructors of \<^verbatim>\<open>lib/Expr/Expr.cpp\<close>: division, shifts, comparisons, selection,
  array reads, and the two entry points that dispatch to all of them, \<^verbatim>\<open>Expr::createTempRead\<close>
  and \<^verbatim>\<open>Expr::createFromKind\<close>.
\<close>

section \<open>Division, remainder and shifts\<close>

definition UDivExpr_create_nc :: "expr \<Rightarrow> expr \<Rightarrow> expr" where
  "UDivExpr_create_nc l r = (if getWidth l = 1 then l else BinaryExpr UDiv l r)"

definition SDivExpr_create_nc :: "expr \<Rightarrow> expr \<Rightarrow> expr" where
  "SDivExpr_create_nc l r = (if getWidth l = 1 then l else BinaryExpr SDiv l r)"

definition URemExpr_create_nc :: "expr \<Rightarrow> expr \<Rightarrow> expr" where
  "URemExpr_create_nc l r =
     (if getWidth l = 1 then ConstantExpr (ap_bool False) else BinaryExpr URem l r)"

definition SRemExpr_create_nc :: "expr \<Rightarrow> expr \<Rightarrow> expr" where
  "SRemExpr_create_nc l r =
     (if getWidth l = 1 then ConstantExpr (ap_bool False) else BinaryExpr SRem l r)"

definition ShlExpr_create_nc :: "bool \<Rightarrow> expr \<Rightarrow> expr \<Rightarrow> expr option" where
  "ShlExpr_create_nc cao l r =
     (if getWidth l = 1 then do { z \<leftarrow> createIsZero cao r; AndExpr_create l z }
      else Some (BinaryExpr Shl l r))"

definition LShrExpr_create_nc :: "bool \<Rightarrow> expr \<Rightarrow> expr \<Rightarrow> expr option" where
  "LShrExpr_create_nc cao l r =
     (if getWidth l = 1 then do { z \<leftarrow> createIsZero cao r; AndExpr_create l z }
      else Some (BinaryExpr LShr l r))"

definition AShrExpr_create_nc :: "expr \<Rightarrow> expr \<Rightarrow> expr" where
  "AShrExpr_create_nc l r = (if getWidth l = 1 then l else BinaryExpr AShr l r)"

definition UDivExpr_create :: "expr \<Rightarrow> expr \<Rightarrow> expr option" where
  "UDivExpr_create = BCREATE ConstantExpr_UDiv (\<lambda>l r. Some (UDivExpr_create_nc l r))"

definition SDivExpr_create :: "expr \<Rightarrow> expr \<Rightarrow> expr option" where
  "SDivExpr_create = BCREATE ConstantExpr_SDiv (\<lambda>l r. Some (SDivExpr_create_nc l r))"

definition URemExpr_create :: "expr \<Rightarrow> expr \<Rightarrow> expr option" where
  "URemExpr_create = BCREATE ConstantExpr_URem (\<lambda>l r. Some (URemExpr_create_nc l r))"

definition SRemExpr_create :: "expr \<Rightarrow> expr \<Rightarrow> expr option" where
  "SRemExpr_create = BCREATE ConstantExpr_SRem (\<lambda>l r. Some (SRemExpr_create_nc l r))"

definition ShlExpr_create :: "bool \<Rightarrow> expr \<Rightarrow> expr \<Rightarrow> expr option" where
  "ShlExpr_create cao = BCREATE (\<lambda>a b. Some (ConstantExpr_Shl a b)) (ShlExpr_create_nc cao)"

definition LShrExpr_create :: "bool \<Rightarrow> expr \<Rightarrow> expr \<Rightarrow> expr option" where
  "LShrExpr_create cao = BCREATE (\<lambda>a b. Some (ConstantExpr_LShr a b)) (LShrExpr_create_nc cao)"

definition AShrExpr_create :: "expr \<Rightarrow> expr \<Rightarrow> expr option" where
  "AShrExpr_create = BCREATE (\<lambda>a b. Some (ConstantExpr_AShr a b)) (\<lambda>l r. Some (AShrExpr_create_nc l r))"

section \<open>Comparisons\<close>

definition UltExpr_create_nc :: "bool \<Rightarrow> expr \<Rightarrow> expr \<Rightarrow> expr option" where
  "UltExpr_create_nc cao l r =
     (if getWidth l = 1 then do { z \<leftarrow> createIsZero cao l; AndExpr_create z r }
      else Some (CmpExpr Ult l r))"

definition UleExpr_create_nc :: "bool \<Rightarrow> expr \<Rightarrow> expr \<Rightarrow> expr option" where
  "UleExpr_create_nc cao l r =
     (if getWidth l = 1 then do { z \<leftarrow> createIsZero cao l; OrExpr_create z r }
      else Some (CmpExpr Ule l r))"

definition SltExpr_create_nc :: "bool \<Rightarrow> expr \<Rightarrow> expr \<Rightarrow> expr option" where
  "SltExpr_create_nc cao l r =
     (if getWidth l = 1 then do { z \<leftarrow> createIsZero cao r; AndExpr_create l z }
      else Some (CmpExpr Slt l r))"

definition SleExpr_create_nc :: "bool \<Rightarrow> expr \<Rightarrow> expr \<Rightarrow> expr option" where
  "SleExpr_create_nc cao l r =
     (if getWidth l = 1 then do { z \<leftarrow> createIsZero cao r; OrExpr_create l z }
      else Some (CmpExpr Sle l r))"

text \<open>\<^verbatim>\<open>CMPCREATE\<close> has the same body as \<^verbatim>\<open>BCREATE\<close>.\<close>

definition UltExpr_create :: "bool \<Rightarrow> expr \<Rightarrow> expr \<Rightarrow> expr option" where
  "UltExpr_create cao = BCREATE (\<lambda>a b. Some (ConstantExpr_Ult a b)) (UltExpr_create_nc cao)"

definition UleExpr_create :: "bool \<Rightarrow> expr \<Rightarrow> expr \<Rightarrow> expr option" where
  "UleExpr_create cao = BCREATE (\<lambda>a b. Some (ConstantExpr_Ule a b)) (UleExpr_create_nc cao)"

definition SltExpr_create :: "bool \<Rightarrow> expr \<Rightarrow> expr \<Rightarrow> expr option" where
  "SltExpr_create cao = BCREATE (\<lambda>a b. Some (ConstantExpr_Slt a b)) (SltExpr_create_nc cao)"

definition SleExpr_create :: "bool \<Rightarrow> expr \<Rightarrow> expr \<Rightarrow> expr option" where
  "SleExpr_create cao = BCREATE (\<lambda>a b. Some (ConstantExpr_Sle a b)) (SleExpr_create_nc cao)"

definition UgtExpr_create :: "bool \<Rightarrow> expr \<Rightarrow> expr \<Rightarrow> expr option" where
  "UgtExpr_create cao l r = UltExpr_create cao r l"

definition UgeExpr_create :: "bool \<Rightarrow> expr \<Rightarrow> expr \<Rightarrow> expr option" where
  "UgeExpr_create cao l r = UleExpr_create cao r l"

definition SgtExpr_create :: "bool \<Rightarrow> expr \<Rightarrow> expr \<Rightarrow> expr option" where
  "SgtExpr_create cao l r = SltExpr_create cao r l"

definition SgeExpr_create :: "bool \<Rightarrow> expr \<Rightarrow> expr \<Rightarrow> expr option" where
  "SgeExpr_create cao l r = SleExpr_create cao r l"

section \<open>Selection and reads\<close>

definition SelectExpr_create :: "bool \<Rightarrow> expr \<Rightarrow> expr \<Rightarrow> expr \<Rightarrow> expr option" where
  "SelectExpr_create cao c t f = do {
     assert_that (getWidth c = 1);
     assert_that (getWidth t = getWidth f);
     (case as_const c of
        Some ce \<Rightarrow> Some (if ConstantExpr_isTrue ce then t else f)
      | None \<Rightarrow>
        (if t = f then Some t
         else if getWidth t = 1 then
           (case as_const t of
              Some ce \<Rightarrow>
                (if ConstantExpr_isTrue ce then OrExpr_create c f
                 else do { z \<leftarrow> createIsZero cao c; AndExpr_create z f })
            | None \<Rightarrow>
              (case as_const f of
                 Some ce \<Rightarrow>
                   (if ConstantExpr_isTrue ce
                    then do { z \<leftarrow> createIsZero cao c; OrExpr_create z t }
                    else AndExpr_create c t)
               | None \<Rightarrow> Some (SelectExpr c t f)))
         else Some (SelectExpr c t f)))
   }"

text \<open>
  The walk over the update list in \<^verbatim>\<open>ReadExpr::create\<close> ends with the value of a matching
  update, or at the node \<open>un\<close> from which on nothing is known; the flag is
  \<^verbatim>\<open>updateListHasSymbolicWrites\<close>.
\<close>

datatype rollback = Found expr | Stopped unode bool

fun ReadExpr_rollback :: "bool \<Rightarrow> expr \<Rightarrow> unode \<Rightarrow> rollback option" where
  "ReadExpr_rollback cao index NullNode = Some (Stopped NullNode False)"
| "ReadExpr_rollback cao index (UpdateNode nx idx v) = do {
     cond \<leftarrow> EqExpr_create cao index idx;
     (case as_const cond of
        Some ce \<Rightarrow>
          (if ConstantExpr_isTrue ce then Some (Found v) else ReadExpr_rollback cao index nx)
      | None \<Rightarrow> Some (Stopped (UpdateNode nx idx v) True))
   }"

definition ReadExpr_create :: "bool \<Rightarrow> ulist \<Rightarrow> expr \<Rightarrow> expr option" where
  "ReadExpr_create cao ul index = do {
     rb \<leftarrow> ReadExpr_rollback cao index (snd ul);
     (case rb of
        Found v \<Rightarrow> Some v
      | Stopped un updateListHasSymbolicWrites \<Rightarrow>
          (case as_const index of
             Some ce \<Rightarrow> do {
               assert_that (bitWidth ce \<le> 64);
               (let concreteIndex = nat (apval ce)
                in if concreteIndex < arr_size (fst ul)
                   then if isConstantArray (fst ul) \<and> \<not> updateListHasSymbolicWrites
                        then Some (ConstantExpr (constantValues (fst ul) ! concreteIndex))
                        else Some (ReadExpr (fst ul) un index)
                   else Some (ReadExpr (fst ul) (snd ul) index))
             }
           | None \<Rightarrow> Some (ReadExpr (fst ul) (snd ul) index)))
   }"

text \<open>\<open>read_at cao a i\<close> is \<^verbatim>\<open>ReadExpr::create(ul, ConstantExpr::alloc(i, Expr::Int32))\<close>.\<close>

definition read_at :: "bool \<Rightarrow> array \<Rightarrow> int \<Rightarrow> expr option" where
  "read_at cao a i = ReadExpr_create cao (a, NullNode) (ConstantExpr (ap_mk 32 i))"

definition createTempRead :: "bool \<Rightarrow> array \<Rightarrow> width \<Rightarrow> expr option" where
  "createTempRead cao a w =
     (if w = 1 then do { e \<leftarrow> read_at cao a 0; ZExtExpr_create e 1 }
      else if w = 8 then read_at cao a 0
      else if w = 16 then do { e1 \<leftarrow> read_at cao a 1; e0 \<leftarrow> read_at cao a 0; ConcatExpr_create e1 e0 }
      else if w = 32 then do {
        e3 \<leftarrow> read_at cao a 3; e2 \<leftarrow> read_at cao a 2; e1 \<leftarrow> read_at cao a 1; e0 \<leftarrow> read_at cao a 0;
        ConcatExpr_create4 e3 e2 e1 e0
      }
      else if w = 64 then do {
        e7 \<leftarrow> read_at cao a 7; e6 \<leftarrow> read_at cao a 6; e5 \<leftarrow> read_at cao a 5; e4 \<leftarrow> read_at cao a 4;
        e3 \<leftarrow> read_at cao a 3; e2 \<leftarrow> read_at cao a 2; e1 \<leftarrow> read_at cao a 1; e0 \<leftarrow> read_at cao a 0;
        ConcatExpr_create8 e7 e6 e5 e4 e3 e2 e1 e0
      }
      else None)"

section \<open>Construction by kind\<close>

definition bop_create :: "bool \<Rightarrow> bop \<Rightarrow> expr \<Rightarrow> expr \<Rightarrow> expr option" where
  "bop_create cao k l r =
     (case k of
        Add \<Rightarrow> AddExpr_create cao l r | Sub \<Rightarrow> SubExpr_create cao l r | Mul \<Rightarrow> MulExpr_create l r
      | UDiv \<Rightarrow> UDivExpr_create l r | SDiv \<Rightarrow> SDivExpr_create l r
      | URem \<Rightarrow> URemExpr_create l r | SRem \<Rightarrow> SRemExpr_create l r
      | And \<Rightarrow> AndExpr_create l r | Or \<Rightarrow> OrExpr_create l r | Xor \<Rightarrow> XorExpr_create cao l r
      | Shl \<Rightarrow> ShlExpr_create cao l r | LShr \<Rightarrow> LShrExpr_create cao l r | AShr \<Rightarrow> AShrExpr_create l r)"

definition cop_create :: "bool \<Rightarrow> cop \<Rightarrow> expr \<Rightarrow> expr \<Rightarrow> expr option" where
  "cop_create cao k l r =
     (case k of
        Eq \<Rightarrow> EqExpr_create cao l r | Ne \<Rightarrow> NeExpr_create cao l r
      | Ult \<Rightarrow> UltExpr_create cao l r | Ule \<Rightarrow> UleExpr_create cao l r
      | Ugt \<Rightarrow> UgtExpr_create cao l r | Uge \<Rightarrow> UgeExpr_create cao l r
      | Slt \<Rightarrow> SltExpr_create cao l r | Sle \<Rightarrow> SleExpr_create cao l r
      | Sgt \<Rightarrow> SgtExpr_create cao l r | Sge \<Rightarrow> SgeExpr_create cao l r)"

datatype CreateArg = ArgExpr expr | ArgWidth width

datatype kind = KConstant | KNotOptimized | KRead | KSelect | KConcat | KExtract
  | KZExt | KSExt | KNot | KBin bop | KCmp cop

text \<open>\<^verbatim>\<open>Not\<close> has no case in the switch, so it falls into the failing default.\<close>

fun createFromKind :: "bool \<Rightarrow> kind \<Rightarrow> CreateArg list \<Rightarrow> expr option" where
  "createFromKind cao KNotOptimized [ArgExpr e] = Some (NotOptimizedExpr e)"
| "createFromKind cao KSelect [ArgExpr c, ArgExpr t, ArgExpr f] = SelectExpr_create cao c t f"
| "createFromKind cao KConcat [ArgExpr l, ArgExpr r] = ConcatExpr_create l r"
| "createFromKind cao KZExt [ArgExpr e, ArgWidth w] = ZExtExpr_create e w"
| "createFromKind cao KSExt [ArgExpr e, ArgWidth w] = SExtExpr_create e w"
| "createFromKind cao (KBin k) [ArgExpr l, ArgExpr r] = bop_create cao k l r"
| "createFromKind cao (KCmp k) [ArgExpr l, ArgExpr r] = cop_create cao k l r"
| "createFromKind cao _ _ = None"

section \<open>Correctness of division and shifts\<close>

definition satisfiable :: "(env \<Rightarrow> bool) \<Rightarrow> bool" where
  "satisfiable A \<longleftrightarrow> (\<exists>\<sigma>. wf_env \<sigma> \<and> A \<sigma>)"

text \<open>A divisor that is nonzero in every environment of the path condition.\<close>

definition nonzero :: "(env \<Rightarrow> bool) \<Rightarrow> (env \<Rightarrow> int) \<Rightarrow> bool" where
  "nonzero A g \<longleftrightarrow> satisfiable A \<and> (\<forall>\<sigma>. wf_env \<sigma> \<longrightarrow> A \<sigma> \<longrightarrow> g \<sigma> \<noteq> 0)"

lemma nonzero_const: "denotes A (ConstantExpr c) w g \<Longrightarrow> nonzero A g \<Longrightarrow> apval c \<noteq> 0"
  by (auto simp: nonzero_def satisfiable_def)

lemma nonzero_bool: "denotes A r 1 g \<Longrightarrow> nonzero A g \<Longrightarrow> wf_env \<sigma> \<Longrightarrow> A \<sigma> \<Longrightarrow> g \<sigma> = 1"
  using denotes_bool_cases [of A r g \<sigma>] by (auto simp: nonzero_def)

lemma sval_bool [simp]: "sval (Suc 0) 0 = 0" "sval (Suc 0) 1 = -1"
  by (simp_all add: sval_def)

lemma bool_bop_sem:
  assumes "a = 0 \<or> a = 1" "b = 0 \<or> b = 1"
  shows "bop_sem UDiv 1 a b = a" "bop_sem SDiv 1 a b = a" "bop_sem URem 1 a b = 0" "bop_sem SRem 1 a b = 0"
    and "bop_sem AShr 1 a b = a" "bop_sem Shl 1 a b = of_bool (a = 1 \<and> b = 0)"
    "bop_sem LShr 1 a b = of_bool (a = 1 \<and> b = 0)"
  using assms by (auto simp: divisor_def signed_modulo_int_def signed_divide_int_def)

text \<open>
  The file-local helpers treat one-bit operands apart and allocate the node otherwise.
\<close>

lemma bool_or_bin:
  assumes "denotes A l w f" "denotes A r w g"
    and "w = 1 \<Longrightarrow> denotes A e 1 (\<lambda>\<sigma>. bop_sem k 1 (f \<sigma>) (g \<sigma>))"
  shows "denotes A (if getWidth l = 1 then e else BinaryExpr k l r) w (\<lambda>\<sigma>. bop_sem k w (f \<sigma>) (g \<sigma>))"
  using assms(3) denotes_Bin [OF assms(1,2), of k] denotesD(2) [OF assms(1)] by auto

lemma bool_or_bin_ok:
  assumes "denotes A l w f" "denotes A r w g"
    and "w = 1 \<Longrightarrow> ok e (\<lambda>e. denotes A e 1 (\<lambda>\<sigma>. bop_sem k 1 (f \<sigma>) (g \<sigma>)))"
  shows "ok (if getWidth l = 1 then e else Some (BinaryExpr k l r))
     (\<lambda>e. denotes A e w (\<lambda>\<sigma>. bop_sem k w (f \<sigma>) (g \<sigma>)))"
  using assms(3) denotes_Bin [OF assms(1,2), of k] denotesD(2) [OF assms(1)] by auto

lemma bool_or_cmp_ok:
  assumes "denotes A l w f" "denotes A r w g"
    and "w = 1 \<Longrightarrow> ok e (\<lambda>e. denotes A e 1 (\<lambda>\<sigma>. of_bool (cop_sem k 1 (f \<sigma>) (g \<sigma>))))"
  shows "ok (if getWidth l = 1 then e else Some (CmpExpr k l r))
     (\<lambda>e. denotes A e 1 (\<lambda>\<sigma>. of_bool (cop_sem k w (f \<sigma>) (g \<sigma>))))"
  using assms(3) denotes_Cmp [OF assms(1,2), of k] denotesD(2) [OF assms(1)] by auto

text \<open>Folding two constants agrees with the meaning of the operator.\<close>

lemma fold_bop_ok:
  assumes "denotes A l w f" "denotes A r w g" "l = ConstantExpr cl" "r = ConstantExpr cr"
    and "ok res (\<lambda>c. c = ap_mk w (bop_sem k w (apval cl) (apval cr)))"
  shows "ok res (\<lambda>c. denotes A (ConstantExpr c) w (\<lambda>\<sigma>. bop_sem k w (f \<sigma>) (g \<sigma>)))"
  using assms(5) assms(1-4) in_width_bop_sem [of w "apval cl" "apval cr" k]
  by (auto elim!: ok_mono simp: wf_ap_def)

lemma fold_cop_ok:
  assumes "denotes A l w f" "denotes A r w g" "l = ConstantExpr cl" "r = ConstantExpr cr"
    and "ok res (\<lambda>c. c = ap_bool (cop_sem k w (apval cl) (apval cr)))"
  shows "ok res (\<lambda>c. denotes A (ConstantExpr c) 1 (\<lambda>\<sigma>. of_bool (cop_sem k w (f \<sigma>) (g \<sigma>))))"
  using assms(5) assms(1-4) by (auto elim!: ok_mono)

lemma bool_div_sem:
  assumes "denotes A l 1 f" "denotes A r 1 g" "wf_env \<sigma>" "A \<sigma>"
  shows "f \<sigma> = bop_sem UDiv 1 (f \<sigma>) (g \<sigma>)" "f \<sigma> = bop_sem SDiv 1 (f \<sigma>) (g \<sigma>)"
    and "0 = bop_sem URem 1 (f \<sigma>) (g \<sigma>)" "0 = bop_sem SRem 1 (f \<sigma>) (g \<sigma>)"
proof -
  have "f \<sigma> = 0 \<or> f \<sigma> = 1" "g \<sigma> = 0 \<or> g \<sigma> = 1" using denotes_bool_cases assms by blast+
  from bool_bop_sem(1-4) [OF this]
  show "f \<sigma> = bop_sem UDiv 1 (f \<sigma>) (g \<sigma>)" "f \<sigma> = bop_sem SDiv 1 (f \<sigma>) (g \<sigma>)"
    and "0 = bop_sem URem 1 (f \<sigma>) (g \<sigma>)" "0 = bop_sem SRem 1 (f \<sigma>) (g \<sigma>)" by simp_all
qed

lemma const_divisor:
  "wf_ap c \<Longrightarrow> bitWidth c = w \<Longrightarrow> apval c \<noteq> 0 \<Longrightarrow> divisor w (apval c) = apval c"
  using divisor_nonzero by (auto simp: wf_ap_def)

text \<open>Two constants are only folded when the divisor is not zero.\<close>

definition div_folds :: "expr \<Rightarrow> expr \<Rightarrow> bool" where
  "div_folds l r \<longleftrightarrow> (\<forall>cl cr. l = ConstantExpr cl \<longrightarrow> r = ConstantExpr cr \<longrightarrow> apval cr \<noteq> 0)"

lemma nonzero_div_folds: "denotes A r w g \<Longrightarrow> nonzero A g \<Longrightarrow> div_folds l r"
  unfolding div_folds_def using nonzero_const by blast

lemma UDivExpr_create_ok [denotes_rules]:
  assumes "denotes A l w f" "denotes A r w g" "div_folds l r"
  shows "ok (UDivExpr_create l r) (\<lambda>e. denotes A e w (\<lambda>\<sigma>. bop_sem UDiv w (f \<sigma>) (g \<sigma>)))"
  unfolding UDivExpr_create_def
proof (rule BCREATE_ok [OF assms(1,2)])
  show "ok (Some (UDivExpr_create_nc l r)) (\<lambda>e. denotes A e w (\<lambda>\<sigma>. bop_sem UDiv w (f \<sigma>) (g \<sigma>)))"
    unfolding UDivExpr_create_nc_def ok_Some
    by (rule bool_or_bin [OF assms(1,2)])
      (use assms bool_div_sem(1) in \<open>auto intro: denotes_cong\<close>)
qed (rule fold_bop_ok [OF assms(1,2)],
    use assms in \<open>auto simp: div_folds_def const_divisor ap_mk_def ConstantExpr_UDiv_def\<close>)

lemma SDivExpr_create_ok [denotes_rules]:
  assumes "denotes A l w f" "denotes A r w g" "div_folds l r"
  shows "ok (SDivExpr_create l r) (\<lambda>e. denotes A e w (\<lambda>\<sigma>. bop_sem SDiv w (f \<sigma>) (g \<sigma>)))"
  unfolding SDivExpr_create_def
proof (rule BCREATE_ok [OF assms(1,2)])
  show "ok (Some (SDivExpr_create_nc l r)) (\<lambda>e. denotes A e w (\<lambda>\<sigma>. bop_sem SDiv w (f \<sigma>) (g \<sigma>)))"
    unfolding SDivExpr_create_nc_def ok_Some
    by (rule bool_or_bin [OF assms(1,2)])
      (use assms bool_div_sem(2) in \<open>auto intro: denotes_cong\<close>)
qed (rule fold_bop_ok [OF assms(1,2)],
    use assms in \<open>auto simp: div_folds_def const_divisor ap_mk_def ConstantExpr_SDiv_def\<close>)

lemma URemExpr_create_ok [denotes_rules]:
  assumes "denotes A l w f" "denotes A r w g" "div_folds l r"
  shows "ok (URemExpr_create l r) (\<lambda>e. denotes A e w (\<lambda>\<sigma>. bop_sem URem w (f \<sigma>) (g \<sigma>)))"
  unfolding URemExpr_create_def
proof (rule BCREATE_ok [OF assms(1,2)])
  show "ok (Some (URemExpr_create_nc l r)) (\<lambda>e. denotes A e w (\<lambda>\<sigma>. bop_sem URem w (f \<sigma>) (g \<sigma>)))"
    unfolding URemExpr_create_nc_def ok_Some
    by (rule bool_or_bin [OF assms(1,2)]) (use assms bool_div_sem(3) in force)
qed (rule fold_bop_ok [OF assms(1,2)],
    use assms in \<open>auto simp: div_folds_def const_divisor ap_mk_def ConstantExpr_URem_def\<close>)

lemma SRemExpr_create_ok [denotes_rules]:
  assumes "denotes A l w f" "denotes A r w g" "div_folds l r"
  shows "ok (SRemExpr_create l r) (\<lambda>e. denotes A e w (\<lambda>\<sigma>. bop_sem SRem w (f \<sigma>) (g \<sigma>)))"
  unfolding SRemExpr_create_def
proof (rule BCREATE_ok [OF assms(1,2)])
  show "ok (Some (SRemExpr_create_nc l r)) (\<lambda>e. denotes A e w (\<lambda>\<sigma>. bop_sem SRem w (f \<sigma>) (g \<sigma>)))"
    unfolding SRemExpr_create_nc_def ok_Some
    by (rule bool_or_bin [OF assms(1,2)]) (use assms bool_div_sem(4) in force)
qed (rule fold_bop_ok [OF assms(1,2)],
    use assms in \<open>auto simp: div_folds_def const_divisor ap_mk_def ConstantExpr_SRem_def\<close>)

text \<open>One-bit operands: a shift or comparison is a Boolean combination.\<close>

lemma and_isZero_ok:
  assumes "denotes A l 1 f" "denotes A r 1 g"
    and "\<And>\<sigma>. wf_env \<sigma> \<Longrightarrow> A \<sigma> \<Longrightarrow> h \<sigma> = of_bool (f \<sigma> = 1 \<and> g \<sigma> = 0)"
  shows "ok (do { z \<leftarrow> createIsZero False r; AndExpr_create l z }) (\<lambda>e. denotes A e 1 h)"
proof (rule ok_bind [OF createIsZero_ok [OF assms(2)]])
  fix z assume z: "denotes A z 1 (\<lambda>\<sigma>. of_bool (g \<sigma> = 0))"
  show "ok (AndExpr_create l z) (\<lambda>e. denotes A e 1 h)"
    by (rule ok_denotes_cong [OF AndExpr_create_ok [OF assms(1) z]])
      (use denotes_bool_cases [OF assms(1)] assms(3) in force)
qed simp

lemma isZero_and_ok:
  assumes "denotes A l 1 f" "denotes A r 1 g"
    and "\<And>\<sigma>. wf_env \<sigma> \<Longrightarrow> A \<sigma> \<Longrightarrow> h \<sigma> = of_bool (f \<sigma> = 0 \<and> g \<sigma> = 1)"
  shows "ok (do { z \<leftarrow> createIsZero False l; AndExpr_create z r }) (\<lambda>e. denotes A e 1 h)"
proof (rule ok_bind [OF createIsZero_ok [OF assms(1)]])
  fix z assume z: "denotes A z 1 (\<lambda>\<sigma>. of_bool (f \<sigma> = 0))"
  show "ok (AndExpr_create z r) (\<lambda>e. denotes A e 1 h)"
    by (rule ok_denotes_cong [OF AndExpr_create_ok [OF z assms(2)]])
      (use denotes_bool_cases [OF assms(2)] assms(3) in force)
qed simp

lemma or_isZero_ok:
  assumes "denotes A l 1 f" "denotes A r 1 g"
    and "\<And>\<sigma>. wf_env \<sigma> \<Longrightarrow> A \<sigma> \<Longrightarrow> h \<sigma> = of_bool (f \<sigma> = 1 \<or> g \<sigma> = 0)"
  shows "ok (do { z \<leftarrow> createIsZero False r; OrExpr_create l z }) (\<lambda>e. denotes A e 1 h)"
proof (rule ok_bind [OF createIsZero_ok [OF assms(2)]])
  fix z assume z: "denotes A z 1 (\<lambda>\<sigma>. of_bool (g \<sigma> = 0))"
  show "ok (OrExpr_create l z) (\<lambda>e. denotes A e 1 h)"
    by (rule ok_denotes_cong [OF OrExpr_create_ok [OF assms(1) z]])
      (use denotes_bool_cases [OF assms(1)] assms(3) in force)
qed simp

lemma isZero_or_ok:
  assumes "denotes A l 1 f" "denotes A r 1 g"
    and "\<And>\<sigma>. wf_env \<sigma> \<Longrightarrow> A \<sigma> \<Longrightarrow> h \<sigma> = of_bool (f \<sigma> = 0 \<or> g \<sigma> = 1)"
  shows "ok (do { z \<leftarrow> createIsZero False l; OrExpr_create z r }) (\<lambda>e. denotes A e 1 h)"
proof (rule ok_bind [OF createIsZero_ok [OF assms(1)]])
  fix z assume z: "denotes A z 1 (\<lambda>\<sigma>. of_bool (f \<sigma> = 0))"
  show "ok (OrExpr_create z r) (\<lambda>e. denotes A e 1 h)"
    by (rule ok_denotes_cong [OF OrExpr_create_ok [OF z assms(2)]])
      (use denotes_bool_cases [OF assms(2)] assms(3) in force)
qed simp


lemma ShlExpr_create_ok [denotes_rules]:
  assumes "denotes A l w f" "denotes A r w g"
  shows "ok (ShlExpr_create False l r) (\<lambda>e. denotes A e w (\<lambda>\<sigma>. bop_sem Shl w (f \<sigma>) (g \<sigma>)))"
  unfolding ShlExpr_create_def
proof (rule BCREATE_ok [OF assms(1,2)])
  show "ok (ShlExpr_create_nc False l r) (\<lambda>e. denotes A e w (\<lambda>\<sigma>. bop_sem Shl w (f \<sigma>) (g \<sigma>)))"
    unfolding ShlExpr_create_nc_def
    by (rule bool_or_bin_ok [OF assms], rule and_isZero_ok)
      (use assms denotes_bool_cases in \<open>blast intro!: bool_bop_sem\<close>)+
qed (rule fold_bop_ok [OF assms(1,2)], use assms in \<open>auto simp: ap_mk_def ConstantExpr_Shl_def ap_shl_def\<close>)

lemma LShrExpr_create_ok [denotes_rules]:
  assumes "denotes A l w f" "denotes A r w g"
  shows "ok (LShrExpr_create False l r) (\<lambda>e. denotes A e w (\<lambda>\<sigma>. bop_sem LShr w (f \<sigma>) (g \<sigma>)))"
  unfolding LShrExpr_create_def
proof (rule BCREATE_ok [OF assms(1,2)])
  show "ok (LShrExpr_create_nc False l r) (\<lambda>e. denotes A e w (\<lambda>\<sigma>. bop_sem LShr w (f \<sigma>) (g \<sigma>)))"
    unfolding LShrExpr_create_nc_def
    by (rule bool_or_bin_ok [OF assms], rule and_isZero_ok)
      (use assms denotes_bool_cases in \<open>blast intro!: bool_bop_sem\<close>)+
qed (rule fold_bop_ok [OF assms(1,2)], use assms in \<open>auto simp: ap_mk_def ConstantExpr_LShr_def ap_lshr_def\<close>)

lemma AShrExpr_create_ok [denotes_rules]:
  assumes "denotes A l w f" "denotes A r w g"
  shows "ok (AShrExpr_create l r) (\<lambda>e. denotes A e w (\<lambda>\<sigma>. bop_sem AShr w (f \<sigma>) (g \<sigma>)))"
  unfolding AShrExpr_create_def
proof (rule BCREATE_ok [OF assms(1,2)])
  show "ok (Some (AShrExpr_create_nc l r)) (\<lambda>e. denotes A e w (\<lambda>\<sigma>. bop_sem AShr w (f \<sigma>) (g \<sigma>)))"
    unfolding AShrExpr_create_nc_def ok_Some
    by (rule bool_or_bin [OF assms(1,2)], rule denotes_cong [OF _ bool_bop_sem(5) [symmetric]])
      (use assms denotes_bool_cases in blast)+
qed (rule fold_bop_ok [OF assms(1,2)], use assms in \<open>auto simp: ap_mk_def ConstantExpr_AShr_def ap_ashr_def\<close>)

section \<open>Correctness of comparisons\<close>

lemma bool_cop_sem:
  assumes "a = 0 \<or> a = 1" "b = 0 \<or> b = 1"
  shows "cop_sem Ult 1 a b = (a = 0 \<and> b = 1)" "cop_sem Ule 1 a b = (a = 0 \<or> b = 1)"
    and "cop_sem Slt 1 a b = (a = 1 \<and> b = 0)" "cop_sem Sle 1 a b = (a = 1 \<or> b = 0)"
  using assms by (elim disjE; simp)+

lemma UltExpr_create_ok [denotes_rules]:
  assumes "denotes A l w f" "denotes A r w g"
  shows "ok (UltExpr_create False l r) (\<lambda>e. denotes A e 1 (\<lambda>\<sigma>. of_bool (cop_sem Ult w (f \<sigma>) (g \<sigma>))))"
  unfolding UltExpr_create_def
proof (rule BCREATE_ok [OF assms(1,2)])
  show "ok (UltExpr_create_nc False l r) (\<lambda>e. denotes A e 1 (\<lambda>\<sigma>. of_bool (cop_sem Ult w (f \<sigma>) (g \<sigma>))))"
    unfolding UltExpr_create_nc_def
    by (rule bool_or_cmp_ok [OF assms], rule isZero_and_ok)
      (use assms denotes_bool_cases in \<open>blast intro!: arg_cong [where f = of_bool] bool_cop_sem\<close>)+
qed (rule fold_cop_ok [OF assms(1,2)], use assms in \<open>auto simp: ConstantExpr_Ult_def\<close>)

lemma UleExpr_create_ok [denotes_rules]:
  assumes "denotes A l w f" "denotes A r w g"
  shows "ok (UleExpr_create False l r) (\<lambda>e. denotes A e 1 (\<lambda>\<sigma>. of_bool (cop_sem Ule w (f \<sigma>) (g \<sigma>))))"
  unfolding UleExpr_create_def
proof (rule BCREATE_ok [OF assms(1,2)])
  show "ok (UleExpr_create_nc False l r) (\<lambda>e. denotes A e 1 (\<lambda>\<sigma>. of_bool (cop_sem Ule w (f \<sigma>) (g \<sigma>))))"
    unfolding UleExpr_create_nc_def
    by (rule bool_or_cmp_ok [OF assms], rule isZero_or_ok)
      (use assms denotes_bool_cases in \<open>blast intro!: arg_cong [where f = of_bool] bool_cop_sem\<close>)+
qed (rule fold_cop_ok [OF assms(1,2)], use assms in \<open>auto simp: ConstantExpr_Ule_def\<close>)

lemma SltExpr_create_ok [denotes_rules]:
  assumes "denotes A l w f" "denotes A r w g"
  shows "ok (SltExpr_create False l r) (\<lambda>e. denotes A e 1 (\<lambda>\<sigma>. of_bool (cop_sem Slt w (f \<sigma>) (g \<sigma>))))"
  unfolding SltExpr_create_def
proof (rule BCREATE_ok [OF assms(1,2)])
  show "ok (SltExpr_create_nc False l r) (\<lambda>e. denotes A e 1 (\<lambda>\<sigma>. of_bool (cop_sem Slt w (f \<sigma>) (g \<sigma>))))"
    unfolding SltExpr_create_nc_def
    by (rule bool_or_cmp_ok [OF assms], rule and_isZero_ok)
      (use assms denotes_bool_cases in \<open>blast intro!: arg_cong [where f = of_bool] bool_cop_sem\<close>)+
qed (rule fold_cop_ok [OF assms(1,2)], use assms in \<open>auto simp: ConstantExpr_Slt_def\<close>)

lemma SleExpr_create_ok [denotes_rules]:
  assumes "denotes A l w f" "denotes A r w g"
  shows "ok (SleExpr_create False l r) (\<lambda>e. denotes A e 1 (\<lambda>\<sigma>. of_bool (cop_sem Sle w (f \<sigma>) (g \<sigma>))))"
  unfolding SleExpr_create_def
proof (rule BCREATE_ok [OF assms(1,2)])
  show "ok (SleExpr_create_nc False l r) (\<lambda>e. denotes A e 1 (\<lambda>\<sigma>. of_bool (cop_sem Sle w (f \<sigma>) (g \<sigma>))))"
    unfolding SleExpr_create_nc_def
    by (rule bool_or_cmp_ok [OF assms], rule or_isZero_ok)
      (use assms denotes_bool_cases in \<open>blast intro!: arg_cong [where f = of_bool] bool_cop_sem\<close>)+
qed (rule fold_cop_ok [OF assms(1,2)], use assms in \<open>auto simp: ConstantExpr_Sle_def\<close>)

lemma bop_create_folds_ok:
  assumes "denotes A l w f" "denotes A r w g" "k \<in> {UDiv, SDiv, URem, SRem} \<Longrightarrow> div_folds l r"
  shows "ok (bop_create False k l r) (\<lambda>e. denotes A e w (\<lambda>\<sigma>. bop_sem k w (f \<sigma>) (g \<sigma>)))"
proof (cases k)
  case Add
  then show ?thesis using AddExpr_create_ok [OF assms(1,2)] by (simp add: bop_create_def)
next
  case Sub
  then show ?thesis using SubExpr_create_ok [OF assms(1,2)] by (simp add: bop_create_def)
next
  case Mul
  then show ?thesis using MulExpr_create_ok [OF assms(1,2)] by (simp add: bop_create_def)
next
  case And
  then show ?thesis using AndExpr_create_ok [OF assms(1,2)] by (simp add: bop_create_def)
next
  case Or
  then show ?thesis using OrExpr_create_ok [OF assms(1,2)] by (simp add: bop_create_def)
next
  case Xor
  then show ?thesis using XorExpr_create_ok [OF assms(1,2)] by (simp add: bop_create_def)
next
  case Shl
  then show ?thesis using ShlExpr_create_ok [OF assms(1,2)] by (simp add: bop_create_def)
next
  case LShr
  then show ?thesis using LShrExpr_create_ok [OF assms(1,2)] by (simp add: bop_create_def)
next
  case AShr
  then show ?thesis using AShrExpr_create_ok [OF assms(1,2)] by (simp add: bop_create_def)
next
  case UDiv
  then show ?thesis using UDivExpr_create_ok [OF assms] by (simp add: bop_create_def)
next
  case SDiv
  then show ?thesis using SDivExpr_create_ok [OF assms] by (simp add: bop_create_def)
next
  case URem
  then show ?thesis using URemExpr_create_ok [OF assms] by (simp add: bop_create_def)
next
  case SRem
  then show ?thesis using SRemExpr_create_ok [OF assms] by (simp add: bop_create_def)
qed

lemma bop_create_ok [denotes_rules]:
  assumes "denotes A l w f" "denotes A r w g" "k \<in> {UDiv, SDiv, URem, SRem} \<Longrightarrow> nonzero A g"
  shows "ok (bop_create False k l r) (\<lambda>e. denotes A e w (\<lambda>\<sigma>. bop_sem k w (f \<sigma>) (g \<sigma>)))"
  using bop_create_folds_ok [OF assms(1,2)] nonzero_div_folds [OF assms(2)] assms(3) by blast

text \<open>Whatever a constructor returns is right, also where a divisor may be zero.\<close>

lemma bop_create_partial:
  assumes "denotes A l w f" "denotes A r w g" "bop_create False k l r = Some e"
  shows "denotes A e w (\<lambda>\<sigma>. bop_sem k w (f \<sigma>) (g \<sigma>))"
proof -
  have "div_folds l r" if "k \<in> {UDiv, SDiv, URem, SRem}"
    using assms(3) that
    by (auto simp: div_folds_def bop_create_def UDivExpr_create_def SDivExpr_create_def URemExpr_create_def SRemExpr_create_def
        BCREATE_def ConstantExpr_UDiv_def ConstantExpr_SDiv_def ConstantExpr_URem_def ConstantExpr_SRem_def split: bind_splits if_splits)
  then show ?thesis using bop_create_folds_ok [OF assms(1,2), of k] assms(3) by simp
qed

lemmas cmp_create_defs = cop_create_def UgtExpr_create_def UgeExpr_create_def SgtExpr_create_def
  SgeExpr_create_def

lemma cop_create_ok [denotes_rules]:
  assumes "denotes A l w f" "denotes A r w g"
  shows "ok (cop_create False k l r) (\<lambda>e. denotes A e 1 (\<lambda>\<sigma>. of_bool (cop_sem k w (f \<sigma>) (g \<sigma>))))"
  using EqExpr_create_ok [OF assms, of False] NeExpr_create_ok [OF assms]
    UltExpr_create_ok [OF assms] UleExpr_create_ok [OF assms]
    SltExpr_create_ok [OF assms] SleExpr_create_ok [OF assms]
    UltExpr_create_ok [OF assms(2,1)] UleExpr_create_ok [OF assms(2,1)]
    SltExpr_create_ok [OF assms(2,1)] SleExpr_create_ok [OF assms(2,1)]
  by (cases k) (simp_all add: cmp_create_defs)

section \<open>Correctness of selection\<close>

lemma SelectExpr_bool_ok:
  assumes "denotes A c 1 p" "denotes A t 1 f" "denotes A e 1 g"
  shows "t = ConstantExpr ce \<Longrightarrow> ConstantExpr_isTrue ce \<Longrightarrow>
      ok (OrExpr_create c e) (\<lambda>e. denotes A e 1 (\<lambda>\<sigma>. if p \<sigma> \<noteq> 0 then f \<sigma> else g \<sigma>))"
    and "t = ConstantExpr ce \<Longrightarrow> \<not> ConstantExpr_isTrue ce \<Longrightarrow>
      ok (do { z \<leftarrow> createIsZero False c; AndExpr_create z e })
        (\<lambda>e. denotes A e 1 (\<lambda>\<sigma>. if p \<sigma> \<noteq> 0 then f \<sigma> else g \<sigma>))"
    and "e = ConstantExpr ce \<Longrightarrow> ConstantExpr_isTrue ce \<Longrightarrow>
      ok (do { z \<leftarrow> createIsZero False c; OrExpr_create z t })
        (\<lambda>e. denotes A e 1 (\<lambda>\<sigma>. if p \<sigma> \<noteq> 0 then f \<sigma> else g \<sigma>))"
    and "e = ConstantExpr ce \<Longrightarrow> \<not> ConstantExpr_isTrue ce \<Longrightarrow>
      ok (AndExpr_create c t) (\<lambda>e. denotes A e 1 (\<lambda>\<sigma>. if p \<sigma> \<noteq> 0 then f \<sigma> else g \<sigma>))"
proof -
  have v: "p \<sigma> = 0 \<or> p \<sigma> = 1" "f \<sigma> = 0 \<or> f \<sigma> = 1" "g \<sigma> = 0 \<or> g \<sigma> = 1" if "wf_env \<sigma>" "A \<sigma>" for \<sigma>
    using denotes_bool_cases assms that by blast+
  have ce: "ConstantExpr_isTrue ce \<Longrightarrow> h \<sigma> = 1" "\<not> ConstantExpr_isTrue ce \<Longrightarrow> h \<sigma> = 0"
    if "denotes A (ConstantExpr ce) 1 h" "wf_env \<sigma>" "A \<sigma>" for h \<sigma>
    using that wf_apD(1) [of ce] by (auto simp: ConstantExpr_isTrue_def in_width_one_iff)
  show "ok (OrExpr_create c e) (\<lambda>e. denotes A e 1 (\<lambda>\<sigma>. if p \<sigma> \<noteq> 0 then f \<sigma> else g \<sigma>))"
    if "t = ConstantExpr ce" "ConstantExpr_isTrue ce"
    by (rule ok_denotes_cong [OF OrExpr_create_ok [OF assms(1,3)]])
      (use v ce(1) [of f] assms(2) that in force)
  show "ok (do { z \<leftarrow> createIsZero False c; AndExpr_create z e })
        (\<lambda>e. denotes A e 1 (\<lambda>\<sigma>. if p \<sigma> \<noteq> 0 then f \<sigma> else g \<sigma>))"
    if "t = ConstantExpr ce" "\<not> ConstantExpr_isTrue ce"
    by (rule isZero_and_ok [OF assms(1,3)]) (use v ce(2) [of f] assms(2) that in force)
  show "ok (do { z \<leftarrow> createIsZero False c; OrExpr_create z t })
        (\<lambda>e. denotes A e 1 (\<lambda>\<sigma>. if p \<sigma> \<noteq> 0 then f \<sigma> else g \<sigma>))"
    if "e = ConstantExpr ce" "ConstantExpr_isTrue ce"
    by (rule isZero_or_ok [OF assms(1,2)]) (use v ce(1) [of g] assms(3) that in force)
  show "ok (AndExpr_create c t) (\<lambda>e. denotes A e 1 (\<lambda>\<sigma>. if p \<sigma> \<noteq> 0 then f \<sigma> else g \<sigma>))"
    if "e = ConstantExpr ce" "\<not> ConstantExpr_isTrue ce"
    by (rule ok_denotes_cong [OF AndExpr_create_ok [OF assms(1,2)]])
      (use v ce(2) [of g] assms(3) that in force)
qed

lemma SelectExpr_create_ok [denotes_rules]:
  assumes c: "denotes A c 1 p" and t: "denotes A t w f" and e: "denotes A e w g"
  shows "ok (SelectExpr_create False c t e) (\<lambda>e. denotes A e w (\<lambda>\<sigma>. if p \<sigma> \<noteq> 0 then f \<sigma> else g \<sigma>))"
    (is "ok _ (\<lambda>e. denotes A e w ?h)")
proof -
  have gw: "getWidth c = 1" "getWidth t = w" "getWidth e = w" using c t e by (auto dest: denotesD)
  have const: "denotes A (if ConstantExpr_isTrue ce then t else e) w ?h" if "c = ConstantExpr ce" for ce
    using denotes_cong [OF t, of ?h] denotes_cong [OF e, of ?h] c that
    by (auto simp: ConstantExpr_isTrue_def)
  have same: "denotes A t w ?h" if "t = e"
    using denotes_cong [OF t, of ?h] denotes_eval [OF t] denotes_eval [OF e] that by auto
  have alloc: "denotes A (SelectExpr c t e) w ?h" using c t e by (auto simp: denotes_def)
  show ?thesis
  proof (cases "w = 1")
    case True
    then show ?thesis
      using const same alloc gw SelectExpr_bool_ok [of A c p t f e g] c t e
      by (auto simp: SelectExpr_create_def split: option.split)
  next
    case False
    then show ?thesis
      using const same alloc gw by (auto simp: SelectExpr_create_def split: option.split)
  qed
qed

section \<open>Correctness of reads\<close>

lemma unode_induct [case_names NullNode UpdateNode]:
  "P NullNode \<Longrightarrow> (\<And>nx i v. P nx \<Longrightarrow> P (UpdateNode nx i v)) \<Longrightarrow> P un"
  by (induction un rule: unode.induct [where ?P1.0 = "\<lambda>_. True"]) auto

lemma ReadExpr_rollback_ok:
  assumes "denotes A index (arr_domain a) g" "wt_updates un a"
  shows "ok (ReadExpr_rollback False index un) (\<lambda>rb. case rb of
      Found v \<Rightarrow> denotes A v (arr_range a) (\<lambda>\<sigma>. read_updates \<sigma> un a (g \<sigma>))
    | Stopped un' s \<Rightarrow> wt_updates un' a \<and> (\<not> s \<longrightarrow> un' = NullNode) \<and>
        (\<forall>\<sigma>. wf_env \<sigma> \<longrightarrow> A \<sigma> \<longrightarrow> read_updates \<sigma> un' a (g \<sigma>) = read_updates \<sigma> un a (g \<sigma>)))"
  using assms(2)
proof (induction un rule: unode_induct)
  case (UpdateNode nx idx v)
  have "ok (EqExpr_create False index idx) (\<lambda>e. denotes A e 1 (\<lambda>\<sigma>. of_bool (g \<sigma> = eval \<sigma> idx)))"
    using EqExpr_create_ok [OF assms(1) denotes_wt [of idx]] UpdateNode.prems by simp
  then obtain cond where c: "EqExpr_create False index idx = Some cond"
    "denotes A cond 1 (\<lambda>\<sigma>. of_bool (g \<sigma> = eval \<sigma> idx))"
    by (rule okE)
  show ?case
  proof (cases "as_const cond")
    case None
    then show ?thesis using c UpdateNode.prems by simp
  next
    case (Some ce)
    then have ce: "of_bool (g \<sigma> = eval \<sigma> idx) = apval ce" "bitWidth ce = 1" if "wf_env \<sigma>" "A \<sigma>" for \<sigma>
      using c(2) that by auto
    show ?thesis
    proof (cases "ConstantExpr_isTrue ce")
      case True
      then have "g \<sigma> = eval \<sigma> idx" if "wf_env \<sigma>" "A \<sigma>" for \<sigma>
        using ce [OF that] by (cases "g \<sigma> = eval \<sigma> idx") (auto simp: ConstantExpr_isTrue_def)
      then show ?thesis
        using c(1) Some True UpdateNode.prems by (auto simp: denotes_def)
    next
      case False
      then have "eval \<sigma> idx \<noteq> g \<sigma>" if "wf_env \<sigma>" "A \<sigma>" for \<sigma>
        using ce [OF that] by (cases "g \<sigma> = eval \<sigma> idx") (auto simp: ConstantExpr_isTrue_def)
      then show ?thesis
        using c(1) Some False UpdateNode
        by (auto elim!: ok_mono simp: denotes_def split: rollback.splits)
    qed
  qed
qed simp

lemma ReadExpr_create_ok [denotes_rules]:
  assumes index: "denotes A index (arr_domain a) g" and a: "wf_array a" "arr_domain a \<le> 64"
    and un: "wt_updates un a"
  shows "ok (ReadExpr_create False (a, un) index)
    (\<lambda>e. denotes A e (arr_range a) (\<lambda>\<sigma>. read_updates \<sigma> un a (g \<sigma>)))"
proof -
  have full: "denotes A (ReadExpr a un' index) (arr_range a) (\<lambda>\<sigma>. read_updates \<sigma> un a (g \<sigma>))"
    if "wt_updates un' a" "\<And>\<sigma>. wf_env \<sigma> \<Longrightarrow> A \<sigma> \<Longrightarrow> read_updates \<sigma> un' a (g \<sigma>) = read_updates \<sigma> un a (g \<sigma>)" for un'
    using index a that by (auto simp: denotes_def)
  have const: "denotes A (ConstantExpr (constantValues a ! nat (apval ce))) (arr_range a) (\<lambda>\<sigma>. read_updates \<sigma> un a (g \<sigma>))"
    if "index = ConstantExpr ce" "nat (apval ce) < arr_size a" "isConstantArray a"
      "\<And>\<sigma>. wf_env \<sigma> \<Longrightarrow> A \<sigma> \<Longrightarrow> read_updates \<sigma> NullNode a (g \<sigma>) = read_updates \<sigma> un a (g \<sigma>)" for ce
  proof -
    have ce: "wf_ap ce" "0 \<le> apval ce" "\<And>\<sigma>. wf_env \<sigma> \<Longrightarrow> A \<sigma> \<Longrightarrow> g \<sigma> = apval ce"
      using that(1) index in_widthD(1) wf_apD(1) by auto
    have "apval (constantValues a ! nat (apval ce)) = read_updates \<sigma> un a (g \<sigma>)" if "wf_env \<sigma>" "A \<sigma>" for \<sigma>
      using \<open>wf_env \<sigma> \<Longrightarrow> A \<sigma> \<Longrightarrow> read_updates \<sigma> NullNode a (g \<sigma>) = _\<close> ce(2) ce(3) [OF that] that
        \<open>nat (apval ce) < arr_size a\<close> \<open>isConstantArray a\<close>
      by (simp add: init_val_def nat_less_iff)
    then show ?thesis using that(2,3) a(1) by (auto simp: wf_array_def isConstantArray_def)
  qed
  show ?thesis
    unfolding ReadExpr_create_def snd_conv fst_conv
  proof (rule ok_bind [OF ReadExpr_rollback_ok [OF index un]], goal_cases)
    case (1 rb)
    then show ?case
      using full [OF un] full const index a(2)
      by (auto simp: Let_def split: rollback.splits option.split)
  qed
qed

lemma read_at_ok:
  assumes "wf_array a" "arr_domain a = 32" "0 \<le> i" "i < 2 ^ 32"
  shows "ok (read_at False a i) (\<lambda>e. denotes A e (arr_range a) (\<lambda>\<sigma>. init_val \<sigma> a i))"
  using ReadExpr_create_ok [of A "ConstantExpr (ap_mk 32 i)" a "\<lambda>_. i" NullNode] assms
  by (simp add: read_at_def take_bit_int_eq_self)

text \<open>The little-endian value of the first \<open>n\<close> bytes of an array.\<close>

definition array_le :: "env \<Rightarrow> array \<Rightarrow> nat \<Rightarrow> int" where
  "array_le \<sigma> a n = (\<Sum>i<n. push_bit (8 * i) (init_val \<sigma> a (int i)))"

lemma array_le_Suc: "array_le \<sigma> a (Suc n) = push_bit (8 * n) (init_val \<sigma> a (int n)) + array_le \<sigma> a n"
  by (simp add: array_le_def)

lemma array_le_0: "array_le \<sigma> a (Suc 0) = init_val \<sigma> a 0"
  by (simp add: array_le_def)

lemma createTempRead_ok:
  assumes a: "wf_array a" "arr_domain a = 32" "arr_range a = 8" and w: "w \<in> {8, 16, 32, 64}"
  shows "ok (createTempRead False a w) (\<lambda>e. denotes A e w (\<lambda>\<sigma>. array_le \<sigma> a (w div 8)))"
proof -
  have rd: "\<exists>e. read_at False a i = Some e \<and> denotes A e 8 (\<lambda>\<sigma>. init_val \<sigma> a i)" if "0 \<le> i" "i < 8" for i
    using read_at_ok [OF a(1,2) that(1), of A] that a(3) by (simp add: ok_iff)
  obtain r where r: "\<And>i. 0 \<le> i \<Longrightarrow> i < 8 \<Longrightarrow> read_at False a i = Some (r i)"
    "\<And>i. 0 \<le> i \<Longrightarrow> i < 8 \<Longrightarrow> denotes A (r i) 8 (\<lambda>\<sigma>. init_val \<sigma> a i)"
    using rd by metis
  have wt: "wt (r i)" "getWidth (r i) = 8" if "0 \<le> i" "i < 8" for i
    using r(2) [OF that] by (auto dest: denotesD)
  have ev: "eval \<sigma> (r i) = init_val \<sigma> a i" if "0 \<le> i" "i < 8" "wf_env \<sigma>" "A \<sigma>" for i \<sigma>
    using denotes_eval [OF r(2) [OF that(1,2)] that(3,4)] by simp
  define rl where "rl n = map (\<lambda>i. r (int i)) (rev [0..<n])" for n
  have cv: "sum_list (map getWidth (rl n)) = 8 * n"
    "wf_env \<sigma> \<Longrightarrow> A \<sigma> \<Longrightarrow> concat_val (map (\<lambda>k. (getWidth k, eval \<sigma> k)) (rl n)) = array_le \<sigma> a n"
    "e \<in> set (rl n) \<Longrightarrow> wt e" if "n \<le> 8" for n \<sigma> e
    using that by (induction n) (auto simp: rl_def wt ev array_le_def comp_def)
  have rdN: "ok (ConcatExpr_createN (rl n)) (\<lambda>e. denotes A e (8 * n) (\<lambda>\<sigma>. array_le \<sigma> a n))"
    if "0 < n" "n \<le> 8" for n
    using ok_denotes_cong [OF ConcatExpr_createN_ok [of "rl n" A]] cv [OF that(2)] that(1)
    by (simp add: rl_def)
  have "rl 1 = [r 0]" "rl 2 = [r 1, r 0]" "rl 4 = [r 3, r 2, r 1, r 0]"
    "rl 8 = [r 7, r 6, r 5, r 4, r 3, r 2, r 1, r 0]"
    by (simp_all add: rl_def upt_rec)
  with w rdN [of 1] rdN [of 2] rdN [of 4] rdN [of 8] r(1) show ?thesis
    by (auto simp: createTempRead_def ConcatExpr_create4_createN ConcatExpr_create8_createN)
qed

text \<open>The kind and the arguments from which \<^verbatim>\<open>createFromKind\<close> rebuilds a node.\<close>

fun kind_args :: "expr \<Rightarrow> (kind \<times> CreateArg list) option" where
  "kind_args (NotOptimizedExpr e) = Some (KNotOptimized, [ArgExpr e])"
| "kind_args (SelectExpr c t f) = Some (KSelect, [ArgExpr c, ArgExpr t, ArgExpr f])"
| "kind_args (ConcatExpr l r) = Some (KConcat, [ArgExpr l, ArgExpr r])"
| "kind_args (ZExtExpr e w) = Some (KZExt, [ArgExpr e, ArgWidth w])"
| "kind_args (SExtExpr e w) = Some (KSExt, [ArgExpr e, ArgWidth w])"
| "kind_args (BinaryExpr k l r) = Some (KBin k, [ArgExpr l, ArgExpr r])"
| "kind_args (CmpExpr k l r) = Some (KCmp k, [ArgExpr l, ArgExpr r])"
| "kind_args _ = None"

definition divisor_ok :: "(env \<Rightarrow> bool) \<Rightarrow> expr \<Rightarrow> bool" where
  "divisor_ok A e \<longleftrightarrow> (case e of BinaryExpr k l r \<Rightarrow> k \<in> {UDiv, SDiv, URem, SRem} \<longrightarrow> nonzero A (\<lambda>\<sigma>. eval \<sigma> r) | _ \<Rightarrow> True)"

lemma createFromKind_ok:
  assumes "kind_args e = Some (k, args)" "wt e" "divisor_ok A e"
  shows "ok (createFromKind False k args) (\<lambda>e'. denotes A e' (getWidth e) (\<lambda>\<sigma>. eval \<sigma> e))"
proof (cases e)
  case (BinaryExpr op l r)
  then show ?thesis
    using assms bop_create_ok [of A l "getWidth l" "\<lambda>\<sigma>. eval \<sigma> l" r "\<lambda>\<sigma>. eval \<sigma> r" op]
    by (auto simp: divisor_ok_def denotes_self denotes_wt)
next
  case (CmpExpr op l r)
  then show ?thesis
    using assms cop_create_ok [of A l "getWidth l" "\<lambda>\<sigma>. eval \<sigma> l" r "\<lambda>\<sigma>. eval \<sigma> r" op]
    by (auto simp: denotes_self denotes_wt)
next
  case (SelectExpr c t f)
  then show ?thesis
    using assms SelectExpr_create_ok [of A c "\<lambda>\<sigma>. eval \<sigma> c" t "getWidth t" "\<lambda>\<sigma>. eval \<sigma> t" f "\<lambda>\<sigma>. eval \<sigma> f"]
    by (auto simp: denotes_wt)
next
  case (ConcatExpr l r)
  then show ?thesis
    using assms ConcatExpr_create_ok [OF denotes_self denotes_self, of l r A] by auto
next
  case (ZExtExpr e' w)
  then show ?thesis
    using assms ZExtExpr_create_ok [OF denotes_self, of e' w A] wt_width_pos [of e'] by auto
next
  case (SExtExpr e' w)
  then show ?thesis
    using assms SExtExpr_create_ok [OF denotes_self, of e' w A] wt_width_pos [of e'] by auto
next
  case (NotOptimizedExpr e')
  then show ?thesis using assms by (auto simp: denotes_def)
qed (use assms in auto)

end
