(* ===== verification/Expr_Props.thy ===== *)
theory Expr_Props
  imports Expr_Build
begin

unbundle bit_operations_syntax

text \<open>
  The properties of the expression library: what the simplifying constructors of
  \<^verbatim>\<open>lib/Expr/Expr.cpp\<close> promise to the rest of the system, stated over the reference meaning
  \<open>eval\<close> without the auxiliary predicate \<open>denotes\<close>.
\<close>

section \<open>Concrete expressions for the witnesses\<close>

definition demo_array :: array where
  "demo_array = \<lparr>arr_ptr = 0, arr_name = ''a'', arr_size = 4, arr_domain = 32, arr_range = 8,
     constantValues = []\<rparr>"

definition demo_read :: expr where
  "demo_read = ReadExpr demo_array NullNode (ConstantExpr (APInt 32 0))"

definition demo_const :: "int \<Rightarrow> expr" where
  "demo_const v = ConstantExpr (APInt 8 v)"

lemma demo_wt [simp]:
  "wt demo_read" "getWidth demo_read = 8" "getWidth (demo_const v) = 8" "eval \<sigma> (demo_const v) = v"
  "wt (demo_const v) \<longleftrightarrow> in_width 8 v"
  by (auto simp: demo_read_def demo_array_def demo_const_def wf_array_def isSymbolicArray_def)

section \<open>Arithmetic and comparison\<close>

lemma ok_denotes_ex:
  "ok r (\<lambda>e. denotes (\<lambda>_. True) e w f) \<Longrightarrow>
     \<exists>e. r = Some e \<and> wt e \<and> getWidth e = w \<and> (\<forall>\<sigma>. wf_env \<sigma> \<longrightarrow> eval \<sigma> e = f \<sigma>)"
  by (auto simp: ok_iff denotes_def)

lemma nonzero_True:
  "\<forall>\<sigma>. wf_env \<sigma> \<longrightarrow> g \<sigma> \<noteq> 0 \<Longrightarrow> nonzero (\<lambda>_. True) g"
  using wf_env_exists by (auto simp: nonzero_def satisfiable_def)

text \<open>
  C3. Every binary arithmetic constructor (\<^verbatim>\<open>AddExpr::create\<close> to \<^verbatim>\<open>AShrExpr::create\<close>), whatever
  rewriting it applies, terminates without a failed assertion on well-typed operands of equal
  width (and a divisor that is never zero) and returns a well-typed expression of that width
  whose value in every environment is the operator applied to the values of the operands.
\<close>
theorem bop_create_correct:
  assumes "wt l" "wt r" "getWidth l = getWidth r"
    and "k \<in> {UDiv, SDiv, URem, SRem} \<Longrightarrow> \<forall>\<sigma>. wf_env \<sigma> \<longrightarrow> eval \<sigma> r \<noteq> 0"
  shows "\<exists>e. bop_create False k l r = Some e \<and> wt e \<and> getWidth e = getWidth l \<and>
    (\<forall>\<sigma>. wf_env \<sigma> \<longrightarrow> eval \<sigma> e = bop_sem k (getWidth l) (eval \<sigma> l) (eval \<sigma> r))"
  by (rule ok_denotes_ex, rule bop_create_ok) (use assms nonzero_True in \<open>auto simp: denotes_wt\<close>)

theorem bop_create_correct_witness:
  "wt demo_read \<and> wt (demo_const 3) \<and> getWidth demo_read = getWidth (demo_const 3) \<and>
   (\<exists>e. bop_create False UDiv demo_read (demo_const 3) = Some e \<and> wt e \<and> getWidth e = 8 \<and>
     (\<forall>\<sigma>. wf_env \<sigma> \<longrightarrow> eval \<sigma> e = bop_sem UDiv 8 (eval \<sigma> demo_read) 3))"
  using bop_create_correct [of demo_read "demo_const 3" UDiv] by (simp add: in_width_def)

text \<open>
  C5. Every comparison constructor (\<^verbatim>\<open>EqExpr::create\<close> to \<^verbatim>\<open>SgeExpr::create\<close>) returns, on
  well-typed operands of equal width, a one-bit expression that is 1 exactly in the environments
  in which the operands compare.
\<close>
theorem cop_create_correct:
  assumes "wt l" "wt r" "getWidth l = getWidth r"
  shows "\<exists>e. cop_create False k l r = Some e \<and> wt e \<and> getWidth e = 1 \<and>
    (\<forall>\<sigma>. wf_env \<sigma> \<longrightarrow> eval \<sigma> e = of_bool (cop_sem k (getWidth l) (eval \<sigma> l) (eval \<sigma> r)))"
  by (rule ok_denotes_ex, rule cop_create_ok) (use assms in \<open>auto simp: denotes_wt\<close>)

theorem cop_create_correct_witness:
  "wt demo_read \<and> wt (demo_const 3) \<and> getWidth demo_read = getWidth (demo_const 3) \<and>
   (\<exists>e. cop_create False Sgt demo_read (demo_const 3) = Some e \<and> wt e \<and> getWidth e = 1 \<and>
     (\<forall>\<sigma>. wf_env \<sigma> \<longrightarrow> eval \<sigma> e = of_bool (cop_sem Sgt 8 (eval \<sigma> demo_read) 3)))"
  using cop_create_correct [of demo_read "demo_const 3" Sgt] by (simp add: in_width_def)

end
