(* ===== verification/Bit_Array.thy ===== *)
theory Bit_Array
  imports Prelude
begin

unbundle bit_operations_syntax

text \<open>
  \<^verbatim>\<open>include/klee/util/BitArray.h\<close>: a bit vector in 32-bit words, the type of the masks of an object
  state.  The locale \<open>bit_store\<close> is the interface its clients use; the last section shows that
  \<^verbatim>\<open>BitArray\<close> implements it.
\<close>

type_synonym bitarray = "u32 list"

definition BitArray_length :: "nat \<Rightarrow> nat" where
  "BitArray_length sz = (sz + 31) div 32"

definition BitArray_new :: "nat \<Rightarrow> bool \<Rightarrow> bitarray" where
  "BitArray_new sz value = replicate (BitArray_length sz) (if value then 0xFFFFFFFF else 0)"

definition BitArray_copy :: "bitarray \<Rightarrow> nat \<Rightarrow> bitarray" where
  "BitArray_copy b sz = take (BitArray_length sz) b"

definition BitArray_get :: "bitarray \<Rightarrow> nat \<Rightarrow> bool" where
  "BitArray_get bits idx \<longleftrightarrow> drop_bit (idx AND 0x1F) (bits ! (idx div 32)) AND 1 \<noteq> 0"

definition BitArray_set :: "bitarray \<Rightarrow> nat \<Rightarrow> bitarray" where
  "BitArray_set bits idx =
     bits[idx div 32 := bits ! (idx div 32) OR push_bit (idx AND 0x1F) 1]"

definition BitArray_unset :: "bitarray \<Rightarrow> nat \<Rightarrow> bitarray" where
  "BitArray_unset bits idx =
     bits[idx div 32 := bits ! (idx div 32) AND NOT (push_bit (idx AND 0x1F) 1)]"

definition BitArray_set_value :: "bitarray \<Rightarrow> nat \<Rightarrow> bool \<Rightarrow> bitarray" where
  "BitArray_set_value bits idx value =
     (if value then BitArray_set bits idx else BitArray_unset bits idx)"

section \<open>The interface\<close>

locale bit_store =
  fixes mk :: "nat \<Rightarrow> bool \<Rightarrow> 's"
    and get :: "'s \<Rightarrow> nat \<Rightarrow> bool"
    and setb :: "'s \<Rightarrow> nat \<Rightarrow> 's"
    and unsetb :: "'s \<Rightarrow> nat \<Rightarrow> 's"
    and covers :: "'s \<Rightarrow> nat \<Rightarrow> bool"
  assumes covers_mk: "covers (mk n v) n"
    and get_mk: "i < n \<Longrightarrow> get (mk n v) i = v"
    and covers_setb: "covers s n \<Longrightarrow> covers (setb s i) n"
    and covers_unsetb: "covers s n \<Longrightarrow> covers (unsetb s i) n"
    and get_setb: "covers s n \<Longrightarrow> i < n \<Longrightarrow> j < n \<Longrightarrow> get (setb s i) j \<longleftrightarrow> j = i \<or> get s j"
    and get_unsetb: "covers s n \<Longrightarrow> i < n \<Longrightarrow> j < n \<Longrightarrow> get (unsetb s i) j \<longleftrightarrow> j \<noteq> i \<and> get s j"
begin

definition bits_of :: "'s \<Rightarrow> nat \<Rightarrow> nat set" where
  "bits_of s n = {i. i < n \<and> get s i}"

lemma bits_of_mk: "bits_of (mk n v) n = (if v then {..<n} else {})"
  by (auto simp: bits_of_def get_mk)

lemma bits_of_setb: "covers s n \<Longrightarrow> i < n \<Longrightarrow> bits_of (setb s i) n = insert i (bits_of s n)"
  by (auto simp: bits_of_def get_setb)

lemma bits_of_unsetb: "covers s n \<Longrightarrow> i < n \<Longrightarrow> bits_of (unsetb s i) n = bits_of s n - {i}"
  by (auto simp: bits_of_def get_unsetb)

lemma setb_unsetb: "covers s n \<Longrightarrow> i < n \<Longrightarrow> bits_of (unsetb (setb s i) i) n = bits_of s n - {i}"
  by (simp add: bits_of_setb bits_of_unsetb covers_setb)

lemma covers_fold_unsetb: "covers s n \<Longrightarrow> covers (fold (\<lambda>i s. unsetb s i) is s) n"
  by (induction "is" arbitrary: s) (auto simp: covers_unsetb)

lemma bits_of_fold_unsetb:
  "covers s n \<Longrightarrow> set is \<subseteq> {..<n} \<Longrightarrow> bits_of (fold (\<lambda>i s. unsetb s i) is s) n = bits_of s n - set is"
  by (induction "is" arbitrary: s) (auto simp: covers_unsetb bits_of_unsetb)

end

section \<open>BitArray implements it\<close>

definition BitArray_covers :: "bitarray \<Rightarrow> nat \<Rightarrow> bool" where
  "BitArray_covers b n \<longleftrightarrow> BitArray_length n \<le> length b"

lemma low_bits: "idx AND (0x1F :: nat) = idx mod 32"
  using take_bit_eq_mask [of 5 idx] by (simp add: take_bit_eq_mod mask_eq_exp_minus_1)

lemma BitArray_get_bit: "BitArray_get b i \<longleftrightarrow> bit (b ! (i div 32)) (i mod 32)"
  by (simp add: BitArray_get_def low_bits and_one_eq bit_iff_odd_drop_bit odd_iff_mod_2_eq_one)

lemma BitArray_index: "BitArray_covers b n \<Longrightarrow> i < n \<Longrightarrow> i div 32 < length b"
  by (auto simp: BitArray_covers_def BitArray_length_def)

lemma BitArray_set_get:
  assumes "BitArray_covers b n" "i < n" "j < n"
  shows "BitArray_get (BitArray_set b i) j \<longleftrightarrow> j = i \<or> BitArray_get b j"
proof (cases "i div 32 = j div 32")
  case True
  then have "i mod 32 = j mod 32 \<longleftrightarrow> j = i" by (metis div_mult_mod_eq)
  then show ?thesis
    using BitArray_index [OF assms(1,2)] True
    by (auto simp: BitArray_get_bit BitArray_set_def low_bits bit_or_iff bit_exp_iff)
qed (auto simp: BitArray_get_bit BitArray_set_def)

lemma BitArray_unset_get:
  assumes "BitArray_covers b n" "i < n" "j < n"
  shows "BitArray_get (BitArray_unset b i) j \<longleftrightarrow> j \<noteq> i \<and> BitArray_get b j"
proof (cases "i div 32 = j div 32")
  case True
  then have "i mod 32 = j mod 32 \<longleftrightarrow> j = i" by (metis div_mult_mod_eq)
  then show ?thesis
    using BitArray_index [OF assms(1,2)] True
    by (auto simp: BitArray_get_bit BitArray_unset_def low_bits bit_and_iff bit_not_iff bit_exp_iff)
qed (auto simp: BitArray_get_bit BitArray_unset_def)

lemma BitArray_new_get: "i < n \<Longrightarrow> BitArray_get (BitArray_new n v) i = v"
proof -
  assume "i < n"
  then have "i div 32 < BitArray_length n" by (auto simp: BitArray_length_def)
  moreover have "bit (0xFFFFFFFF :: u32) (i mod 32)"
    using bit_mask_iff [of 32 "i mod 32", where 'a = u32] by (simp add: mask_eq_exp_minus_1)
  ultimately show ?thesis by (simp add: BitArray_get_bit BitArray_new_def)
qed

lemma BitArray_covers_ops:
  "BitArray_covers (BitArray_new n v) n"
  "BitArray_covers b n \<Longrightarrow> BitArray_covers (BitArray_set b i) n"
  "BitArray_covers b n \<Longrightarrow> BitArray_covers (BitArray_unset b i) n"
  by (simp_all add: BitArray_covers_def BitArray_new_def BitArray_set_def BitArray_unset_def)

interpretation ba: bit_store BitArray_new BitArray_get BitArray_set BitArray_unset BitArray_covers
  by unfold_locales (auto simp: BitArray_new_get BitArray_set_get BitArray_unset_get BitArray_covers_ops)

lemma BitArray_copy_get:
  "BitArray_covers b n \<Longrightarrow> i < n \<Longrightarrow> BitArray_get (BitArray_copy b n) i = BitArray_get b i"
  by (auto simp: BitArray_get_bit BitArray_copy_def BitArray_covers_def BitArray_length_def)

lemma BitArray_copy_covers: "BitArray_covers b n \<Longrightarrow> BitArray_covers (BitArray_copy b n) n"
  by (auto simp: BitArray_copy_def BitArray_covers_def)

end
