(* ===== verification/Array_Cache.thy ===== *)
theory Array_Cache
  imports Expr_Semantics
begin

text \<open>
  \<^verbatim>\<open>lib/Expr/ArrayCache.cpp\<close>: the owner of all array objects.  Symbolic arrays are shared by
  name and size; every constant array is a new object.  \<open>next_ptr\<close> stands for the allocator: the
  address the next \<^verbatim>\<open>new Array\<close> returns.
\<close>

record array_cache =
  cachedSymbolicArrays :: "array list"
  concreteArrays :: "array list"
  next_ptr :: nat

definition EquivArrayCmpFn :: "array \<Rightarrow> array \<Rightarrow> bool" where
  "EquivArrayCmpFn a b \<longleftrightarrow> arr_size a = arr_size b \<and> arr_name a = arr_name b"

definition CreateArray ::
  "array_cache \<Rightarrow> string \<Rightarrow> nat \<Rightarrow> apint list \<Rightarrow> width \<Rightarrow> width \<Rightarrow> (array \<times> array_cache) option" where
  "CreateArray c name sz consts domw ranw = do {
     a \<leftarrow> Array_create (next_ptr c) name sz consts domw ranw;
     let c = c\<lparr>next_ptr := Suc (next_ptr c)\<rparr>;
     if isSymbolicArray a then
       (case find (EquivArrayCmpFn a) (cachedSymbolicArrays c) of
          None \<Rightarrow> Some (a, c\<lparr>cachedSymbolicArrays := a # cachedSymbolicArrays c\<rparr>)
        | Some b \<Rightarrow> do { assert_that (isSymbolicArray b); Some (b, c) })
     else Some (a, c\<lparr>concreteArrays := concreteArrays c @ [a]\<rparr>)
   }"

definition empty_cache :: array_cache where
  "empty_cache = \<lparr>cachedSymbolicArrays = [], concreteArrays = [], next_ptr = 0\<rparr>"

definition all_arrays :: "array_cache \<Rightarrow> array list" where
  "all_arrays c = cachedSymbolicArrays c @ concreteArrays c"

section \<open>Invariant\<close>

text \<open>
  No two cached symbolic arrays share name and size, and the address of an array determines it.
\<close>

definition cache_wf :: "array_cache \<Rightarrow> bool" where
  "cache_wf c \<longleftrightarrow>
     (\<forall>a \<in> set (cachedSymbolicArrays c). isSymbolicArray a) \<and>
     (\<forall>a \<in> set (concreteArrays c). isConstantArray a \<and> length (constantValues a) = arr_size a) \<and>
     distinct (map (\<lambda>a. (arr_name a, arr_size a)) (cachedSymbolicArrays c)) \<and>
     distinct (map arr_ptr (all_arrays c)) \<and>
     (\<forall>a \<in> set (all_arrays c). arr_ptr a < next_ptr c)"

lemma cache_wf_empty: "cache_wf empty_cache"
  by (simp add: cache_wf_def empty_cache_def all_arrays_def)

lemma find_equiv_None:
  "find (EquivArrayCmpFn a) bs = None \<longleftrightarrow> (arr_name a, arr_size a) \<notin> (\<lambda>b. (arr_name b, arr_size b)) ` set bs"
  by (auto simp: find_None_iff EquivArrayCmpFn_def)

lemma find_equiv_Some:
  "find (EquivArrayCmpFn a) bs = Some b \<Longrightarrow> b \<in> set bs \<and> arr_name b = arr_name a \<and> arr_size b = arr_size a"
  by (auto simp: find_Some_iff EquivArrayCmpFn_def)

lemma CreateArray_cases:
  assumes "CreateArray c name sz consts domw ranw = Some (a, c')"
  obtains (hit) "consts = []" "a \<in> set (cachedSymbolicArrays c)" "arr_name a = name" "arr_size a = sz"
      "c' = c\<lparr>next_ptr := Suc (next_ptr c)\<rparr>"
  | (miss) "consts = []" "(name, sz) \<notin> (\<lambda>b. (arr_name b, arr_size b)) ` set (cachedSymbolicArrays c)"
      "a = \<lparr>arr_ptr = next_ptr c, arr_name = name, arr_size = sz, arr_domain = domw, arr_range = ranw, constantValues = []\<rparr>"
      "c' = c\<lparr>next_ptr := Suc (next_ptr c), cachedSymbolicArrays := a # cachedSymbolicArrays c\<rparr>"
  | (const) "consts \<noteq> []" "length consts = sz" "\<forall>k \<in> set consts. bitWidth k = ranw"
      "a = \<lparr>arr_ptr = next_ptr c, arr_name = name, arr_size = sz, arr_domain = domw, arr_range = ranw, constantValues = consts\<rparr>"
      "c' = c\<lparr>next_ptr := Suc (next_ptr c), concreteArrays := concreteArrays c @ [a]\<rparr>"
proof (cases "consts = []")
  case True
  then show thesis
    using assms hit miss
    by (auto simp: CreateArray_def Array_create_def isSymbolicArray_def Let_def find_equiv_None
        dest!: find_equiv_Some split: option.splits bind_splits)
next
  case False
  then show thesis
    using assms const
    by (auto simp: CreateArray_def Array_create_def isSymbolicArray_def Let_def split: bind_splits)
qed

lemma CreateArray_wf:
  assumes "cache_wf c" "CreateArray c name sz consts domw ranw = Some (a, c')"
  shows "cache_wf c' \<and> a \<in> set (all_arrays c') \<and> set (all_arrays c) \<subseteq> set (all_arrays c') \<and>
    arr_name a = name \<and> arr_size a = sz \<and> (isSymbolicArray a \<longleftrightarrow> consts = [])"
  using assms(2)
proof (cases rule: CreateArray_cases)
  case hit
  then show ?thesis using assms(1) by (auto simp: cache_wf_def all_arrays_def isSymbolicArray_def less_Suc_eq)
next
  case miss
  then show ?thesis using assms(1) by (auto simp: cache_wf_def all_arrays_def isSymbolicArray_def less_Suc_eq)
next
  case const
  then show ?thesis
    using assms(1) by (auto simp: cache_wf_def all_arrays_def isSymbolicArray_def isConstantArray_def less_Suc_eq)
qed

lemma CreateArray_total:
  assumes "cache_wf c" "consts = [] \<or> length consts = sz \<and> (\<forall>k \<in> set consts. bitWidth k = ranw)"
  shows "\<exists>a c'. CreateArray c name sz consts domw ranw = Some (a, c')"
proof -
  obtain a where a: "Array_create (next_ptr c) name sz consts domw ranw = Some a" "constantValues a = consts"
    using assms(2) by (auto simp: Array_create_def isSymbolicArray_def assert_that_def)
  have "isSymbolicArray b" if "find (EquivArrayCmpFn a) (cachedSymbolicArrays c) = Some b" for b
    using find_equiv_Some [OF that] assms(1) by (simp add: cache_wf_def)
  with a show ?thesis
    by (auto simp: CreateArray_def Let_def isSymbolicArray_def split: option.split)
qed

lemma CreateArray_keeps:
  assumes "CreateArray c name sz consts domw ranw = Some (a, c')" "\<forall>b \<in> set (all_arrays c). P b"
    "P \<lparr>arr_ptr = next_ptr c, arr_name = name, arr_size = sz, arr_domain = domw, arr_range = ranw, constantValues = consts\<rparr>"
  shows "\<forall>b \<in> set (all_arrays c'). P b"
  using assms(1) by (cases rule: CreateArray_cases) (use assms(2,3) in \<open>auto simp: all_arrays_def\<close>)

lemma cache_ptr_inj: "cache_wf c \<Longrightarrow> inj_on arr_ptr (set (all_arrays c))"
  by (simp add: cache_wf_def distinct_map)

text \<open>A second request for the same symbolic array returns the same object, whatever the widths.\<close>

lemma CreateArray_again:
  assumes "cache_wf c" "CreateArray c name sz [] domw ranw = Some (a, c')"
  shows "CreateArray c' name sz [] domw' ranw' = Some (a, c'\<lparr>next_ptr := Suc (next_ptr c')\<rparr>)"
proof -
  have wf: "cache_wf c'" and a: "a \<in> set (cachedSymbolicArrays c')" "arr_name a = name" "arr_size a = sz"
      "isSymbolicArray a"
    using CreateArray_wf [OF assms] assms(1,2)
    by (auto elim!: CreateArray_cases simp: all_arrays_def cache_wf_def isSymbolicArray_def)
  let ?b = "\<lparr>arr_ptr = next_ptr c', arr_name = name, arr_size = sz, arr_domain = domw',
    arr_range = ranw', constantValues = []\<rparr>"
  have "find (EquivArrayCmpFn ?b) (cachedSymbolicArrays c') \<noteq> None"
    using a by (auto simp: find_equiv_None)
  then obtain b where b: "find (EquivArrayCmpFn ?b) (cachedSymbolicArrays c') = Some b" by blast
  then have "b \<in> set (cachedSymbolicArrays c')" "arr_name b = name" "arr_size b = sz"
    using find_equiv_Some by fastforce+
  then have "b = a"
    using wf a by (auto simp: cache_wf_def distinct_map inj_on_def)
  with b a(4) show ?thesis
    by (simp add: CreateArray_def Array_create_def isSymbolicArray_def)
qed

end
