(* ===== verification/Bits.thy ===== *)
theory Bits
  imports Prelude
begin

unbundle bit_operations_syntax

text \<open>
  The bit-twiddling helpers of \<^verbatim>\<open>include/klee/util/Bits.h\<close>, on 32-bit and 64-bit words, with
  the pre- and postconditions that the comments of the file announce.
\<close>

section \<open>bits32\<close>

definition maxValueOfNBits32 :: "nat \<Rightarrow> u32 option" where
  "maxValueOfNBits32 N = do {
     assert_that (N \<le> 32);
     Some (if N = 0 then 0 else drop_bit (32 - N) (-1))
   }"

definition truncateToNBits32 :: "u32 \<Rightarrow> nat \<Rightarrow> u32 option" where
  "truncateToNBits32 x N = do {
     assert_that (0 < N \<and> N \<le> 32);
     Some (x AND drop_bit (32 - N) (-1))
   }"

definition withoutRightmostBit32 :: "u32 \<Rightarrow> u32" where
  "withoutRightmostBit32 x = x AND (x - 1)"

definition isolateRightmostBit32 :: "u32 \<Rightarrow> u32" where
  "isolateRightmostBit32 x = x AND - x"

definition isPowerOfTwo32 :: "u32 \<Rightarrow> bool" where
  "isPowerOfTwo32 x = (if x = 0 then False else x AND (x - 1) = 0)"

definition indexOfSingleBit32 :: "u32 \<Rightarrow> nat option" where
  "indexOfSingleBit32 x = do {
     assert_that (withoutRightmostBit32 x = 0);
     let res = (if x AND 0xFFFF0000 \<noteq> 0 then 16 else 0) + (if x AND 0xFF00FF00 \<noteq> 0 then 8 else 0)
       + (if x AND 0xF0F0F0F0 \<noteq> 0 then 4 else 0) + (if x AND 0xCCCCCCCC \<noteq> 0 then 2 else 0)
       + (if x AND 0xAAAAAAAA \<noteq> 0 then 1 else 0);
     assert_that (res < 32);
     assert_that (push_bit res 1 = x);
     Some res
   }"

definition indexOfRightmostBit32 :: "u32 \<Rightarrow> nat option" where
  "indexOfRightmostBit32 x = indexOfSingleBit32 (isolateRightmostBit32 x)"

section \<open>bits64\<close>

definition maxValueOfNBits64 :: "nat \<Rightarrow> u64 option" where
  "maxValueOfNBits64 N = do {
     assert_that (N \<le> 64);
     Some (if N = 0 then 0 else drop_bit (64 - N) (-1))
   }"

definition truncateToNBits64 :: "u64 \<Rightarrow> nat \<Rightarrow> u64 option" where
  "truncateToNBits64 x N = do {
     assert_that (0 < N \<and> N \<le> 64);
     Some (x AND drop_bit (64 - N) (-1))
   }"

definition withoutRightmostBit64 :: "u64 \<Rightarrow> u64" where
  "withoutRightmostBit64 x = x AND (x - 1)"

definition isolateRightmostBit64 :: "u64 \<Rightarrow> u64" where
  "isolateRightmostBit64 x = x AND - x"

definition isPowerOfTwo64 :: "u64 \<Rightarrow> bool" where
  "isPowerOfTwo64 x = (if x = 0 then False else x AND (x - 1) = 0)"

definition indexOfSingleBit64 :: "u64 \<Rightarrow> nat option" where
  "indexOfSingleBit64 x = do {
     assert_that (x AND (x - 1) = 0);
     res \<leftarrow> indexOfSingleBit32 (ucast (x OR drop_bit 32 x));
     let res = (if x AND push_bit 32 0xFFFFFFFF \<noteq> 0 then res + 32 else res);
     assert_that (res < 64);
     assert_that (push_bit res 1 = x);
     Some res
   }"

definition indexOfRightmostBit64 :: "u64 \<Rightarrow> nat option" where
  "indexOfRightmostBit64 x = indexOfSingleBit64 (isolateRightmostBit64 x)"

section \<open>Powers of two\<close>

lemma int_single_bit:
  assumes "0 < (v :: int)"
  shows "v AND (v - 1) = 0 \<longleftrightarrow> (\<exists>n. v = 2 ^ n)"
proof
  assume "\<exists>n. v = 2 ^ n"
  then obtain n where "v = 2 ^ n" ..
  then show "v AND (v - 1) = 0"
    by (intro bit_eqI) (auto simp: bit_and_iff bit_exp_iff bit_mask_iff simp flip: mask_eq_exp_minus_1)
next
  assume z: "v AND (v - 1) = 0"
  obtain m where m: "v = int m" "0 < m" using assms by (metis pos_int_cases)
  then obtain n where "2 ^ n \<le> m" "m < 2 ^ (n + 1)" using ex_power_ivl1 [of 2 m] by auto
  then have "int (2 ^ n) \<le> int m" "int m < int (2 ^ (n + 1))" by (simp_all only: of_nat_le_iff of_nat_less_iff)
  then have n: "2 ^ n \<le> v" "v < 2 * 2 ^ n" using m(1) by simp_all
  show "\<exists>n. v = 2 ^ n"
  proof (rule ccontr)
    assume "\<nexists>n. v = 2 ^ n"
    then have "v \<noteq> 2 ^ n" by blast
    with n have "drop_bit n (v - 1) = 1" "drop_bit n v = 1"
      using int_div_pos_eq [of "v - 1" "2 ^ n" 1 "v - 1 - 2 ^ n"] int_div_pos_eq [of v "2 ^ n" 1 "v - 2 ^ n"]
      by (simp_all add: drop_bit_eq_div)
    then have "bit (v AND (v - 1)) n" by (simp add: bit_iff_odd_drop_bit bit_and_iff)
    with z show False by simp
  qed
qed

lemma word_single_bit:
  fixes x :: "'a::len word"
  assumes "x \<noteq> 0"
  shows "x AND (x - 1) = 0 \<longleftrightarrow> (\<exists>n<LENGTH('a). x = 2 ^ n)"
proof -
  have x1: "uint (x - 1) = uint x - 1"
    using unat_minus_one [OF assms] assms
    by (metis One_nat_def int_ops(2) of_nat_diff uint_nat unat_gt_0 Suc_leI)
  have "0 < uint x" using assms by (simp add: word_neq_0_conv word_less_def)
  moreover have "x AND (x - 1) = 0 \<longleftrightarrow> uint x AND (uint x - 1) = 0"
    by (metis x1 uint_and uint_0_iff)
  moreover have "uint x = 2 ^ n \<longleftrightarrow> n < LENGTH('a) \<and> x = 2 ^ n" for n
  proof
    assume n: "uint x = 2 ^ n"
    moreover have "uint x < 2 ^ LENGTH('a)" by (rule uint_lt2p)
    ultimately have "n < LENGTH('a)" by simp
    moreover have "x = word_of_int (2 ^ n)" by (metis n word_of_int_uint)
    ultimately show "n < LENGTH('a) \<and> x = 2 ^ n" by simp
  next
    assume n: "n < LENGTH('a) \<and> x = 2 ^ n"
    then have "uint x = take_bit LENGTH('a) (2 ^ n)" by (metis of_int_numeral of_int_power uint_word_of_int_eq)
    with n show "uint x = 2 ^ n" by simp
  qed
  ultimately show ?thesis using int_single_bit by auto
qed

lemma isPowerOfTwo32_iff: "isPowerOfTwo32 x \<longleftrightarrow> (\<exists>n<32. x = 2 ^ n)"
  using word_single_bit [of x] by (auto simp: isPowerOfTwo32_def)

lemma isPowerOfTwo64_iff: "isPowerOfTwo64 x \<longleftrightarrow> (\<exists>n<64. x = 2 ^ n)"
  using word_single_bit [of x] by (auto simp: isPowerOfTwo64_def)

section \<open>Masks\<close>

lemma drop_bit_minus_one:
  assumes "n \<le> LENGTH('a)"
  shows "drop_bit (LENGTH('a) - n) (-1 :: 'a::len word) = mask n"
  by (rule bit_word_eqI) (use assms in \<open>auto simp: bit_drop_bit_eq bit_mask_iff bit_minus_1_iff\<close>)

lemma maxValueOfNBits32_mask: "N \<le> 32 \<Longrightarrow> maxValueOfNBits32 N = Some (mask N)"
  using drop_bit_minus_one [of N, where 'a = 32] by (simp add: maxValueOfNBits32_def)

lemma maxValueOfNBits64_mask: "N \<le> 64 \<Longrightarrow> maxValueOfNBits64 N = Some (mask N)"
  using drop_bit_minus_one [of N, where 'a = 64] by (simp add: maxValueOfNBits64_def)

lemma truncateToNBits32_take_bit:
  "0 < N \<Longrightarrow> N \<le> 32 \<Longrightarrow> truncateToNBits32 x N = Some (take_bit N x)"
  using drop_bit_minus_one [of N, where 'a = 32] by (simp add: truncateToNBits32_def take_bit_eq_mask)

lemma truncateToNBits64_take_bit:
  "0 < N \<Longrightarrow> N \<le> 64 \<Longrightarrow> truncateToNBits64 x N = Some (take_bit N x)"
  using drop_bit_minus_one [of N, where 'a = 64] by (simp add: truncateToNBits64_def take_bit_eq_mask)

section \<open>The index of a single bit\<close>

lemma single_bit_and: "n < LENGTH('a) \<Longrightarrow> 2 ^ n AND c = (0 :: 'a::len word) \<longleftrightarrow> \<not> bit c n"
  by (simp add: and_exp_eq_0_iff_not_bit and.commute [of "2 ^ n"])

lemma index_table:
  "list_all (\<lambda>n. (if bit (0xFFFF0000 :: u32) n then 16 else 0) + (if bit (0xFF00FF00 :: u32) n then 8 else 0)
     + (if bit (0xF0F0F0F0 :: u32) n then 4 else 0) + (if bit (0xCCCCCCCC :: u32) n then 2 else 0)
     + (if bit (0xAAAAAAAA :: u32) n then 1 else 0) = n) [0..<32]"
  by (simp add: upt_rec)

lemma indexOfSingleBit32_power:
  assumes "n < 32"
  shows "indexOfSingleBit32 (2 ^ n) = Some n"
proof -
  have "withoutRightmostBit32 (2 ^ n) = 0"
    using word_single_bit [of "2 ^ n :: u32"] assms by (auto simp: withoutRightmostBit32_def)
  moreover have "n \<in> set [0..<32]" using assms by simp
  ultimately show ?thesis
    using index_table assms
    by (simp add: indexOfSingleBit32_def single_bit_and list_all_iff push_bit_eq_mult)
qed

lemma indexOfSingleBit32_iff: "indexOfSingleBit32 x = Some n \<longleftrightarrow> n < 32 \<and> x = 2 ^ n"
proof
  assume "indexOfSingleBit32 x = Some n"
  then show "n < 32 \<and> x = 2 ^ n"
    by (auto simp: indexOfSingleBit32_def Let_def push_bit_eq_mult simp del: split_paired_Ex split: bind_splits)
next
  assume "n < 32 \<and> x = 2 ^ n"
  then show "indexOfSingleBit32 x = Some n" by (simp add: indexOfSingleBit32_power)
qed

lemma fold_halves:
  assumes "n < 64"
  shows "ucast (2 ^ n OR drop_bit 32 (2 ^ n :: u64)) = (2 ^ (n mod 32) :: u32)"
  by (rule bit_word_eqI)
    (use assms in \<open>auto simp: bit_ucast_iff bit_or_iff bit_drop_bit_eq bit_exp_iff mod_if split: if_splits\<close>)

lemma indexOfSingleBit64_power:
  assumes "n < 64"
  shows "indexOfSingleBit64 (2 ^ n) = Some n"
proof -
  have "2 ^ n AND (2 ^ n - 1) = (0 :: u64)"
    using word_single_bit [of "2 ^ n :: u64"] assms by auto
  moreover have "bit (push_bit 32 (mask 32) :: u64) n \<longleftrightarrow> 32 \<le> n"
    using assms by (auto simp: bit_push_bit_iff bit_mask_iff)
  then have "bit (0xFFFFFFFF00000000 :: u64) n \<longleftrightarrow> 32 \<le> n"
    by (simp add: mask_eq_exp_minus_1)
  moreover have "n mod 32 = (if 32 \<le> n then n - 32 else n)" using assms by (simp add: mod_if)
  ultimately show ?thesis
    using assms by (simp add: indexOfSingleBit64_def fold_halves indexOfSingleBit32_power single_bit_and
        push_bit_eq_mult [of n 1])
qed

lemma indexOfSingleBit64_iff: "indexOfSingleBit64 x = Some n \<longleftrightarrow> n < 64 \<and> x = 2 ^ n"
proof
  assume "indexOfSingleBit64 x = Some n"
  then show "n < 64 \<and> x = 2 ^ n"
    by (auto simp: indexOfSingleBit64_def Let_def push_bit_eq_mult split: bind_splits)
qed (simp add: indexOfSingleBit64_power)

text \<open>\<^verbatim>\<open>x & -x\<close> keeps the lowest set bit.\<close>

lemma word_isolate_rightmost:
  fixes x :: "'a::len word"
  assumes x: "bit x n" "\<And>m. m < n \<Longrightarrow> \<not> bit x m"
  shows "x AND - x = 2 ^ n"
proof -
  define y where "y = x AND NOT (2 ^ n)"
  have n: "n < LENGTH('a)" using x(1) by (rule bit_imp_le_length)
  have "y AND 2 ^ n = 0" by (simp add: y_def single_bit_and and.commute [of _ "2 ^ n"] n bit_and_iff bit_not_iff bit_exp_iff)
  then have "y + 2 ^ n = y OR 2 ^ n" by (rule disjunctive_add_eq_or)
  moreover have "y OR 2 ^ n = x"
    by (rule bit_word_eqI) (use x(1) in \<open>auto simp: y_def bit_or_iff bit_and_iff bit_not_iff bit_exp_iff\<close>)
  ultimately have "x - 1 = y + mask n" by (simp add: mask_eq_exp_minus_1)
  also have "y AND mask n = 0"
    by (rule bit_word_eqI) (use x(2) in \<open>auto simp: y_def bit_and_iff bit_mask_iff\<close>)
  then have "y + mask n = y OR mask n" by (rule disjunctive_add_eq_or)
  finally have "- x = NOT (y OR mask n)" by (simp add: minus_eq_not_minus_1)
  then show ?thesis
    by (intro bit_word_eqI)
      (use x n in \<open>auto simp: y_def bit_or_iff bit_and_iff bit_not_iff bit_exp_iff bit_mask_iff\<close>)
qed

lemma indexOfRightmostBit32_lowest:
  assumes "bit x n" "\<And>m. m < n \<Longrightarrow> \<not> bit x m"
  shows "indexOfRightmostBit32 x = Some n"
  using word_isolate_rightmost [OF assms] bit_imp_le_length [OF assms(1)]
  by (simp add: indexOfRightmostBit32_def isolateRightmostBit32_def indexOfSingleBit32_power)

lemma indexOfRightmostBit64_lowest:
  assumes "bit x n" "\<And>m. m < n \<Longrightarrow> \<not> bit x m"
  shows "indexOfRightmostBit64 x = Some n"
  using word_isolate_rightmost [OF assms] bit_imp_le_length [OF assms(1)]
  by (simp add: indexOfRightmostBit64_def isolateRightmostBit64_def indexOfSingleBit64_power)

end
