(* ===== verification/Object_State.thy ===== *)
theory Object_State
  imports Expr_Build Bit_Array Array_Cache Bits
begin

unbundle bit_operations_syntax

text \<open>
  \<^verbatim>\<open>ObjectState\<close> of \<^verbatim>\<open>lib/Core/Memory.cpp\<close>: the contents of a memory object.  A byte lives in the
  concrete store, in the table of known symbolic values, or only in the update list; a byte of
  the first two places may also be flushed to the update list.  A byte index outside the object
  and a read of an unset cache entry are undefined in the source and fail here.
\<close>

section \<open>State\<close>

record config =
  const_array_opt :: bool
  little_endian :: bool
  use_constant_arrays :: bool

text \<open>What the methods share: the array cache and the two static counters for array names.\<close>

record heap =
  arrays :: array_cache
  const_arr_id :: nat
  tmp_arr_id :: nat

record objstate =
  os_size :: nat
  concreteStore :: "u8 list"
  concreteMask :: "bitarray option"
  flushMask :: "bitarray option"
  knownSymbolics :: "expr option list option"
  upd_root :: "array option"
  upd_head :: unode
  readOnly :: bool

definition const8 :: "u8 \<Rightarrow> expr" where
  "const8 v = ConstantExpr (APInt 8 (uint v))"

definition const32 :: "nat \<Rightarrow> expr" where
  "const32 n = ConstantExpr (ap_mk 32 (int n))"

section \<open>Byte status\<close>

definition isByteConcrete :: "objstate \<Rightarrow> nat \<Rightarrow> bool" where
  "isByteConcrete os i = (case concreteMask os of None \<Rightarrow> True | Some m \<Rightarrow> BitArray_get m i)"

definition isByteFlushed :: "objstate \<Rightarrow> nat \<Rightarrow> bool" where
  "isByteFlushed os i = (case flushMask os of None \<Rightarrow> False | Some m \<Rightarrow> \<not> BitArray_get m i)"

definition known :: "objstate \<Rightarrow> nat \<Rightarrow> expr option" where
  "known os i = (case knownSymbolics os of None \<Rightarrow> None | Some ks \<Rightarrow> ks ! i)"

definition isByteKnownSymbolic :: "objstate \<Rightarrow> nat \<Rightarrow> bool" where
  "isByteKnownSymbolic os i \<longleftrightarrow> known os i \<noteq> None"

definition markByteConcrete :: "objstate \<Rightarrow> nat \<Rightarrow> objstate" where
  "markByteConcrete os i = os\<lparr>concreteMask := map_option (\<lambda>m. BitArray_set m i) (concreteMask os)\<rparr>"

definition markByteSymbolic :: "objstate \<Rightarrow> nat \<Rightarrow> objstate" where
  "markByteSymbolic os i =
     (let m = (case concreteMask os of None \<Rightarrow> BitArray_new (os_size os) True | Some m \<Rightarrow> m)
      in os\<lparr>concreteMask := Some (BitArray_unset m i)\<rparr>)"

definition markByteUnflushed :: "objstate \<Rightarrow> nat \<Rightarrow> objstate" where
  "markByteUnflushed os i = os\<lparr>flushMask := map_option (\<lambda>m. BitArray_set m i) (flushMask os)\<rparr>"

definition markByteFlushed :: "objstate \<Rightarrow> nat \<Rightarrow> objstate" where
  "markByteFlushed os i =
     (case flushMask os of
        None \<Rightarrow> os\<lparr>flushMask := Some (BitArray_new (os_size os) False)\<rparr>
      | Some m \<Rightarrow> os\<lparr>flushMask := Some (BitArray_unset m i)\<rparr>)"

definition setKnownSymbolic :: "objstate \<Rightarrow> nat \<Rightarrow> expr option \<Rightarrow> objstate" where
  "setKnownSymbolic os i v =
     (case knownSymbolics os of
        Some ks \<Rightarrow> os\<lparr>knownSymbolics := Some (ks[i := v])\<rparr>
      | None \<Rightarrow>
          (case v of None \<Rightarrow> os
           | Some e \<Rightarrow> os\<lparr>knownSymbolics := Some ((replicate (os_size os) None)[i := Some e])\<rparr>))"

section \<open>Construction\<close>

definition ObjectState_new :: "config \<Rightarrow> heap \<Rightarrow> nat \<Rightarrow> (objstate \<times> heap) option" where
  "ObjectState_new cfg h sz = do {
     let os = \<lparr>os_size = sz, concreteStore = replicate sz 0, concreteMask = None, flushMask = None,
               knownSymbolics = None, upd_root = None, upd_head = NullNode, readOnly = False\<rparr>;
     (if use_constant_arrays cfg then Some (os, h)
      else do {
        let n = Suc (tmp_arr_id h) mod 2 ^ 32;
        (a, c) \<leftarrow> CreateArray (arrays h) (''tmp_arr'' @ utostr n) sz [] 32 8;
        Some (os\<lparr>upd_root := Some a\<rparr>, h\<lparr>arrays := c, tmp_arr_id := n\<rparr>)
      })
   }"

definition makeConcrete :: "objstate \<Rightarrow> objstate" where
  "makeConcrete os = os\<lparr>concreteMask := None, flushMask := None, knownSymbolics := None\<rparr>"

definition makeSymbolic :: "objstate \<Rightarrow> objstate option" where
  "makeSymbolic os = do {
     assert_that (upd_head os = NullNode);
     Some (fold (\<lambda>i os. markByteFlushed (setKnownSymbolic (markByteSymbolic os i) i None) i)
             [0..<os_size os] os)
   }"

definition ObjectState_symbolic :: "nat \<Rightarrow> array \<Rightarrow> objstate option" where
  "ObjectState_symbolic sz a =
     makeSymbolic \<lparr>os_size = sz, concreteStore = replicate sz 0, concreteMask = None, flushMask = None,
       knownSymbolics = None, upd_root = Some a, upd_head = NullNode, readOnly = False\<rparr>"

definition ObjectState_clone :: "objstate \<Rightarrow> objstate option" where
  "ObjectState_clone os = do {
     assert_that (\<not> readOnly os);
     Some (os\<lparr>concreteMask := map_option (\<lambda>m. BitArray_copy m (os_size os)) (concreteMask os),
              flushMask := map_option (\<lambda>m. BitArray_copy m (os_size os)) (flushMask os),
              readOnly := False\<rparr>)
   }"

definition initializeToZero :: "objstate \<Rightarrow> objstate" where
  "initializeToZero os = (makeConcrete os)\<lparr>concreteStore := replicate (os_size os) 0\<rparr>"

definition initializeToRandom :: "objstate \<Rightarrow> objstate" where
  "initializeToRandom os = (makeConcrete os)\<lparr>concreteStore := replicate (os_size os) 0xAB\<rparr>"

section \<open>The update list\<close>

definition updates_extend :: "objstate \<Rightarrow> expr \<Rightarrow> expr \<Rightarrow> objstate option" where
  "updates_extend os index v = do {
     (case upd_root os of None \<Rightarrow> Some ()
      | Some a \<Rightarrow> assert_that (arr_domain a = getWidth index \<and> arr_range a = getWidth v));
     Some (os\<lparr>upd_head := UpdateNode (upd_head os) index v\<rparr>)
   }"

text \<open>The writes of an update list, oldest first.\<close>

primrec writes_of :: "unode \<Rightarrow> (expr \<times> expr) list" where
  "writes_of NullNode = []"
| "writes_of (UpdateNode nx i v) = writes_of nx @ [(i, v)]"

fun pull_concrete :: "apint list \<Rightarrow> (expr \<times> expr) list \<Rightarrow> (apint list \<times> (expr \<times> expr) list) option" where
  "pull_concrete Contents [] = Some (Contents, [])"
| "pull_concrete Contents ((i, v) # ws) =
     (case as_const i of None \<Rightarrow> Some (Contents, (i, v) # ws)
      | Some Index \<Rightarrow>
          (case as_const v of None \<Rightarrow> Some (Contents, (i, v) # ws)
           | Some Value \<Rightarrow> do {
               assert_that (bitWidth Index \<le> 64 \<and> nat (apval Index) < length Contents);
               pull_concrete (Contents[nat (apval Index) := Value]) ws
             }))"

definition getUpdates :: "objstate \<Rightarrow> heap \<Rightarrow> (array \<times> objstate \<times> heap) option" where
  "getUpdates os h =
     (case upd_root os of
        Some a \<Rightarrow> Some (a, os, h)
      | None \<Rightarrow> do {
          (Contents, rest) \<leftarrow> pull_concrete (replicate (os_size os) (APInt 8 0)) (writes_of (upd_head os));
          let n = Suc (const_arr_id h) mod 2 ^ 32;
          (a, c) \<leftarrow> CreateArray (arrays h) (''const_arr'' @ utostr n) (os_size os) Contents 32 8;
          os \<leftarrow> foldM (\<lambda>(i, v) os. updates_extend os i v) rest
                  (os\<lparr>upd_root := Some a, upd_head := NullNode\<rparr>);
          Some (a, os, h\<lparr>arrays := c, const_arr_id := n\<rparr>)
        })"

text \<open>\<^verbatim>\<open>fastRangeCheckOffset\<close> returns the whole object as the range of any offset.\<close>

definition fastRangeCheckOffset :: "objstate \<Rightarrow> expr \<Rightarrow> nat \<times> nat" where
  "fastRangeCheckOffset os offset = (0, os_size os)"

definition flush_value :: "objstate \<Rightarrow> nat \<Rightarrow> expr option" where
  "flush_value os offset = (if isByteConcrete os offset then Some (const8 (concreteStore os ! offset)) else known os offset)"

definition flush_byte_read :: "nat \<Rightarrow> objstate \<Rightarrow> objstate option" where
  "flush_byte_read offset os =
     (if isByteFlushed os offset then Some os
      else do {
        v \<leftarrow> flush_value os offset;
        os \<leftarrow> updates_extend os (const32 offset) v;
        Some (os\<lparr>flushMask := map_option (\<lambda>m. BitArray_unset m offset) (flushMask os)\<rparr>)
      })"

definition flushRangeForRead :: "nat \<Rightarrow> nat \<Rightarrow> objstate \<Rightarrow> objstate option" where
  "flushRangeForRead rangeBase rangeSize os =
     (let os = (case flushMask os of None \<Rightarrow> os\<lparr>flushMask := Some (BitArray_new (os_size os) True)\<rparr> | Some _ \<Rightarrow> os)
      in foldM flush_byte_read [rangeBase..<rangeBase + rangeSize] os)"

definition forget_byte :: "nat \<Rightarrow> objstate \<Rightarrow> objstate" where
  "forget_byte offset os =
     (if isByteConcrete os offset then markByteSymbolic os offset
      else if isByteKnownSymbolic os offset then setKnownSymbolic os offset None
      else os)"

definition flush_byte_write :: "nat \<Rightarrow> objstate \<Rightarrow> objstate option" where
  "flush_byte_write offset os =
     (if isByteFlushed os offset then Some (forget_byte offset os)
      else do {
        v \<leftarrow> flush_value os offset;
        os \<leftarrow> updates_extend os (const32 offset) v;
        let os = forget_byte offset os;
        Some (os\<lparr>flushMask := map_option (\<lambda>m. BitArray_unset m offset) (flushMask os)\<rparr>)
      })"

definition flushRangeForWrite :: "nat \<Rightarrow> nat \<Rightarrow> objstate \<Rightarrow> objstate option" where
  "flushRangeForWrite rangeBase rangeSize os =
     (let os = (case flushMask os of None \<Rightarrow> os\<lparr>flushMask := Some (BitArray_new (os_size os) True)\<rparr> | Some _ \<Rightarrow> os)
      in foldM flush_byte_write [rangeBase..<rangeBase + rangeSize] os)"

section \<open>Byte access\<close>

definition read8 :: "config \<Rightarrow> objstate \<Rightarrow> heap \<Rightarrow> nat \<Rightarrow> (expr \<times> objstate \<times> heap) option" where
  "read8 cfg os h offset = do {
     assert_that (offset < os_size os);
     (if isByteConcrete os offset then Some (const8 (concreteStore os ! offset), os, h)
      else
        (case known os offset of
           Some e \<Rightarrow> Some (e, os, h)
         | None \<Rightarrow> do {
             assert_that (isByteFlushed os offset);
             (a, os, h) \<leftarrow> getUpdates os h;
             e \<leftarrow> ReadExpr_create (const_array_opt cfg) (a, upd_head os) (const32 offset);
             Some (e, os, h)
           }))
   }"

definition read8_sym :: "config \<Rightarrow> objstate \<Rightarrow> heap \<Rightarrow> expr \<Rightarrow> (expr \<times> objstate \<times> heap) option" where
  "read8_sym cfg os h offset = do {
     assert_that (\<not> isConstantExpr offset);
     let (base, sz) = fastRangeCheckOffset os offset;
     os \<leftarrow> flushRangeForRead base sz os;
     (a, os, h) \<leftarrow> getUpdates os h;
     i \<leftarrow> ZExtExpr_create offset 32;
     e \<leftarrow> ReadExpr_create (const_array_opt cfg) (a, upd_head os) i;
     Some (e, os, h)
   }"

definition write8_byte :: "objstate \<Rightarrow> nat \<Rightarrow> u8 \<Rightarrow> objstate option" where
  "write8_byte os offset v = do {
     assert_that (offset < os_size os);
     let os = os\<lparr>concreteStore := (concreteStore os)[offset := v]\<rparr>;
     let os = setKnownSymbolic os offset None;
     let os = markByteConcrete os offset;
     Some (markByteUnflushed os offset)
   }"

definition write8 :: "objstate \<Rightarrow> nat \<Rightarrow> expr \<Rightarrow> objstate option" where
  "write8 os offset v =
     (case as_const v of
        Some CE \<Rightarrow> do {
          assert_that (bitWidth CE \<le> 8);
          write8_byte os offset (word_of_int (apval CE))
        }
      | None \<Rightarrow> do {
          assert_that (offset < os_size os);
          let os = setKnownSymbolic os offset (Some v);
          let os = markByteSymbolic os offset;
          Some (markByteUnflushed os offset)
        })"

definition write8_sym :: "objstate \<Rightarrow> expr \<Rightarrow> expr \<Rightarrow> objstate option" where
  "write8_sym os offset v = do {
     assert_that (\<not> isConstantExpr offset);
     let (base, sz) = fastRangeCheckOffset os offset;
     os \<leftarrow> flushRangeForWrite base sz os;
     i \<leftarrow> ZExtExpr_create offset 32;
     updates_extend os i v
   }"

section \<open>Access of any width\<close>

definition byte_index :: "config \<Rightarrow> nat \<Rightarrow> nat \<Rightarrow> nat" where
  "byte_index cfg NumBytes i = (if little_endian cfg then i else NumBytes - i - 1)"

definition concat_byte :: "expr option \<Rightarrow> expr \<Rightarrow> expr option" where
  "concat_byte Res Byte = (case Res of None \<Rightarrow> Some Byte | Some r \<Rightarrow> ConcatExpr_create Byte r)"

definition read_loop ::
  "config \<Rightarrow> (nat \<Rightarrow> objstate \<Rightarrow> heap \<Rightarrow> (expr \<times> objstate \<times> heap) option) \<Rightarrow> nat \<Rightarrow> objstate \<Rightarrow> heap \<Rightarrow>
   (expr option \<times> objstate \<times> heap) option" where
  "read_loop cfg rd NumBytes os h =
     foldM (\<lambda>i (Res, os, h). do {
         (Byte, os, h) \<leftarrow> rd (byte_index cfg NumBytes i) os h;
         r \<leftarrow> concat_byte Res Byte;
         Some (Some r, os, h)
       }) [0..<NumBytes] (None, os, h)"

text \<open>
  A read of zero bytes returns the null expression, which no caller can use; it is a failure
  here.
\<close>

definition read_const :: "config \<Rightarrow> objstate \<Rightarrow> heap \<Rightarrow> nat \<Rightarrow> width \<Rightarrow> (expr \<times> objstate \<times> heap) option" where
  "read_const cfg os h offset width =
     (if width = 1 then do {
        (e, os, h) \<leftarrow> read8 cfg os h offset;
        b \<leftarrow> ExtractExpr_create e 0 1;
        Some (b, os, h)
      }
      else do {
        let NumBytes = width div 8;
        assert_that (width = NumBytes * 8);
        (Res, os, h) \<leftarrow> read_loop cfg (\<lambda>idx os h. read8 cfg os h ((offset + idx) mod 2 ^ 32)) NumBytes os h;
        e \<leftarrow> Res;
        Some (e, os, h)
      })"

definition read_expr :: "config \<Rightarrow> objstate \<Rightarrow> heap \<Rightarrow> expr \<Rightarrow> width \<Rightarrow> (expr \<times> objstate \<times> heap) option" where
  "read_expr cfg os h offset width = do {
     offset \<leftarrow> ZExtExpr_create offset 32;
     (case as_const offset of
        Some CE \<Rightarrow> read_const cfg os h (nat (apval CE)) width
      | None \<Rightarrow>
          (if width = 1 then do {
             (e, os, h) \<leftarrow> read8_sym cfg os h offset;
             b \<leftarrow> ExtractExpr_create e 0 1;
             Some (b, os, h)
           }
           else do {
             let NumBytes = width div 8;
             assert_that (width = NumBytes * 8);
             (Res, os, h) \<leftarrow> read_loop cfg (\<lambda>idx os h. do {
                 o' \<leftarrow> AddExpr_create (const_array_opt cfg) offset (const32 idx);
                 read8_sym cfg os h o'
               }) NumBytes os h;
             e \<leftarrow> Res;
             Some (e, os, h)
           }))
   }"

text \<open>\<open>write_n n\<close> is \<^verbatim>\<open>write16\<close>, \<^verbatim>\<open>write32\<close> and \<^verbatim>\<open>write64\<close>, whose bodies differ in the number of bytes.\<close>

definition write_n :: "config \<Rightarrow> nat \<Rightarrow> objstate \<Rightarrow> nat \<Rightarrow> u64 \<Rightarrow> objstate option" where
  "write_n cfg NumBytes os offset v =
     foldM (\<lambda>i os. write8_byte os ((offset + byte_index cfg NumBytes i) mod 2 ^ 32) (ucast (drop_bit (8 * i) v)))
       [0..<NumBytes] os"

definition write_slow :: "config \<Rightarrow> objstate \<Rightarrow> nat \<Rightarrow> expr \<Rightarrow> objstate option" where
  "write_slow cfg os offset v =
     (let w = getWidth v
      in if w = 1 then do { b \<leftarrow> ZExtExpr_create v 8; write8 os offset b }
         else do {
           let NumBytes = w div 8;
           assert_that (w = NumBytes * 8);
           foldM (\<lambda>i os. do {
               b \<leftarrow> ExtractExpr_create v (8 * i) 8;
               write8 os ((offset + byte_index cfg NumBytes i) mod 2 ^ 32) b
             }) [0..<NumBytes] os
         })"

definition write_const :: "config \<Rightarrow> objstate \<Rightarrow> nat \<Rightarrow> expr \<Rightarrow> objstate option" where
  "write_const cfg os offset v =
     (case as_const v of
        Some CE \<Rightarrow>
          (let w = bitWidth CE; val = word_of_int (apval CE)
           in if w \<le> 64 \<and> isPowerOfTwo64 (of_nat w) then
                (if w = 1 \<or> w = 8 then write8_byte os offset (ucast val)
                 else if w = 16 then write_n cfg 2 os offset val
                 else if w = 32 then write_n cfg 4 os offset val
                 else if w = 64 then write_n cfg 8 os offset val
                 else None)
              else write_slow cfg os offset v)
      | None \<Rightarrow> write_slow cfg os offset v)"

definition write_expr :: "config \<Rightarrow> objstate \<Rightarrow> expr \<Rightarrow> expr \<Rightarrow> objstate option" where
  "write_expr cfg os offset v = do {
     offset \<leftarrow> ZExtExpr_create offset 32;
     (case as_const offset of
        Some CE \<Rightarrow> write_const cfg os (nat (apval CE)) v
      | None \<Rightarrow>
          (let w = getWidth v
           in if w = 1 then do { b \<leftarrow> ZExtExpr_create v 8; write8_sym os offset b }
              else do {
                let NumBytes = w div 8;
                assert_that (w = NumBytes * 8);
                foldM (\<lambda>i os. do {
                    o' \<leftarrow> AddExpr_create (const_array_opt cfg) offset (const32 (byte_index cfg NumBytes i));
                    b \<leftarrow> ExtractExpr_create v (8 * i) 8;
                    write8_sym os o' b
                  }) [0..<NumBytes] os
              }))
   }"

text \<open>
  \<^verbatim>\<open>readAll\<close> with the array of initial values that its callers pass: bytes whose value is known
  replace the initial ones.
\<close>

definition readAll :: "config \<Rightarrow> objstate \<Rightarrow> heap \<Rightarrow> array \<Rightarrow> (int list \<times> objstate \<times> heap) option" where
  "readAll cfg os h initialValues = do {
     assert_that (isConstantArray initialValues);
     foldM (\<lambda>i (res, os, h). do {
         assert_that (i < length (constantValues initialValues));
         let init = constantValues initialValues ! i;
         assert_that (bitWidth init \<le> 8);
         (byte, os, h) \<leftarrow> read8 cfg os h i;
         (case as_const byte of
            Some CE \<Rightarrow> do { assert_that (bitWidth CE \<le> 8); Some (res @ [apval CE], os, h) }
          | None \<Rightarrow> Some (res @ [apval init], os, h))
       }) [0..<os_size os] ([], os, h)
   }"

end
