(* ===== verification/Object_Inv.thy ===== *)
theory Object_Inv
  imports Object_State
begin

unbundle bit_operations_syntax

text \<open>
  Correctness of \<^verbatim>\<open>ObjectState\<close>.  \<open>byte_val\<close> is the abstract contents of an object: the value of
  each byte in an environment.  \<open>obj_inv\<close> is the representation invariant: the cache invariants
  stated in the source, and coherence, that a flushed byte has its value in the update list
  too.  Every operation keeps \<open>obj_inv\<close> and acts on \<open>byte_val\<close> as on a map from indices to
  values.
\<close>

section \<open>Abstract contents\<close>

primrec upd_val :: "env \<Rightarrow> (int \<Rightarrow> int) \<Rightarrow> unode \<Rightarrow> int \<Rightarrow> int" where
  "upd_val \<sigma> b NullNode i = b i"
| "upd_val \<sigma> b (UpdateNode nx idx v) i = (if eval \<sigma> idx = i then eval \<sigma> v else upd_val \<sigma> b nx i)"

lemma read_updates_upd_val: "read_updates \<sigma> un a i = upd_val \<sigma> (init_val \<sigma> a) un i"
  by (induction un rule: unode_induct) auto

definition base_val :: "env \<Rightarrow> array option \<Rightarrow> int \<Rightarrow> int" where
  "base_val \<sigma> root i = (case root of None \<Rightarrow> 0 | Some a \<Rightarrow> init_val \<sigma> a i)"

definition ul_val :: "env \<Rightarrow> objstate \<Rightarrow> int \<Rightarrow> int" where
  "ul_val \<sigma> os i = upd_val \<sigma> (base_val \<sigma> (upd_root os)) (upd_head os) i"

definition byte_val :: "env \<Rightarrow> objstate \<Rightarrow> nat \<Rightarrow> int" where
  "byte_val \<sigma> os i =
     (if isByteConcrete os i then uint (concreteStore os ! i)
      else case known os i of Some e \<Rightarrow> eval \<sigma> e | None \<Rightarrow> ul_val \<sigma> os (int i))"

section \<open>Invariant\<close>

definition wf_write :: "nat \<Rightarrow> expr \<times> expr \<Rightarrow> bool" where
  "wf_write sz w \<longleftrightarrow> wt (fst w) \<and> getWidth (fst w) = 32 \<and> wt (snd w) \<and> getWidth (snd w) = 8 \<and>
     (\<forall>c. fst w = ConstantExpr c \<longrightarrow> apval c < int sz)"

definition wf_root :: "array option \<Rightarrow> bool" where
  "wf_root r \<longleftrightarrow> (case r of None \<Rightarrow> True | Some a \<Rightarrow> wf_array a \<and> arr_domain a = 32 \<and> arr_range a = 8)"

definition tables_ok :: "objstate \<Rightarrow> bool" where
  "tables_ok os \<longleftrightarrow> 0 < os_size os \<and> os_size os \<le> 2 ^ 32 \<and> length (concreteStore os) = os_size os \<and>
     (\<forall>m. concreteMask os = Some m \<longrightarrow> BitArray_covers m (os_size os)) \<and>
     (\<forall>m. flushMask os = Some m \<longrightarrow> BitArray_covers m (os_size os)) \<and>
     (\<forall>ks. knownSymbolics os = Some ks \<longrightarrow> length ks = os_size os)"

definition exprs_ok :: "objstate \<Rightarrow> bool" where
  "exprs_ok os \<longleftrightarrow> wf_root (upd_root os) \<and> list_all (wf_write (os_size os)) (writes_of (upd_head os)) \<and>
     (\<forall>i e. i < os_size os \<longrightarrow> known os i = Some e \<longrightarrow> wt e \<and> getWidth e = 8)"

text \<open>The three cache invariants of the source; the first two are contrapositives.\<close>

definition cache_inv :: "objstate \<Rightarrow> bool" where
  "cache_inv os \<longleftrightarrow> (\<forall>i < os_size os.
     (isByteKnownSymbolic os i \<longrightarrow> \<not> isByteConcrete os i) \<and>
     (\<not> isByteFlushed os i \<longrightarrow> isByteConcrete os i \<or> isByteKnownSymbolic os i))"

definition coherent :: "objstate \<Rightarrow> bool" where
  "coherent os \<longleftrightarrow> (\<forall>\<sigma> i. wf_env \<sigma> \<longrightarrow> i < os_size os \<longrightarrow> isByteFlushed os i \<longrightarrow>
     byte_val \<sigma> os i = ul_val \<sigma> os (int i))"

definition obj_inv :: "objstate \<Rightarrow> bool" where
  "obj_inv os \<longleftrightarrow> tables_ok os \<and> exprs_ok os \<and> cache_inv os \<and> coherent os"

section \<open>The status operations\<close>

lemma byte_status:
  assumes "tables_ok os" "i < os_size os" "j < os_size os"
  shows "isByteConcrete (markByteConcrete os i) j \<longleftrightarrow> j = i \<or> isByteConcrete os j"
    and "isByteConcrete (markByteSymbolic os i) j \<longleftrightarrow> j \<noteq> i \<and> isByteConcrete os j"
    and "isByteFlushed (markByteUnflushed os i) j \<longleftrightarrow> j \<noteq> i \<and> isByteFlushed os j"
    and "known (setKnownSymbolic os i v) j = (if j = i then v else known os j)"
  using assms BitArray_unset_get [OF BitArray_covers_ops(1), of i "os_size os" j True]
  by (auto simp: tables_ok_def isByteConcrete_def isByteFlushed_def known_def markByteConcrete_def
      markByteSymbolic_def markByteUnflushed_def setKnownSymbolic_def BitArray_set_get BitArray_unset_get
      BitArray_new_get split: option.splits)

lemma status_frame [simp]:
  "isByteFlushed (markByteConcrete os i) = isByteFlushed os" "known (markByteConcrete os i) = known os"
  "isByteFlushed (markByteSymbolic os i) = isByteFlushed os" "known (markByteSymbolic os i) = known os"
  "isByteConcrete (markByteUnflushed os i) = isByteConcrete os" "known (markByteUnflushed os i) = known os"
  "isByteConcrete (setKnownSymbolic os i v) = isByteConcrete os"
  "isByteFlushed (setKnownSymbolic os i v) = isByteFlushed os"
  by (auto simp: fun_eq_iff isByteConcrete_def isByteFlushed_def known_def markByteConcrete_def
      markByteSymbolic_def markByteUnflushed_def setKnownSymbolic_def Let_def split: option.splits)

lemma fields_frame [simp]:
  "os_size (markByteConcrete os i) = os_size os" "concreteStore (markByteConcrete os i) = concreteStore os"
  "upd_root (markByteConcrete os i) = upd_root os" "upd_head (markByteConcrete os i) = upd_head os"
  "os_size (markByteSymbolic os i) = os_size os" "concreteStore (markByteSymbolic os i) = concreteStore os"
  "upd_root (markByteSymbolic os i) = upd_root os" "upd_head (markByteSymbolic os i) = upd_head os"
  "os_size (markByteUnflushed os i) = os_size os" "concreteStore (markByteUnflushed os i) = concreteStore os"
  "upd_root (markByteUnflushed os i) = upd_root os" "upd_head (markByteUnflushed os i) = upd_head os"
  "os_size (setKnownSymbolic os i v) = os_size os" "concreteStore (setKnownSymbolic os i v) = concreteStore os"
  "upd_root (setKnownSymbolic os i v) = upd_root os" "upd_head (setKnownSymbolic os i v) = upd_head os"
  by (auto simp: markByteConcrete_def markByteSymbolic_def markByteUnflushed_def setKnownSymbolic_def Let_def
      split: option.splits)

lemma tables_ok_ops [simp]:
  assumes "tables_ok os"
  shows "tables_ok (markByteConcrete os i)" "tables_ok (markByteSymbolic os i)"
    "tables_ok (markByteUnflushed os i)" "tables_ok (setKnownSymbolic os i v)"
  using assms
  by (auto simp: tables_ok_def markByteConcrete_def markByteSymbolic_def markByteUnflushed_def
      setKnownSymbolic_def Let_def BitArray_covers_ops split: option.splits)

lemma ul_val_frame [simp]:
  "ul_val \<sigma> (markByteConcrete os i) = ul_val \<sigma> os" "ul_val \<sigma> (markByteSymbolic os i) = ul_val \<sigma> os"
  "ul_val \<sigma> (markByteUnflushed os i) = ul_val \<sigma> os" "ul_val \<sigma> (setKnownSymbolic os i v) = ul_val \<sigma> os"
  by (simp_all add: fun_eq_iff ul_val_def)

lemma store_update_frame [simp]:
  "isByteConcrete (concreteStore_update f os) = isByteConcrete os"
  "isByteFlushed (concreteStore_update f os) = isByteFlushed os"
  "known (concreteStore_update f os) = known os" "ul_val \<sigma> (concreteStore_update f os) = ul_val \<sigma> os"
  by (auto simp: fun_eq_iff isByteConcrete_def isByteFlushed_def known_def ul_val_def)

lemma byte_val_cong:
  assumes "isByteConcrete os' i = isByteConcrete os i" "known os' i = known os i"
    "isByteConcrete os i \<Longrightarrow> concreteStore os' ! i = concreteStore os ! i"
    "ul_val \<sigma> os' (int i) = ul_val \<sigma> os (int i)"
  shows "byte_val \<sigma> os' i = byte_val \<sigma> os i"
  using assms by (simp add: byte_val_def split: option.split)

section \<open>Concrete offsets\<close>

lemma write8_byte_ok:
  assumes inv: "obj_inv os" and i: "offset < os_size os"
  shows "ok (write8_byte os offset v) (\<lambda>os'. obj_inv os' \<and> os_size os' = os_size os \<and>
    (\<forall>\<sigma> j. j < os_size os \<longrightarrow> byte_val \<sigma> os' j = (if j = offset then uint v else byte_val \<sigma> os j)))"
proof -
  let ?o1 = "os\<lparr>concreteStore := (concreteStore os)[offset := v]\<rparr>"
  let ?o2 = "setKnownSymbolic ?o1 offset None"
  let ?o3 = "markByteConcrete ?o2 offset"
  let ?o4 = "markByteUnflushed ?o3 offset"
  have t1: "tables_ok ?o1" using inv by (auto simp: obj_inv_def tables_ok_def)
  then have t: "tables_ok ?o2" "tables_ok ?o3" "tables_ok ?o4" by simp_all
  have st: "isByteConcrete ?o4 j \<longleftrightarrow> j = offset \<or> isByteConcrete os j"
    "isByteFlushed ?o4 j \<longleftrightarrow> j \<noteq> offset \<and> isByteFlushed os j"
    "known ?o4 j = (if j = offset then None else known os j)" if "j < os_size os" for j
    using byte_status(1) [OF t(1), of offset j] byte_status(3) [OF t(2), of offset j]
      byte_status(4) [OF t1, of offset j] that i by simp_all
  have bv: "byte_val \<sigma> ?o4 j = (if j = offset then uint v else byte_val \<sigma> os j)" if "j < os_size os" for \<sigma> j
  proof (cases "j = offset")
    case True
    then show ?thesis using st [OF that] i inv by (simp add: byte_val_def obj_inv_def tables_ok_def)
  next
    case False
    then show ?thesis using st [OF that] by (auto intro!: byte_val_cong)
  qed
  have "obj_inv ?o4"
    using inv t(3) i bv st
    by (auto simp: obj_inv_def exprs_ok_def cache_inv_def coherent_def isByteKnownSymbolic_def split: if_splits)
  with bv i show ?thesis by (simp add: write8_byte_def)
qed

lemma write8_ok:
  assumes inv: "obj_inv os" and i: "offset < os_size os" and v: "wt v" "getWidth v = 8"
  shows "ok (write8 os offset v) (\<lambda>os'. obj_inv os' \<and> os_size os' = os_size os \<and>
    (\<forall>\<sigma> j. wf_env \<sigma> \<longrightarrow> j < os_size os \<longrightarrow> byte_val \<sigma> os' j = (if j = offset then eval \<sigma> v else byte_val \<sigma> os j)))"
proof (cases "as_const v")
  case (Some CE)
  then have "uint (word_of_int (apval CE) :: u8) = apval CE" "bitWidth CE \<le> 8"
    using v by (auto simp: wf_ap_def in_width_def uint_word_of_int_eq take_bit_int_eq_self)
  then show ?thesis
    using write8_byte_ok [OF inv i, of "word_of_int (apval CE)"] Some
    by (auto simp: write8_def elim!: ok_mono)
next
  case None
  let ?o1 = "setKnownSymbolic os offset (Some v)"
  let ?o2 = "markByteSymbolic ?o1 offset"
  let ?o3 = "markByteUnflushed ?o2 offset"
  have t0: "tables_ok os" using inv by (simp add: obj_inv_def)
  then have t: "tables_ok ?o1" "tables_ok ?o2" "tables_ok ?o3" by simp_all
  have st: "isByteConcrete ?o3 j \<longleftrightarrow> j \<noteq> offset \<and> isByteConcrete os j"
    "isByteFlushed ?o3 j \<longleftrightarrow> j \<noteq> offset \<and> isByteFlushed os j"
    "known ?o3 j = (if j = offset then Some v else known os j)" if "j < os_size os" for j
    using byte_status(2) [OF t(1), of offset j] byte_status(3) [OF t(2), of offset j]
      byte_status(4) [OF t0, of offset j] that i by simp_all
  have bv: "byte_val \<sigma> ?o3 j = (if j = offset then eval \<sigma> v else byte_val \<sigma> os j)" if "j < os_size os" for \<sigma> j
  proof (cases "j = offset")
    case True
    then show ?thesis using st [OF that] by (simp add: byte_val_def)
  next
    case False
    then show ?thesis using st [OF that] by (auto intro!: byte_val_cong)
  qed
  have "obj_inv ?o3"
    using inv t(3) i bv st v
    by (auto simp: obj_inv_def exprs_ok_def cache_inv_def coherent_def isByteKnownSymbolic_def split: if_splits)
  with bv i None show ?thesis by (simp add: write8_def)
qed

section \<open>Materialising the constant array\<close>

definition write_step :: "env \<Rightarrow> int \<Rightarrow> int \<Rightarrow> expr \<times> expr \<Rightarrow> int" where
  "write_step \<sigma> i acc w = (if eval \<sigma> (fst w) = i then eval \<sigma> (snd w) else acc)"

lemma upd_val_writes: "upd_val \<sigma> b un i = foldl (write_step \<sigma> i) (b i) (writes_of un)"
  by (induction un rule: unode_induct) (auto simp: write_step_def)

definition wf_contents :: "nat \<Rightarrow> apint list \<Rightarrow> bool" where
  "wf_contents sz cs \<longleftrightarrow> length cs = sz \<and> (\<forall>c \<in> set cs. wf_ap c \<and> bitWidth c = 8)"

lemma pull_concrete_ok:
  assumes "list_all (wf_write sz) ws" "wf_contents sz cs"
  shows "ok (pull_concrete cs ws) (\<lambda>(cs', rest). wf_contents sz cs' \<and> list_all (wf_write sz) rest \<and>
    (\<forall>\<sigma> j. j < sz \<longrightarrow> foldl (write_step \<sigma> (int j)) (apval (cs' ! j)) rest =
       foldl (write_step \<sigma> (int j)) (apval (cs ! j)) ws))"
  using assms
proof (induction cs ws rule: pull_concrete.induct)
  case (2 cs i v ws)
  show ?case
  proof (cases "as_const i = None \<or> as_const v = None")
    case True
    then show ?thesis using 2(2,3) by (auto split: option.split)
  next
    case False
    then obtain ci cv where c: "as_const i = Some ci" "as_const v = Some cv" by auto
    with 2(2) have ci: "0 \<le> apval ci" "apval ci < int sz" "bitWidth ci = 32" and cv: "wf_ap cv" "bitWidth cv = 8"
      by (auto simp: wf_write_def wf_ap_def in_width_def)
    let ?cs = "cs[nat (apval ci) := cv]"
    have wf: "wf_contents sz ?cs"
      using 2(3) cv by (auto simp: wf_contents_def dest: set_update_subset_insert [THEN subsetD])
    have "apval (?cs ! j) = write_step \<sigma> (int j) (apval (cs ! j)) (i, v)" if "j < sz" for \<sigma> j
      using c ci 2(3) that by (auto simp: write_step_def wf_contents_def nth_list_update nat_eq_iff)
    moreover have "ok (pull_concrete ?cs ws) (\<lambda>(cs', rest). wf_contents sz cs' \<and> list_all (wf_write sz) rest \<and>
      (\<forall>\<sigma> j. j < sz \<longrightarrow> foldl (write_step \<sigma> (int j)) (apval (cs' ! j)) rest =
         foldl (write_step \<sigma> (int j)) (apval (?cs ! j)) ws))"
      using 2(1) [OF c _ _ wf] 2(2) by (cases "bitWidth ci \<le> 64 \<and> nat (apval ci) < length cs")
        (use ci 2(3) in \<open>auto simp: wf_contents_def\<close>)
    moreover have "nat (apval ci) < length cs" using ci 2(3) by (auto simp: wf_contents_def)
    ultimately show ?thesis
      using c ci(3) by (auto elim!: ok_mono)
  qed
qed auto

lemma updates_extend_Some:
  assumes "upd_root os = Some a" "arr_domain a = 32" "arr_range a = 8" "getWidth i = 32" "getWidth v = 8"
  shows "updates_extend os i v = Some (os\<lparr>upd_head := UpdateNode (upd_head os) i v\<rparr>)"
  using assms by (simp add: updates_extend_def)

lemma foldM_extend:
  assumes "upd_root os = Some a" "arr_domain a = 32" "arr_range a = 8" "list_all (wf_write sz) ws"
  shows "ok (foldM (\<lambda>(i, v) os. updates_extend os i v) ws os)
    (\<lambda>os'. \<exists>un. os' = os\<lparr>upd_head := un\<rparr> \<and> writes_of un = writes_of (upd_head os) @ ws)"
  using assms
proof (induction ws arbitrary: os)
  case Nil
  show ?case by (auto intro!: exI [of _ "upd_head os"])
next
  case (Cons w ws)
  obtain i v where w: "w = (i, v)" by fastforce
  with Cons.prems(4) have "getWidth i = 32" "getWidth v = 8" by (auto simp: wf_write_def)
  then have e: "updates_extend os i v = Some (os\<lparr>upd_head := UpdateNode (upd_head os) i v\<rparr>)"
    using Cons.prems by (simp add: updates_extend_Some)
  show ?case
    using Cons.IH [of "os\<lparr>upd_head := UpdateNode (upd_head os) i v\<rparr>"] Cons.prems w e
    by (auto elim!: ok_mono)
qed

lemma frame_updates [simp]:
  "isByteConcrete (os\<lparr>upd_root := r\<rparr>) = isByteConcrete os" "isByteFlushed (os\<lparr>upd_root := r\<rparr>) = isByteFlushed os"
  "known (os\<lparr>upd_root := r\<rparr>) = known os" "tables_ok (os\<lparr>upd_root := r\<rparr>) = tables_ok os"
  "isByteConcrete (os\<lparr>upd_head := un\<rparr>) = isByteConcrete os" "isByteFlushed (os\<lparr>upd_head := un\<rparr>) = isByteFlushed os"
  "known (os\<lparr>upd_head := un\<rparr>) = known os" "tables_ok (os\<lparr>upd_head := un\<rparr>) = tables_ok os"
  by (auto simp: fun_eq_iff isByteConcrete_def isByteFlushed_def known_def tables_ok_def)

text \<open>Replacing the update list by one with the same contents keeps everything else.\<close>

lemma obj_inv_new_updates:
  assumes inv: "obj_inv os" and r: "wf_root r" and un: "list_all (wf_write (os_size os)) (writes_of un)"
    and ul: "\<And>\<sigma> j. j < os_size os \<Longrightarrow> ul_val \<sigma> (os\<lparr>upd_root := r, upd_head := un\<rparr>) (int j) = ul_val \<sigma> os (int j)"
  shows "obj_inv (os\<lparr>upd_root := r, upd_head := un\<rparr>)"
    and "\<And>\<sigma> j. j < os_size os \<Longrightarrow> byte_val \<sigma> (os\<lparr>upd_root := r, upd_head := un\<rparr>) j = byte_val \<sigma> os j"
proof -
  show bv: "byte_val \<sigma> (os\<lparr>upd_root := r, upd_head := un\<rparr>) j = byte_val \<sigma> os j" if "j < os_size os" for \<sigma> j
    using ul [OF that] by (intro byte_val_cong) simp_all
  show "obj_inv (os\<lparr>upd_root := r, upd_head := un\<rparr>)"
    using inv r un bv ul
    by (auto simp: obj_inv_def exprs_ok_def cache_inv_def coherent_def isByteKnownSymbolic_def)
qed

lemma getUpdates_ok:
  assumes inv: "obj_inv os"
  shows "ok (getUpdates os h) (\<lambda>(a, os', h'). \<exists>un. os' = os\<lparr>upd_root := Some a, upd_head := un\<rparr> \<and> obj_inv os' \<and>
    (\<forall>\<sigma> j. j < os_size os \<longrightarrow> byte_val \<sigma> os' j = byte_val \<sigma> os j \<and> ul_val \<sigma> os' (int j) = ul_val \<sigma> os (int j)))"
proof (cases "upd_root os")
  case (Some a)
  then show ?thesis
    using inv by (auto simp: getUpdates_def intro!: exI [of _ "upd_head os"])
next
  case None
  have ws: "list_all (wf_write (os_size os)) (writes_of (upd_head os))" and sz: "0 < os_size os" "os_size os \<le> 2 ^ 32"
    using inv by (auto simp: obj_inv_def exprs_ok_def tables_ok_def)
  have "wf_contents (os_size os) (replicate (os_size os) (APInt 8 0))"
    by (auto simp: wf_contents_def)
  from pull_concrete_ok [OF ws this] obtain cs rest where p:
    "pull_concrete (replicate (os_size os) (APInt 8 0)) (writes_of (upd_head os)) = Some (cs, rest)"
    "wf_contents (os_size os) cs" "list_all (wf_write (os_size os)) rest"
    "\<And>\<sigma> j. j < os_size os \<Longrightarrow> foldl (write_step \<sigma> (int j)) (apval (cs ! j)) rest =
       foldl (write_step \<sigma> (int j)) 0 (writes_of (upd_head os))"
    by (auto simp: ok_iff)
  define n where "n = Suc (const_arr_id h) mod 2 ^ 32"
  have cs: "cs \<noteq> []" "length cs = os_size os" "\<forall>k \<in> set cs. bitWidth k = 8" "\<forall>k \<in> set cs. wf_ap k"
    using p(2) sz by (auto simp: wf_contents_def)
  then obtain a c where a: "CreateArray (arrays h) (''const_arr'' @ utostr n) (os_size os) cs 32 8 = Some (a, c)"
    by (auto simp: CreateArray_def Array_create_def isSymbolicArray_def)
  then have af: "constantValues a = cs" "arr_size a = os_size os" "arr_domain a = 32" "arr_range a = 8"
    using cs(1) by (auto elim!: CreateArray_cases)
  then have wfa: "wf_root (Some a)" using cs sz by (auto simp: wf_root_def wf_array_def)
  let ?os = "os\<lparr>upd_root := Some a, upd_head := NullNode\<rparr>"
  from foldM_extend [of ?os a, OF _ af(3,4) p(3)]
  obtain un where un: "foldM (\<lambda>(i, v) os. updates_extend os i v) rest ?os = Some (?os\<lparr>upd_head := un\<rparr>)"
    "writes_of un = rest"
    by (auto simp: ok_iff)
  let ?os' = "os\<lparr>upd_root := Some a, upd_head := un\<rparr>"
  have ul: "ul_val \<sigma> ?os' (int j) = ul_val \<sigma> os (int j)" if "j < os_size os" for \<sigma> j
  proof -
    have "init_val \<sigma> a (int j) = apval (cs ! j)"
      using that cs(1) af by (simp add: init_val_def isConstantArray_def isSymbolicArray_def)
    then show ?thesis using p(4) [OF that] un(2) None by (simp add: ul_val_def upd_val_writes base_val_def)
  qed
  have "list_all (wf_write (os_size os)) (writes_of un)" using un(2) p(3) by simp
  note I = obj_inv_new_updates [OF inv wfa this ul]
  have "getUpdates os h = Some (a, ?os', h\<lparr>arrays := c, const_arr_id := n\<rparr>)"
    using None p(1) a un(1) by (simp add: getUpdates_def n_def)
  with I ul show ?thesis by auto
qed

section \<open>Reads at a concrete offset\<close>

lemma wt_updates_writes:
  assumes "arr_domain a = 32" "arr_range a = 8" "list_all (wf_write sz) (writes_of un)"
  shows "wt_updates un a"
  using assms(3) by (induction un rule: unode_induct) (auto simp: wf_write_def assms(1,2))

lemma const32_denotes: "n < 2 ^ 32 \<Longrightarrow> denotes A (const32 n) 32 (\<lambda>_. int n)"
  by (simp add: const32_def take_bit_int_eq_self)

lemma const8_denotes: "denotes A (const8 v) 8 (\<lambda>_. uint v)"
  using uint_lt2p [of v] by (auto simp: const8_def in_width_def)

lemma const8_props [simp]: "wt (const8 v)" "getWidth (const8 v) = 8" "eval \<sigma> (const8 v) = uint v"
  using const8_denotes [of "\<lambda>_. True" v] by (auto simp: const8_def)

lemma const32_props [simp]: "wt (const32 n)" "getWidth (const32 n) = 32"
  by (auto simp: const32_def)

lemma eval_const32 [simp]: "n < 2 ^ 32 \<Longrightarrow> eval \<sigma> (const32 n) = int n"
  by (simp add: const32_def take_bit_int_eq_self)

lemma read_ul_ok:
  assumes inv: "obj_inv os" and a: "upd_root os = Some a" and i: "denotes A i 32 g"
    and un: "list_all (wf_write (os_size os)) (writes_of (upd_head os))"
  shows "ok (ReadExpr_create False (a, upd_head os) i) (\<lambda>e. denotes A e 8 (\<lambda>\<sigma>. ul_val \<sigma> os (g \<sigma>)))"
proof -
  have "wf_array a" "arr_domain a = 32" "arr_range a = 8"
    using inv a by (auto simp: obj_inv_def exprs_ok_def wf_root_def)
  then show ?thesis
    using ReadExpr_create_ok [of A i a g "upd_head os"] i wt_updates_writes [OF _ _ un] a
    by (simp add: read_updates_upd_val ul_val_def base_val_def [abs_def])
qed

definition same_bytes :: "objstate \<Rightarrow> objstate \<Rightarrow> bool" where
  "same_bytes os os' \<longleftrightarrow> os_size os' = os_size os \<and>
     (\<forall>\<sigma> j. wf_env \<sigma> \<longrightarrow> j < os_size os \<longrightarrow> byte_val \<sigma> os' j = byte_val \<sigma> os j)"

lemma same_bytes_refl [simp]: "same_bytes os os"
  by (simp add: same_bytes_def)

lemma same_bytes_trans: "same_bytes a b \<Longrightarrow> same_bytes b c \<Longrightarrow> same_bytes a c"
  by (simp add: same_bytes_def)

lemma read8_ok:
  assumes inv: "obj_inv os" and i: "offset < os_size os" and cfg: "\<not> const_array_opt cfg"
  shows "ok (read8 cfg os h offset) (\<lambda>(e, os', h'). denotes A e 8 (\<lambda>\<sigma>. byte_val \<sigma> os offset) \<and>
    obj_inv os' \<and> same_bytes os os')"
proof (cases "isByteConcrete os offset \<or> known os offset \<noteq> None")
  case True
  then show ?thesis
    using inv i const8_denotes [of A "concreteStore os ! offset"]
    by (auto simp: read8_def byte_val_def obj_inv_def exprs_ok_def denotes_def split: option.split)
next
  case False
  then have fl: "isByteFlushed os offset" using inv i by (auto simp: obj_inv_def cache_inv_def isByteKnownSymbolic_def)
  from getUpdates_ok [OF inv, of h] obtain a os' h' un where g:
    "getUpdates os h = Some (a, os', h')" "os' = os\<lparr>upd_root := Some a, upd_head := un\<rparr>"
    "obj_inv os'" "\<And>\<sigma> j. j < os_size os \<Longrightarrow> byte_val \<sigma> os' j = byte_val \<sigma> os j"
    "\<And>\<sigma> j. j < os_size os \<Longrightarrow> ul_val \<sigma> os' (int j) = ul_val \<sigma> os (int j)"
    by (auto simp: ok_iff)
  have "offset < 2 ^ 32" using inv i by (auto simp: obj_inv_def tables_ok_def)
  then have "ok (ReadExpr_create False (a, upd_head os') (const32 offset)) (\<lambda>e. denotes A e 8 (\<lambda>\<sigma>. ul_val \<sigma> os' (int offset)))"
    using read_ul_ok [OF g(3) _ const32_denotes, of a offset] g(2,3) by (simp add: obj_inv_def exprs_ok_def)
  moreover have "ul_val \<sigma> os' (int offset) = byte_val \<sigma> os offset" for \<sigma>
    using g(5) [OF i] False by (simp add: byte_val_def)
  ultimately show ?thesis
    using False fl i g cfg by (auto simp: read8_def same_bytes_def ok_bind_iff elim!: ok_mono simp del: split_paired_All)
qed

section \<open>Flushing\<close>

lemma ul_val_extend:
  "ul_val \<sigma> (os\<lparr>upd_head := UpdateNode (upd_head os) i v\<rparr>) j = (if eval \<sigma> i = j then eval \<sigma> v else ul_val \<sigma> os j)"
  by (simp add: ul_val_def)

lemma updates_extend_ok:
  assumes "obj_inv os" "getWidth i = 32" "getWidth v = 8"
  shows "updates_extend os i v = Some (os\<lparr>upd_head := UpdateNode (upd_head os) i v\<rparr>)"
  using assms by (auto simp: updates_extend_def obj_inv_def exprs_ok_def wf_root_def split: option.splits)

lemma flush_value_ok:
  assumes "obj_inv os" "i < os_size os" "\<not> isByteFlushed os i"
  shows "\<exists>v. flush_value os i = Some v \<and> wt v \<and> getWidth v = 8 \<and> (\<forall>\<sigma>. eval \<sigma> v = byte_val \<sigma> os i)"
  using assms
  by (auto simp: flush_value_def obj_inv_def cache_inv_def isByteKnownSymbolic_def exprs_ok_def byte_val_def)

definition flush_bit :: "nat \<Rightarrow> objstate \<Rightarrow> objstate" where
  "flush_bit i os = os\<lparr>flushMask := map_option (\<lambda>m. BitArray_unset m i) (flushMask os)\<rparr>"

lemma flush_bit_status:
  assumes "tables_ok os" "flushMask os \<noteq> None" "i < os_size os" "j < os_size os"
  shows "isByteFlushed (flush_bit i os) j \<longleftrightarrow> j = i \<or> isByteFlushed os j"
  using assms by (auto simp: flush_bit_def isByteFlushed_def tables_ok_def BitArray_unset_get)

lemma flush_bit_frame [simp]:
  "isByteConcrete (flush_bit i os) = isByteConcrete os" "known (flush_bit i os) = known os"
  "os_size (flush_bit i os) = os_size os" "concreteStore (flush_bit i os) = concreteStore os"
  "upd_root (flush_bit i os) = upd_root os" "upd_head (flush_bit i os) = upd_head os"
  "ul_val \<sigma> (flush_bit i os) = ul_val \<sigma> os" "flushMask (flush_bit i os) = None \<longleftrightarrow> flushMask os = None"
  by (auto simp: flush_bit_def fun_eq_iff isByteConcrete_def known_def ul_val_def)

lemma flush_bit_tables [simp]: "tables_ok os \<Longrightarrow> tables_ok (flush_bit i os)"
  by (auto simp: tables_ok_def flush_bit_def BitArray_covers_ops)

text \<open>The state after an unflushed byte has been appended to the update list.\<close>

lemma flush_append:
  assumes inv: "obj_inv os" and m: "flushMask os \<noteq> None" and i: "i < os_size os" and nf: "\<not> isByteFlushed os i"
    and v: "wt v" "getWidth v = 8" "\<And>\<sigma>. eval \<sigma> v = byte_val \<sigma> os i"
  defines "os' \<equiv> flush_bit i (os\<lparr>upd_head := UpdateNode (upd_head os) (const32 i) v\<rparr>)"
  shows "tables_ok os'" "exprs_ok os'" "flushMask os' \<noteq> None"
    and "\<And>j. j < os_size os \<Longrightarrow> isByteFlushed os' j \<longleftrightarrow> j = i \<or> isByteFlushed os j"
    and "\<And>\<sigma> j. j < os_size os \<Longrightarrow> byte_val \<sigma> os' j = byte_val \<sigma> os j"
    and "\<And>\<sigma> j. wf_env \<sigma> \<Longrightarrow> j < os_size os \<Longrightarrow> isByteFlushed os' j \<Longrightarrow> ul_val \<sigma> os' (int j) = byte_val \<sigma> os j"
proof -
  have i32: "i < 2 ^ 32" using inv i by (auto simp: obj_inv_def tables_ok_def)
  show t: "tables_ok os'" using inv by (simp add: os'_def obj_inv_def)
  show "flushMask os' \<noteq> None" using m by (simp add: os'_def)
  show fl: "isByteFlushed os' j \<longleftrightarrow> j = i \<or> isByteFlushed os j" if "j < os_size os" for j
    using flush_bit_status [of "os\<lparr>upd_head := UpdateNode (upd_head os) (const32 i) v\<rparr>" i j] inv m i that
    by (simp add: os'_def obj_inv_def)
  show "exprs_ok os'"
    using inv v i i32 by (auto simp: os'_def obj_inv_def exprs_ok_def wf_write_def const32_def take_bit_int_eq_self)
  have ul: "ul_val \<sigma> os' (int j) = (if j = i then byte_val \<sigma> os i else ul_val \<sigma> os (int j))" for \<sigma> j
    using i32 v(3) by (auto simp: os'_def ul_val_extend)
  show bv: "byte_val \<sigma> os' j = byte_val \<sigma> os j" if "j < os_size os" for \<sigma> j
  proof (cases "j = i")
    case True
    then have "isByteConcrete os j \<or> known os j \<noteq> None"
      using inv nf i by (auto simp: obj_inv_def cache_inv_def isByteKnownSymbolic_def)
    then show ?thesis by (auto simp: byte_val_def os'_def split: option.split)
  next
    case False
    then show ?thesis using ul [of \<sigma> j] by (intro byte_val_cong) (simp_all add: os'_def)
  qed
  show "ul_val \<sigma> os' (int j) = byte_val \<sigma> os j" if "wf_env \<sigma>" "j < os_size os" "isByteFlushed os' j" for \<sigma> j
    using that ul fl inv by (auto simp: obj_inv_def coherent_def)
qed

lemma flush_byte_read_ok:
  assumes inv: "obj_inv os" and m: "flushMask os \<noteq> None" and i: "i < os_size os"
  shows "ok (flush_byte_read i os) (\<lambda>os'. obj_inv os' \<and> same_bytes os os' \<and> flushMask os' \<noteq> None \<and>
    (\<forall>j < os_size os. isByteFlushed os' j \<longleftrightarrow> j = i \<or> isByteFlushed os j))"
proof (cases "isByteFlushed os i")
  case True
  then show ?thesis using assms by (auto simp: flush_byte_read_def)
next
  case False
  then obtain v where v: "flush_value os i = Some v" "wt v" "getWidth v = 8" "\<And>\<sigma>. eval \<sigma> v = byte_val \<sigma> os i"
    using flush_value_ok [OF inv i] by blast
  note fa = flush_append [OF inv m i False v(2-4)]
  let ?os = "flush_bit i (os\<lparr>upd_head := UpdateNode (upd_head os) (const32 i) v\<rparr>)"
  have "obj_inv ?os"
    using fa inv i by (auto simp: obj_inv_def cache_inv_def coherent_def isByteKnownSymbolic_def)
  then show ?thesis
    using False v updates_extend_ok [OF inv, of "const32 i" v] fa
    by (auto simp: flush_byte_read_def same_bytes_def flush_bit_def)
qed

end
