(* ===== verification/Object_Flush.thy ===== *)
theory Object_Flush
  imports Object_Inv
begin

text \<open>
  Symbolic offsets.  A read at a symbolic offset flushes every byte to the update list, a write
  also forgets the cached value; then the update list alone is the contents of the object.
\<close>

section \<open>Flushing a range\<close>

lemma new_mask_ok:
  assumes inv: "obj_inv os"
  defines "os' \<equiv> (case flushMask os of None \<Rightarrow> os\<lparr>flushMask := Some (BitArray_new (os_size os) True)\<rparr> | Some _ \<Rightarrow> os)"
  shows "obj_inv os'" "same_bytes os os'" "flushMask os' \<noteq> None"
    "\<And>j. j < os_size os \<Longrightarrow> isByteFlushed os' j = isByteFlushed os j"
proof -
  show fl: "isByteFlushed os' j = isByteFlushed os j" if "j < os_size os" for j
    using that by (auto simp: os'_def isByteFlushed_def BitArray_new_get split: option.split)
  show "flushMask os' \<noteq> None" by (simp add: os'_def split: option.split)
  have fr: "os_size os' = os_size os" "isByteConcrete os' = isByteConcrete os" "known os' = known os"
    "concreteStore os' = concreteStore os" "upd_root os' = upd_root os" "upd_head os' = upd_head os"
    by (simp_all add: os'_def fun_eq_iff isByteConcrete_def known_def split: option.split)
  then have ul: "ul_val \<sigma> os' j = ul_val \<sigma> os j" for \<sigma> j by (simp add: ul_val_def)
  have bv: "byte_val \<sigma> os' j = byte_val \<sigma> os j" for \<sigma> j by (rule byte_val_cong) (simp_all add: fr ul)
  then show "same_bytes os os'" by (simp add: same_bytes_def fr)
  have "tables_ok os'"
    using inv by (auto simp: obj_inv_def tables_ok_def os'_def BitArray_covers_ops split: option.split)
  then show "obj_inv os'"
    using inv fl fr ul bv
    by (auto simp: obj_inv_def exprs_ok_def cache_inv_def coherent_def isByteKnownSymbolic_def)
qed

lemma flushRangeForRead_ok:
  assumes inv: "obj_inv os" and r: "b + n \<le> os_size os"
  shows "ok (flushRangeForRead b n os) (\<lambda>os'. obj_inv os' \<and> same_bytes os os' \<and>
    (\<forall>j \<in> {b..<b + n}. isByteFlushed os' j))"
proof -
  let ?os = "case flushMask os of None \<Rightarrow> os\<lparr>flushMask := Some (BitArray_new (os_size os) True)\<rparr> | Some _ \<Rightarrow> os"
  let ?I = "\<lambda>k os'. obj_inv os' \<and> same_bytes os os' \<and> flushMask os' \<noteq> None \<and> (\<forall>j \<in> {b..<b + k}. isByteFlushed os' j)"
  have "ok (foldM flush_byte_read [b..<b + n] ?os) (?I (length [b..<b + n]))"
  proof (rule foldM_ok [where I = ?I])
    show "?I 0 ?os" using new_mask_ok [OF inv] by simp
  next
    fix k s
    assume k: "k < length [b..<b + n]" and I: "?I k s"
    then have sz: "os_size s = os_size os" by (simp add: same_bytes_def)
    have "ok (flush_byte_read (b + k) s) (\<lambda>os'. obj_inv os' \<and> same_bytes s os' \<and> flushMask os' \<noteq> None \<and>
        (\<forall>j < os_size s. isByteFlushed os' j \<longleftrightarrow> j = b + k \<or> isByteFlushed s j))"
      using flush_byte_read_ok [of s "b + k"] I k r sz by simp
    then show "ok (flush_byte_read ([b..<b + n] ! k) s) (?I (Suc k))"
      using I k r sz by (auto elim!: ok_mono intro: same_bytes_trans)
  qed
  then show ?thesis by (auto simp: flushRangeForRead_def Let_def elim!: ok_mono)
qed

lemma forget_byte_frame [simp]:
  "os_size (forget_byte i os) = os_size os" "concreteStore (forget_byte i os) = concreteStore os"
  "upd_root (forget_byte i os) = upd_root os" "upd_head (forget_byte i os) = upd_head os"
  "isByteFlushed (forget_byte i os) = isByteFlushed os" "ul_val \<sigma> (forget_byte i os) = ul_val \<sigma> os"
  "flushMask (forget_byte i os) = flushMask os"
  by (simp_all add: forget_byte_def) (auto simp: markByteSymbolic_def setKnownSymbolic_def Let_def split: option.split)

lemma forget_byte_status:
  assumes "tables_ok os" "cache_inv os" "i < os_size os" "j < os_size os"
  shows "isByteConcrete (forget_byte i os) j \<longleftrightarrow> j \<noteq> i \<and> isByteConcrete os j"
    "known (forget_byte i os) j = (if j = i then None else known os j)" "tables_ok (forget_byte i os)"
  using assms byte_status(2,4) [of os i j]
  by (auto simp: forget_byte_def isByteKnownSymbolic_def cache_inv_def)

text \<open>Forgetting a flushed byte: its value is then the one of the update list.\<close>

lemma forget_byte_ok:
  assumes inv: "obj_inv os" and i: "i < os_size os" and fl: "isByteFlushed os i"
  shows "obj_inv (forget_byte i os)" "same_bytes os (forget_byte i os)"
proof -
  let ?os = "forget_byte i os"
  have tc: "tables_ok os" "cache_inv os" using inv by (simp_all add: obj_inv_def)
  note st = forget_byte_status [OF tc i]
  have bv: "byte_val \<sigma> ?os j = byte_val \<sigma> os j" if \<sigma>: "wf_env \<sigma>" and j: "j < os_size os" for \<sigma> j
  proof (cases "j = i")
    case True
    then have "byte_val \<sigma> ?os j = ul_val \<sigma> os (int j)" using st [OF j] by (simp add: byte_val_def)
    also have "\<dots> = byte_val \<sigma> os j" using inv fl \<sigma> j True by (simp add: obj_inv_def coherent_def)
    finally show ?thesis .
  next
    case False
    then show ?thesis using st [OF j] by (intro byte_val_cong) simp_all
  qed
  then show "same_bytes os ?os" by (simp add: same_bytes_def)
  show "obj_inv ?os"
    using inv st st(3) [OF i] bv fl
    by (auto simp: obj_inv_def exprs_ok_def cache_inv_def coherent_def isByteKnownSymbolic_def split: if_splits)
qed

lemma flush_byte_write_read:
  assumes "obj_inv os" "flushMask os \<noteq> None" "i < os_size os"
  shows "flush_byte_write i os = map_option (forget_byte i) (flush_byte_read i os)"
proof (cases "isByteFlushed os i")
  case False
  have comm: "forget_byte i (os'\<lparr>flushMask := map_option f (flushMask os')\<rparr>) =
      (forget_byte i os')\<lparr>flushMask := map_option f (flushMask (forget_byte i os'))\<rparr>" for os' f
    by (auto simp: forget_byte_def isByteConcrete_def isByteKnownSymbolic_def known_def markByteSymbolic_def
        setKnownSymbolic_def Let_def split: option.split)
  show ?thesis
    using False comm by (auto simp: flush_byte_write_def flush_byte_read_def split: bind_split)
qed (simp add: flush_byte_write_def flush_byte_read_def)

lemma flush_byte_read_frame:
  assumes "flush_byte_read i os = Some os'"
  shows "isByteConcrete os' = isByteConcrete os" "known os' = known os"
  using assms
  by (auto simp: flush_byte_read_def updates_extend_def fun_eq_iff isByteConcrete_def known_def split: if_splits bind_splits)

text \<open>A byte whose only copy is the one in the update list.\<close>

definition only_flushed :: "objstate \<Rightarrow> nat \<Rightarrow> bool" where
  "only_flushed os i \<longleftrightarrow> isByteFlushed os i \<and> \<not> isByteConcrete os i \<and> known os i = None"

lemma flush_byte_write_ok:
  assumes inv: "obj_inv os" and m: "flushMask os \<noteq> None" and i: "i < os_size os"
  shows "ok (flush_byte_write i os) (\<lambda>os'. obj_inv os' \<and> same_bytes os os' \<and> flushMask os' \<noteq> None \<and>
    only_flushed os' i \<and> (\<forall>j < os_size os. only_flushed os j \<longrightarrow> only_flushed os' j))"
proof -
  from flush_byte_read_ok [OF inv m i] obtain os1 where o: "flush_byte_read i os = Some os1" "obj_inv os1"
    "same_bytes os os1" "flushMask os1 \<noteq> None" "\<And>j. j < os_size os \<Longrightarrow> isByteFlushed os1 j \<longleftrightarrow> j = i \<or> isByteFlushed os j"
    by (auto simp: ok_iff)
  have sz: "os_size os1 = os_size os" using o(3) by (simp add: same_bytes_def)
  have tc: "tables_ok os1" "cache_inv os1" using o(2) by (simp_all add: obj_inv_def)
  have "only_flushed (forget_byte i os1) j" if "j < os_size os" "j = i \<or> only_flushed os j" for j
    using forget_byte_status(1,2) [OF tc, of i j] flush_byte_read_frame [OF o(1)] o(5) [OF that(1)] that i sz
    by (auto simp: only_flushed_def)
  then show ?thesis
    using forget_byte_ok [OF o(2), of i] o i sz flush_byte_write_read [OF inv m i] same_bytes_trans [OF o(3)]
    by auto
qed

lemma flushRangeForWrite_ok:
  assumes inv: "obj_inv os" and r: "b + n \<le> os_size os"
  shows "ok (flushRangeForWrite b n os) (\<lambda>os'. obj_inv os' \<and> same_bytes os os' \<and>
    (\<forall>j \<in> {b..<b + n}. only_flushed os' j))"
proof -
  let ?os = "case flushMask os of None \<Rightarrow> os\<lparr>flushMask := Some (BitArray_new (os_size os) True)\<rparr> | Some _ \<Rightarrow> os"
  let ?I = "\<lambda>k os'. obj_inv os' \<and> same_bytes os os' \<and> flushMask os' \<noteq> None \<and> (\<forall>j \<in> {b..<b + k}. only_flushed os' j)"
  have "ok (foldM flush_byte_write [b..<b + n] ?os) (?I (length [b..<b + n]))"
  proof (rule foldM_ok [where I = ?I])
    show "?I 0 ?os" using new_mask_ok [OF inv] by simp
  next
    fix k s
    assume k: "k < length [b..<b + n]" and I: "?I k s"
    then have sz: "os_size s = os_size os" by (simp add: same_bytes_def)
    have "ok (flush_byte_write (b + k) s) (\<lambda>os'. obj_inv os' \<and> same_bytes s os' \<and> flushMask os' \<noteq> None \<and>
        only_flushed os' (b + k) \<and> (\<forall>j < os_size s. only_flushed s j \<longrightarrow> only_flushed os' j))"
      using flush_byte_write_ok [of s "b + k"] I k r sz by simp
    then show "ok (flush_byte_write ([b..<b + n] ! k) s) (?I (Suc k))"
      using I k r sz by (auto simp: less_Suc_eq elim!: ok_mono intro: same_bytes_trans)
  qed
  then show ?thesis by (auto simp: flushRangeForWrite_def Let_def elim!: ok_mono)
qed

section \<open>Access at a symbolic offset\<close>

lemma zext32_id: "getWidth e = 32 \<Longrightarrow> ZExtExpr_create e 32 = Some e"
  by (simp add: ZExtExpr_create_def)

lemma read8_sym_ok:
  assumes inv: "obj_inv os" and off: "denotes A offset 32 g" "\<not> isConstantExpr offset"
    and g: "\<And>\<sigma>. wf_env \<sigma> \<Longrightarrow> A \<sigma> \<Longrightarrow> g \<sigma> < int (os_size os)" and cfg: "\<not> const_array_opt cfg"
  shows "ok (read8_sym cfg os h offset) (\<lambda>(e, os', h'). denotes A e 8 (\<lambda>\<sigma>. byte_val \<sigma> os (nat (g \<sigma>))) \<and>
    obj_inv os' \<and> same_bytes os os')"
proof -
  from flushRangeForRead_ok [OF inv, of 0 "os_size os"] obtain os1 where f:
    "flushRangeForRead 0 (os_size os) os = Some os1" "obj_inv os1" "same_bytes os os1"
    "\<And>j. j < os_size os \<Longrightarrow> isByteFlushed os1 j"
    by (auto simp: ok_iff)
  have sz: "os_size os1 = os_size os" using f(3) by (simp add: same_bytes_def)
  from getUpdates_ok [OF f(2), of h] obtain a os' h' un where u:
    "getUpdates os1 h = Some (a, os', h')" "os' = os1\<lparr>upd_root := Some a, upd_head := un\<rparr>"
    "obj_inv os'" "\<And>\<sigma> j. j < os_size os1 \<Longrightarrow> byte_val \<sigma> os' j = byte_val \<sigma> os1 j"
    "\<And>\<sigma> j. j < os_size os1 \<Longrightarrow> ul_val \<sigma> os' (int j) = ul_val \<sigma> os1 (int j)"
    by (auto simp: ok_iff)
  have same: "same_bytes os os'"
    using f(3) u(2,4) sz by (simp add: same_bytes_def)
  have i: "ZExtExpr_create offset 32 = Some offset" using denotesD(2) [OF off(1)] by (rule zext32_id)
  have val: "ul_val \<sigma> os' (g \<sigma>) = byte_val \<sigma> os (nat (g \<sigma>))" if \<sigma>: "wf_env \<sigma>" "A \<sigma>" for \<sigma>
  proof -
    have "0 \<le> g \<sigma>" using denotesD(5) [of A offset 32 g \<sigma>] off(1) \<sigma> by (simp add: in_width_def)
    then obtain k where k: "g \<sigma> = int k" by (metis nonneg_int_cases)
    with g [OF \<sigma>] have "k < os_size os" by simp
    then show ?thesis
      using u(5) [of k \<sigma>] f(2-4) \<sigma>(1) sz k by (simp add: obj_inv_def coherent_def same_bytes_def)
  qed
  have "upd_root os' = Some a" "list_all (wf_write (os_size os')) (writes_of (upd_head os'))"
    using u(2,3) by (simp_all add: obj_inv_def exprs_ok_def)
  from read_ul_ok [OF u(3) this(1) off(1) this(2)]
  have "ok (ReadExpr_create False (a, upd_head os') offset) (\<lambda>e. denotes A e 8 (\<lambda>\<sigma>. byte_val \<sigma> os (nat (g \<sigma>))))"
    by (rule ok_denotes_cong) (rule val)
  then show ?thesis
    using f(1) u(1,3) i off(2) cfg same
    by (auto simp: read8_sym_def fastRangeCheckOffset_def ok_bind_iff elim!: ok_mono)
qed

lemma write8_sym_ok:
  assumes inv: "obj_inv os" and off: "denotes A offset 32 g" "\<not> isConstantExpr offset"
    and v: "denotes A v 8 f"
  shows "ok (write8_sym os offset v) (\<lambda>os'. obj_inv os' \<and> os_size os' = os_size os \<and>
    (\<forall>\<sigma> j. wf_env \<sigma> \<longrightarrow> A \<sigma> \<longrightarrow> j < os_size os \<longrightarrow>
       byte_val \<sigma> os' j = (if g \<sigma> = int j then f \<sigma> else byte_val \<sigma> os j)))"
proof -
  from flushRangeForWrite_ok [OF inv, of 0 "os_size os"] obtain os1 where f:
    "flushRangeForWrite 0 (os_size os) os = Some os1" "obj_inv os1" "same_bytes os os1"
    "\<And>j. j < os_size os \<Longrightarrow> only_flushed os1 j"
    by (auto simp: ok_iff)
  have sz: "os_size os1 = os_size os" using f(3) by (simp add: same_bytes_def)
  have i: "ZExtExpr_create offset 32 = Some offset" using denotesD(2) [OF off(1)] by (rule zext32_id)
  let ?os = "os1\<lparr>upd_head := UpdateNode (upd_head os1) offset v\<rparr>"
  have w: "wf_write n (offset, v)" for n
    using off v by (auto simp: wf_write_def denotes_def isConstantExpr_def)
  have ul1: "byte_val \<sigma> os1 j = ul_val \<sigma> os1 (int j)" and ul: "byte_val \<sigma> ?os j = ul_val \<sigma> ?os (int j)"
    if "j < os_size os" for \<sigma> j
    using f(4) [OF that] by (simp_all add: byte_val_def only_flushed_def)
  have "obj_inv ?os"
    using f(2,4) w ul sz
    by (auto simp: obj_inv_def exprs_ok_def cache_inv_def coherent_def isByteKnownSymbolic_def only_flushed_def)
  moreover have "byte_val \<sigma> ?os j = (if g \<sigma> = int j then f \<sigma> else byte_val \<sigma> os j)"
    if "wf_env \<sigma>" "A \<sigma>" "j < os_size os" for \<sigma> j
    using that ul1 ul f(3) off(1) v by (simp add: ul_val_extend denotes_def same_bytes_def)
  moreover have "updates_extend os1 offset v = Some ?os"
    using off(1) v by (intro updates_extend_ok [OF f(2)]) (simp_all add: denotes_def)
  ultimately show ?thesis
    using f(1) i off(2) sz by (simp add: write8_sym_def fastRangeCheckOffset_def)
qed

end
