(* ===== verification/Object_Access.thy ===== *)
theory Object_Access
  imports Object_Flush
begin

unbundle bit_operations_syntax

text \<open>
  Reads and writes of any width: they act on \<open>byte_val\<close> as loads and stores of a sequence of
  bytes in the byte order of the configuration, at constant and at symbolic offsets.
\<close>

section \<open>Byte sequences\<close>

text \<open>The number whose base-256 digits are given, least significant first.\<close>

primrec bytes_val :: "(nat \<Rightarrow> int) \<Rightarrow> nat \<Rightarrow> int" where
  "bytes_val f 0 = 0"
| "bytes_val f (Suc n) = push_bit (8 * n) (f n) + bytes_val f n"

lemma bytes_val_cong: "(\<And>i. i < n \<Longrightarrow> f i = g i) \<Longrightarrow> bytes_val f n = bytes_val g n"
  by (induction n) auto

definition byte_of :: "int \<Rightarrow> nat \<Rightarrow> int" where
  "byte_of x i = take_bit 8 (drop_bit (8 * i) x)"

lemma take_bit_split: "take_bit (m + n) x = push_bit m (take_bit n (drop_bit m x)) + take_bit m (x::int)"
proof -
  have "take_bit (m + n) x = concat_bit m x (take_bit n (drop_bit m x))"
    by (rule bit_eqI) (auto simp: bit_take_bit_iff bit_concat_bit_iff bit_drop_bit_eq)
  then show ?thesis by (simp add: concat_bit_eq)
qed

lemma bytes_val_byte_of: "bytes_val (byte_of x) n = take_bit (8 * n) x"
proof (induction n)
  case (Suc n)
  then show ?case using take_bit_split [of "8 * n" 8 x] by (simp add: byte_of_def add.commute)
qed simp

lemma byte_index_less [simp]: "i < n \<Longrightarrow> byte_index cfg n i < n"
  by (auto simp: byte_index_def)

lemma byte_index_invol [simp]: "i < n \<Longrightarrow> byte_index cfg n (byte_index cfg n i) = i"
  by (auto simp: byte_index_def)

lemma byte_index_one [simp]: "byte_index cfg (Suc 0) 0 = 0"
  by (simp add: byte_index_def)

text \<open>The contents of \<open>n\<close> bytes from \<open>base\<close> on, in the byte order of the configuration.\<close>

definition load_val :: "config \<Rightarrow> env \<Rightarrow> objstate \<Rightarrow> nat \<Rightarrow> nat \<Rightarrow> int" where
  "load_val cfg \<sigma> os base n = bytes_val (\<lambda>i. byte_val \<sigma> os (base + byte_index cfg n i)) n"

section \<open>The read loop\<close>

lemma concat_byte_ok:
  assumes "\<And>r. Res = Some r \<Longrightarrow> denotes A r (8 * k) f" "Res = None \<longleftrightarrow> k = 0" "denotes A e 8 g"
    "k = 0 \<Longrightarrow> (\<And>\<sigma>. f \<sigma> = 0)"
  shows "ok (concat_byte Res e) (\<lambda>r. denotes A r (8 * Suc k) (\<lambda>\<sigma>. push_bit (8 * k) (g \<sigma>) + f \<sigma>))"
proof (cases Res)
  case None
  then show ?thesis using assms by (simp add: concat_byte_def)
next
  case (Some r)
  then have "denotes A r (8 * k) f" using assms(1) by simp
  from ConcatExpr_create_ok [OF assms(3) this] Some show ?thesis by (simp add: concat_byte_def)
qed

lemma read_loop_ok:
  assumes inv: "obj_inv os" and n: "0 < n"
    and rd: "\<And>idx os' h'. idx < n \<Longrightarrow> obj_inv os' \<Longrightarrow> same_bytes os os' \<Longrightarrow>
      ok (rd idx os' h') (\<lambda>(e, os'', h''). denotes A e 8 (f idx) \<and> obj_inv os'' \<and> same_bytes os' os'')"
  shows "ok (read_loop cfg rd n os h) (\<lambda>(Res, os', h'). obj_inv os' \<and> same_bytes os os' \<and>
    (\<exists>e. Res = Some e \<and> denotes A e (8 * n) (\<lambda>\<sigma>. bytes_val (\<lambda>i. f (byte_index cfg n i) \<sigma>) n)))"
proof -
  let ?I = "\<lambda>k (Res, os', h' :: heap). obj_inv os' \<and> same_bytes os os' \<and> (Res = None \<longleftrightarrow> k = 0) \<and>
    (\<forall>e. Res = Some e \<longrightarrow> denotes A e (8 * k) (\<lambda>\<sigma>. bytes_val (\<lambda>i. f (byte_index cfg n i) \<sigma>) k))"
  have "ok (read_loop cfg rd n os h) (?I (length [0..<n]))"
    unfolding read_loop_def
  proof (rule foldM_ok [where I = ?I])
    show "?I 0 (None, os, h)" using inv by simp
  next
    fix k s
    assume k: "k < length [0..<n]" and I: "?I k s"
    obtain Res os1 h1 where s: "s = (Res, os1, h1)" by (cases s) auto
    have "ok (rd (byte_index cfg n k) os1 h1) (\<lambda>(e, os'', h''). denotes A e 8 (f (byte_index cfg n k)) \<and>
        obj_inv os'' \<and> same_bytes os1 os'')"
      using rd k I s by simp
    then obtain e os2 h2 where e: "rd (byte_index cfg n k) os1 h1 = Some (e, os2, h2)"
        "denotes A e 8 (f (byte_index cfg n k))" "obj_inv os2" "same_bytes os1 os2"
      by (auto simp: ok_iff)
    have "ok (concat_byte Res e) (\<lambda>r. denotes A r (8 * Suc k)
        (\<lambda>\<sigma>. push_bit (8 * k) (f (byte_index cfg n k) \<sigma>) + bytes_val (\<lambda>i. f (byte_index cfg n i) \<sigma>) k))"
      by (rule concat_byte_ok) (use I s e(2) in auto)
    then show "ok ((\<lambda>(Res, os, h). do {
         (Byte, os, h) \<leftarrow> rd (byte_index cfg n ([0..<n] ! k)) os h;
         r \<leftarrow> concat_byte Res Byte;
         Some (Some r, os, h)
       }) s) (?I (Suc k))"
      using I s e k by (auto simp: ok_iff intro: same_bytes_trans)
  qed
  then show ?thesis
    by (rule ok_mono) (use n in auto)
qed

section \<open>The write loop\<close>

definition stored :: "(env \<Rightarrow> bool) \<Rightarrow> objstate \<Rightarrow> (env \<Rightarrow> nat) \<Rightarrow> nat \<Rightarrow> (nat \<Rightarrow> env \<Rightarrow> int) \<Rightarrow> objstate \<Rightarrow> bool" where
  "stored A os base n f os' \<longleftrightarrow> obj_inv os' \<and> os_size os' = os_size os \<and>
     (\<forall>\<sigma> j. wf_env \<sigma> \<longrightarrow> A \<sigma> \<longrightarrow> j < os_size os \<longrightarrow>
        byte_val \<sigma> os' j = (if base \<sigma> \<le> j \<and> j < base \<sigma> + n then f (j - base \<sigma>) \<sigma> else byte_val \<sigma> os j))"

lemma write_loop_ok:
  assumes inv: "obj_inv os"
    and wr: "\<And>i os'. i < n \<Longrightarrow> obj_inv os' \<Longrightarrow> os_size os' = os_size os \<Longrightarrow>
      ok (W i os') (stored A os' (\<lambda>\<sigma>. base \<sigma> + byte_index cfg n i) 1 (\<lambda>_. f i))"
  shows "ok (foldM W [0..<n] os) (stored A os base n (\<lambda>k. f (byte_index cfg n k)))"
proof -
  let ?in = "\<lambda>\<sigma> k j. base \<sigma> \<le> j \<and> j < base \<sigma> + n \<and> byte_index cfg n (j - base \<sigma>) < k"
  let ?I = "\<lambda>k os'. obj_inv os' \<and> os_size os' = os_size os \<and>
     (\<forall>\<sigma> j. wf_env \<sigma> \<longrightarrow> A \<sigma> \<longrightarrow> j < os_size os \<longrightarrow>
        byte_val \<sigma> os' j = (if ?in \<sigma> k j then f (byte_index cfg n (j - base \<sigma>)) \<sigma> else byte_val \<sigma> os j))"
  have "ok (foldM W [0..<n] os) (?I (length [0..<n]))"
  proof (rule foldM_ok [where I = ?I])
    show "?I 0 os" using inv by simp
  next
    fix k s
    assume k: "k < length [0..<n]" and I: "?I k s"
    have hit: "j = base \<sigma> + byte_index cfg n k \<longleftrightarrow> base \<sigma> \<le> j \<and> j < base \<sigma> + n \<and> byte_index cfg n (j - base \<sigma>) = k" for \<sigma> j
      using k byte_index_invol [of "j - base \<sigma>" n cfg] by auto
    have "ok (W ([0..<n] ! k) s) (stored A s (\<lambda>\<sigma>. base \<sigma> + byte_index cfg n k) 1 (\<lambda>_. f k))"
      using wr [of k s] k I by simp
    then show "ok (W ([0..<n] ! k) s) (?I (Suc k))"
    proof (rule ok_mono)
      fix os'
      assume st: "stored A s (\<lambda>\<sigma>. base \<sigma> + byte_index cfg n k) 1 (\<lambda>_. f k) os'"
      have "byte_val \<sigma> os' j = (if ?in \<sigma> (Suc k) j then f (byte_index cfg n (j - base \<sigma>)) \<sigma> else byte_val \<sigma> os j)"
        if "wf_env \<sigma>" "A \<sigma>" "j < os_size os" for \<sigma> j
      proof -
        have "byte_val \<sigma> os' j = (if j = base \<sigma> + byte_index cfg n k then f k \<sigma> else byte_val \<sigma> s j)"
          using st that I by (auto simp: stored_def)
        then show ?thesis using I that by (auto simp: hit less_Suc_eq)
      qed
      then show "?I (Suc k) os'" using st I by (simp add: stored_def)
    qed
  qed
  then show ?thesis
    by (rule ok_mono) (auto simp: stored_def)
qed

section \<open>Writes at a constant offset\<close>

lemma write8_byte_stored:
  assumes "obj_inv os" "offset < os_size os"
  shows "ok (write8_byte os offset v) (stored A os (\<lambda>_. offset) 1 (\<lambda>_ _. uint v))"
  using write8_byte_ok [OF assms, of v] by (rule ok_mono) (auto simp: stored_def)

lemma write8_stored:
  assumes "obj_inv os" "offset < os_size os" "denotes A v 8 f"
  shows "ok (write8 os offset v) (stored A os (\<lambda>_. offset) 1 (\<lambda>_. f))"
  using write8_ok [OF assms(1,2), of v] assms(3)
  by (auto simp: denotes_def elim!: ok_mono) (auto simp: stored_def)

lemma byte_of_uint:
  assumes "wf_ap c" "8 * i + 8 \<le> 64"
  shows "uint (ucast (drop_bit (8 * i) (word_of_int (apval c) :: u64)) :: u8) = byte_of (apval c) i"
  using assms
  by (intro bit_eqI) (auto simp: byte_of_def bit_take_bit_iff bit_drop_bit_eq bit_uint_iff bit_word_ucast_iff bit_word_of_int_iff)

lemma write_n_stored:
  assumes inv: "obj_inv os" and b: "offset + n \<le> os_size os" and n: "8 * n \<le> 64" and c: "wf_ap c"
  shows "ok (write_n cfg n os offset (word_of_int (apval c)))
    (stored A os (\<lambda>_. offset) n (\<lambda>k _. byte_of (apval c) (byte_index cfg n k)))"
  unfolding write_n_def
proof (rule write_loop_ok [OF inv])
  fix i os'
  assume i: "i < n" and os': "obj_inv os'" "os_size os' = os_size os"
  let ?p = "(offset + byte_index cfg n i) mod 2 ^ 32"
  have lt: "offset + byte_index cfg n i < os_size os" using b byte_index_less [OF i, of cfg] by linarith
  moreover have "os_size os \<le> 2 ^ 32" using inv by (simp add: obj_inv_def tables_ok_def)
  ultimately have p: "?p = offset + byte_index cfg n i" by simp
  have "uint (ucast (drop_bit (8 * i) (word_of_int (apval c) :: u64)) :: u8) = byte_of (apval c) i"
    using byte_of_uint [OF c, of i] i n by simp
  with write8_byte_stored [OF os'(1), of "offset + byte_index cfg n i" "ucast (drop_bit (8 * i) (word_of_int (apval c) :: u64))" A] lt os'(2) p
  show "ok (write8_byte os' ?p (ucast (drop_bit (8 * i) (word_of_int (apval c) :: u64))))
      (stored A os' (\<lambda>\<sigma>. offset + byte_index cfg n i) 1 (\<lambda>_ _. byte_of (apval c) i))"
    by simp
qed

text \<open>Widths that memory can hold: one bit, or a number of bytes.\<close>

definition mem_width :: "width \<Rightarrow> bool" where
  "mem_width w \<longleftrightarrow> w = 1 \<or> (8 dvd w \<and> 0 < w)"

definition num_bytes :: "width \<Rightarrow> nat" where
  "num_bytes w = (w + 7) div 8"

lemma num_bytes_simps [simp]: "num_bytes (Suc 0) = 1" "num_bytes (8 * n) = n" "num_bytes (n * 8) = n"
  by (simp_all add: num_bytes_def)

lemma mem_width_cases:
  assumes "mem_width w"
  obtains "w = 1" | n where "w = 8 * n" "0 < n" "num_bytes w = n" "w \<noteq> 1" "w div 8 = n"
  using assms by (auto simp: mem_width_def elim!: dvdE)

lemma write_slow_stored:
  assumes inv: "obj_inv os" and v: "denotes A v w f" and w: "mem_width w" and b: "offset + num_bytes w \<le> os_size os"
  shows "ok (write_slow cfg os offset v)
    (stored A os (\<lambda>_. offset) (num_bytes w) (\<lambda>k \<sigma>. byte_of (f \<sigma>) (byte_index cfg (num_bytes w) k)))"
  using w
proof (cases rule: mem_width_cases)
  case 1
  have "ok (ZExtExpr_create v 8) (\<lambda>e. denotes A e 8 (\<lambda>\<sigma>. take_bit 8 (f \<sigma>)))"
    by (rule ZExtExpr_create_ok [OF v]) simp
  then obtain e where e: "ZExtExpr_create v 8 = Some e" "denotes A e 8 (\<lambda>\<sigma>. take_bit 8 (f \<sigma>))"
    by (auto simp: ok_iff)
  have "ok (write8 os offset e) (stored A os (\<lambda>_. offset) 1 (\<lambda>_ \<sigma>. take_bit 8 (f \<sigma>)))"
    using write8_stored [OF inv _ e(2)] b 1 by simp
  then have "ok (write8 os offset e) (stored A os (\<lambda>_. offset) 1 (\<lambda>k \<sigma>. byte_of (f \<sigma>) (byte_index cfg 1 k)))"
    by (rule ok_mono) (auto simp: stored_def byte_of_def)
  then show ?thesis using 1 e(1) denotesD(2) [OF v] by (simp add: write_slow_def)
next
  case (2 n)
  have "ok (foldM (\<lambda>i os. do {
               b \<leftarrow> ExtractExpr_create v (8 * i) 8;
               write8 os ((offset + byte_index cfg n i) mod 2 ^ 32) b
             }) [0..<n] os) (stored A os (\<lambda>_. offset) n (\<lambda>k \<sigma>. byte_of (f \<sigma>) (byte_index cfg n k)))"
  proof (rule write_loop_ok [OF inv, where f = "\<lambda>i \<sigma>. byte_of (f \<sigma>) i"])
    fix i os'
    assume i: "i < n" and os': "obj_inv os'" "os_size os' = os_size os"
    have lt: "offset + byte_index cfg n i < os_size os" using b 2 byte_index_less [OF i, of cfg] by linarith
    moreover have "os_size os \<le> 2 ^ 32" using inv by (simp add: obj_inv_def tables_ok_def)
    ultimately have p: "(offset + byte_index cfg n i) mod 2 ^ 32 = offset + byte_index cfg n i" by simp
    have "ok (ExtractExpr_create v (8 * i) 8) (\<lambda>e. denotes A e 8 (\<lambda>\<sigma>. byte_of (f \<sigma>) i))"
      unfolding byte_of_def by (rule ExtractExpr_create_ok [OF v]) (use i 2 in simp_all)
    then obtain e where e: "ExtractExpr_create v (8 * i) 8 = Some e" "denotes A e 8 (\<lambda>\<sigma>. byte_of (f \<sigma>) i)"
      by (auto simp: ok_iff)
    show "ok (do { b \<leftarrow> ExtractExpr_create v (8 * i) 8;
          write8 os' ((offset + byte_index cfg n i) mod 2 ^ 32) b })
        (stored A os' (\<lambda>\<sigma>. offset + byte_index cfg n i) 1 (\<lambda>_ \<sigma>. byte_of (f \<sigma>) i))"
      unfolding p using write8_stored [OF os'(1) _ e(2)] lt os'(2) e(1) by simp
  qed
  then show ?thesis using 2 denotesD(2) [OF v] by (simp add: write_slow_def)
qed

lemma stored_cong:
  assumes "stored A os base n f os'" "\<And>\<sigma> k. wf_env \<sigma> \<Longrightarrow> A \<sigma> \<Longrightarrow> k < n \<Longrightarrow> f k \<sigma> = g k \<sigma>"
  shows "stored A os base n g os'"
  using assms by (auto simp: stored_def)

lemma pow2_widths:
  assumes "mem_width w" "w \<le> 64" "isPowerOfTwo64 (of_nat w)"
  shows "w \<in> {1, 8, 16, 32, 64}"
proof -
  have "w = 1 \<or> (\<exists>n \<in> {1..8}. w = 8 * n)"
    using assms(1,2) by (auto simp: mem_width_def elim!: dvdE)
  moreover have "{1..8::nat} = {1, 2, 3, 4, 5, 6, 7, 8}" by auto
  ultimately show ?thesis using assms(3) by (auto simp: isPowerOfTwo64_def)
qed

lemma write_const_stored:
  assumes inv: "obj_inv os" and v: "denotes A v w f" and w: "mem_width w" and b: "offset + num_bytes w \<le> os_size os"
  shows "ok (write_const cfg os offset v)
    (stored A os (\<lambda>_. offset) (num_bytes w) (\<lambda>k \<sigma>. byte_of (f \<sigma>) (byte_index cfg (num_bytes w) k)))"
    (is "ok _ ?P")
proof (cases "\<exists>c. v = ConstantExpr c \<and> w \<le> 64 \<and> isPowerOfTwo64 (of_nat w)")
  case False
  then have "write_const cfg os offset v = write_slow cfg os offset v"
    using denotesD(2) [OF v] by (auto simp: write_const_def as_const_def split: expr.split)
  then show ?thesis using write_slow_stored [OF inv v w b] by simp
next
  case True
  then obtain c where c: "v = ConstantExpr c" "bitWidth c = w" "wf_ap c" "w \<le> 64" "isPowerOfTwo64 (of_nat w)"
    "\<And>\<sigma>. wf_env \<sigma> \<Longrightarrow> A \<sigma> \<Longrightarrow> f \<sigma> = apval c"
    using v by auto
  let ?Q = "stored A os (\<lambda>_. offset) (num_bytes w) (\<lambda>k _. byte_of (apval c) (byte_index cfg (num_bytes w) k))"
  have n: "ok (write_n cfg (num_bytes w) os offset (word_of_int (apval c))) ?Q"
    by (rule write_n_stored [OF inv b _ c(3)]) (use pow2_widths [OF w c(4,5)] in \<open>auto simp: num_bytes_def\<close>)
  have one: "ok (write8_byte os offset (ucast (word_of_int (apval c) :: u64))) ?Q" if "w = 1 \<or> w = 8"
    using write8_byte_stored [OF inv, of offset "ucast (word_of_int (apval c) :: u64)" A] byte_of_uint [OF c(3), of 0] b that
    by (auto simp: num_bytes_def stored_def elim!: ok_mono)
  have "ok (write_const cfg os offset v) ?Q"
    using pow2_widths [OF w c(4,5)] n one c by (auto simp: write_const_def Let_def num_bytes_def)
  then show ?thesis by (rule ok_mono) (erule stored_cong, use c(6) in simp)
qed

section \<open>Reads at a constant offset\<close>

lemma load_val_one: "load_val cfg \<sigma> os base (Suc 0) = byte_val \<sigma> os base"
  by (simp add: load_val_def)

text \<open>One bit is the low bit of a byte.\<close>

lemma read_bit_ok:
  assumes "ok r (\<lambda>(e, os', h'). denotes A e 8 f \<and> P os')"
  shows "ok (do { (e, os, h) \<leftarrow> r; b \<leftarrow> ExtractExpr_create e 0 1; Some (b, os, h) })
    (\<lambda>(e, os', h'). denotes A e 1 (\<lambda>\<sigma>. take_bit 1 (f \<sigma>)) \<and> P os')"
proof -
  from assms obtain e os' h' where r: "r = Some (e, os', h')" "denotes A e 8 f" "P os'" by (auto simp: ok_iff)
  have "ok (ExtractExpr_create e 0 1) (\<lambda>b. denotes A b 1 (\<lambda>\<sigma>. take_bit 1 (drop_bit 0 (f \<sigma>))))"
    by (rule ExtractExpr_create_ok [OF r(2)]) simp_all
  then show ?thesis using r by (auto simp: ok_iff)
qed

lemma read_loop_value:
  assumes "ok (read_loop cfg rd n os h) (\<lambda>(Res, os', h'). obj_inv os' \<and> same_bytes os os' \<and>
    (\<exists>e. Res = Some e \<and> denotes A e (8 * n) f))"
  shows "ok (do { (Res, os, h) \<leftarrow> read_loop cfg rd n os h; e \<leftarrow> Res; Some (e, os, h) })
    (\<lambda>(e, os', h'). denotes A e (8 * n) (\<lambda>\<sigma>. take_bit (8 * n) (f \<sigma>)) \<and> obj_inv os' \<and> same_bytes os os')"
proof -
  from assms obtain e os' h' where r: "read_loop cfg rd n os h = Some (Some e, os', h')" "denotes A e (8 * n) f"
    "obj_inv os'" "same_bytes os os'" by (auto simp: ok_iff)
  have "denotes A e (8 * n) (\<lambda>\<sigma>. take_bit (8 * n) (f \<sigma>))"
    by (rule denotes_cong [OF r(2)]) (use denotesD(5) [of A e "8 * n" f] r(2) in simp)
  with r show ?thesis by simp
qed

lemma read_const_ok:
  assumes inv: "obj_inv os" and w: "mem_width w" and b: "offset + num_bytes w \<le> os_size os"
    and cfg: "\<not> const_array_opt cfg"
  shows "ok (read_const cfg os h offset w) (\<lambda>(e, os', h').
    denotes A e w (\<lambda>\<sigma>. take_bit w (load_val cfg \<sigma> os offset (num_bytes w))) \<and> obj_inv os' \<and> same_bytes os os')"
  using w
proof (cases rule: mem_width_cases)
  case 1
  then have "offset < os_size os" using b by simp
  from read_bit_ok [OF read8_ok [OF inv this cfg]] 1 show ?thesis by (simp add: read_const_def load_val_one)
next
  case (2 n)
  have "ok (read8 cfg os' h' ((offset + idx) mod 2 ^ 32)) (\<lambda>(e, os'', h''). denotes A e 8 (\<lambda>\<sigma>. byte_val \<sigma> os (offset + idx)) \<and>
      obj_inv os'' \<and> same_bytes os' os'')" if "idx < n" "obj_inv os'" "same_bytes os os'" for idx os' h'
  proof -
    have lt: "offset + idx < os_size os" "os_size os' = os_size os"
      using that(1,3) b 2 by (simp_all add: same_bytes_def)
    moreover have "os_size os \<le> 2 ^ 32" using inv by (simp add: obj_inv_def tables_ok_def)
    ultimately have p: "(offset + idx) mod 2 ^ 32 = offset + idx" by simp
    show ?thesis
      unfolding p using read8_ok [OF that(2) _ cfg, of "offset + idx" h' A] lt that(3)
      by (auto simp: same_bytes_def denotes_def elim!: ok_mono)
  qed
  from read_loop_value [OF read_loop_ok [OF inv 2(2) this]] 2
  show ?thesis by (simp add: read_const_def load_val_def)
qed

section \<open>Symbolic offsets stay symbolic\<close>

text \<open>
  The access loops add the index of a byte to the offset and rely on the sum not folding to a
  constant.  It does not when the offset holds no sum of constants that the constructors would
  have folded.
\<close>

primrec folded :: "expr \<Rightarrow> bool" where
  "folded (ConstantExpr c) = False"
| "folded (NotOptimizedExpr e) = True"
| "folded (ReadExpr a un i) = True"
| "folded (SelectExpr c t f) = True"
| "folded (ConcatExpr l r) = True"
| "folded (ExtractExpr e off w) = True"
| "folded (ZExtExpr e w) = True"
| "folded (SExtExpr e w) = True"
| "folded (NotExpr e) = True"
| "folded (BinaryExpr k l r) = ((k = Add \<or> k = Sub) \<and> isConstantExpr l \<longrightarrow> folded r)"
| "folded (CmpExpr k l r) = True"

lemma folded_nonconst: "folded e \<Longrightarrow> \<not> isConstantExpr e"
  by (cases e) (auto simp: isConstantExpr_def)

lemma folded_as_const: "folded e \<Longrightarrow> as_const e = None"
  by (cases e) (auto simp: as_const_def)

lemma folded_create_c:
  assumes "folded r"
  shows "AddExpr_create_c cao c r = (if bitWidth c = getWidth r then AddExpr_createPartialR cao c r else None)"
    "SubExpr_create_c cao c r = (if bitWidth c = getWidth r then SubExpr_createPartialR cao c r else None)"
  using assms by (cases r; simp add: AddExpr_create_c.simps SubExpr_create_c.simps assert_that_def)+

text \<open>The common shape of the two rules for a sum or difference with a constant.\<close>

lemma folded_split:
  assumes r: "folded r"
    and e: "(case const_left Add r of Some (k, b) \<Rightarrow> do { assert_that (bitWidth cl = bitWidth k); f k b }
      | None \<Rightarrow> (case const_left Sub r of Some (k, b) \<Rightarrow> do { assert_that (bitWidth cl = bitWidth k); g k b }
          | None \<Rightarrow> Some (BinaryExpr op (ConstantExpr cl) r))) = Some e"
    and f: "\<And>k b. folded b \<Longrightarrow> size b < size r \<Longrightarrow> f k b = Some e \<Longrightarrow> folded e"
    and g: "\<And>k b. folded b \<Longrightarrow> size b < size r \<Longrightarrow> g k b = Some e \<Longrightarrow> folded e"
  shows "folded e"
proof (cases "const_left Add r")
  case (Some p)
  obtain k b where p: "p = (k, b)" by fastforce
  then have "folded b" "size b < size r" using Some r by (auto simp: isConstantExpr_def)
  with Some p e f [of b k] show ?thesis by (simp add: assert_that_def split: if_splits del: const_left_Some)
next
  case None
  show ?thesis
  proof (cases "const_left Sub r")
    case (Some p)
    obtain k b where p: "p = (k, b)" by fastforce
    then have "folded b" "size b < size r" using Some r by (auto simp: isConstantExpr_def)
    with None Some p e g [of b k] show ?thesis by (simp add: assert_that_def split: if_splits del: const_left_Some)
  qed (use None e r in \<open>auto simp: isConstantExpr_def\<close>)
qed

lemma folded_sum:
  "folded r \<Longrightarrow> bitWidth cl \<noteq> 1 \<Longrightarrow>
     (\<forall>e. AddExpr_createPartialR cao cl r = Some e \<longrightarrow> folded e) \<and>
     (\<forall>e. SubExpr_createPartialR cao cl r = Some e \<longrightarrow> folded e)"
proof (induction "size r" arbitrary: r cl rule: less_induct)
  case less
  have rec: "folded e" if "folded b" "size b < size r" "bitWidth c = bitWidth cl"
    "AddExpr_create_c cao c b = Some e \<or> SubExpr_create_c cao c b = Some e" for b c e
    using less.hyps [OF that(2,1), of c] that(3,4) less.prems(2)
    by (auto simp: folded_create_c [OF that(1)] split: if_splits)
  show ?case
  proof (intro conjI allI impI)
    fix e
    assume "AddExpr_createPartialR cao cl r = Some e"
    then have "ConstantExpr_isZero cl \<and> e = r \<or> (case const_left Add r of
        Some (k, b) \<Rightarrow> do { assert_that (bitWidth cl = bitWidth k); AddExpr_create_c cao (ConstantExpr_Add cl k) b }
      | None \<Rightarrow> (case const_left Sub r of
          Some (k, b) \<Rightarrow> do { assert_that (bitWidth cl = bitWidth k); SubExpr_create_c cao (ConstantExpr_Add cl k) b }
        | None \<Rightarrow> Some (BinaryExpr Add (ConstantExpr cl) r))) = Some e"
      using less.prems(2) unfolding AddExpr_createPartialR.simps [of cao cl r] by (simp split: if_splits)
    then show "folded e"
    proof
      assume "(case const_left Add r of
        Some (k, b) \<Rightarrow> do { assert_that (bitWidth cl = bitWidth k); AddExpr_create_c cao (ConstantExpr_Add cl k) b }
      | None \<Rightarrow> (case const_left Sub r of
          Some (k, b) \<Rightarrow> do { assert_that (bitWidth cl = bitWidth k); SubExpr_create_c cao (ConstantExpr_Add cl k) b }
        | None \<Rightarrow> Some (BinaryExpr Add (ConstantExpr cl) r))) = Some e"
      then show ?thesis by (rule folded_split [OF less.prems(1)]) (use rec in \<open>metis bitWidth_Add_Sub(1)\<close>)+
    qed (use less.prems(1) in simp)
  next
    fix e
    assume "SubExpr_createPartialR cao cl r = Some e"
    then have "(case const_left Add r of
        Some (k, b) \<Rightarrow> do { assert_that (bitWidth cl = bitWidth k); SubExpr_create_c cao (ConstantExpr_Sub cl k) b }
      | None \<Rightarrow> (case const_left Sub r of
          Some (k, b) \<Rightarrow> do { assert_that (bitWidth cl = bitWidth k); AddExpr_create_c cao (ConstantExpr_Sub cl k) b }
        | None \<Rightarrow> Some (BinaryExpr Sub (ConstantExpr cl) r))) = Some e"
      using less.prems(2) unfolding SubExpr_createPartialR.simps [of cao cl r] by (simp split: if_splits)
    then show "folded e" by (rule folded_split [OF less.prems(1)]) (use rec in \<open>metis bitWidth_Add_Sub(2)\<close>)+
  qed
qed

lemma offset_plus_ok:
  assumes off: "denotes A offset 32 g" "folded offset"
  shows "ok (AddExpr_create False offset (const32 idx)) (\<lambda>e. denotes A e 32 (\<lambda>\<sigma>. take_bit 32 (g \<sigma> + int idx)) \<and> folded e)"
proof -
  have "folded e" if "AddExpr_create False offset (const32 idx) = Some e" for e
  proof -
    have "AddExpr_createPartialR False (ap_mk 32 (int idx)) offset = Some e"
      using that folded_nonconst [OF off(2)] denotesD(2) [OF off(1)]
      by (cases offset) (auto simp: AddExpr_create.simps BCREATE_R_def const32_def AddExpr_createPartial_def isConstantExpr_def)
    then show ?thesis using folded_sum [OF off(2), of "ap_mk 32 (int idx)" False] by simp
  qed
  moreover have "denotes A (const32 idx) 32 (\<lambda>_. take_bit 32 (int idx))" by (simp add: const32_def)
  note AddExpr_create_ok [OF off(1) this]
  ultimately show ?thesis by (auto simp: ok_iff take_bit_eq_mod mod_add_right_eq)
qed

section \<open>Access through an offset expression\<close>

lemma index_in_bounds:
  assumes "denotes A offset 32 g" "wf_env \<sigma>" "A \<sigma>" "g \<sigma> + int n \<le> int sz" "sz \<le> 2 ^ 32" "idx < n"
  shows "take_bit 32 (g \<sigma> + int idx) = g \<sigma> + int idx" "nat (g \<sigma> + int idx) = nat (g \<sigma>) + idx"
    "g \<sigma> + int idx < int sz" "nat (g \<sigma>) + idx < sz"
proof -
  have "0 \<le> g \<sigma>" using denotesD(5) [of A offset 32 g \<sigma>] assms(1-3) by (simp add: in_width_def)
  then show "take_bit 32 (g \<sigma> + int idx) = g \<sigma> + int idx" "nat (g \<sigma> + int idx) = nat (g \<sigma>) + idx"
    "g \<sigma> + int idx < int sz" "nat (g \<sigma>) + idx < sz"
    using assms(4-6) by (auto simp: take_bit_int_eq_self nat_add_distrib)
qed

text \<open>The offset of one byte of an access.\<close>

lemma byte_offset_ok:
  assumes off: "denotes A offset 32 g" "folded offset" and sz: "sz \<le> 2 ^ 32" "idx < n"
    and b: "\<And>\<sigma>. wf_env \<sigma> \<Longrightarrow> A \<sigma> \<Longrightarrow> g \<sigma> + int n \<le> int sz"
  obtains o' where "AddExpr_create False offset (const32 idx) = Some o'" "denotes A o' 32 (\<lambda>\<sigma>. g \<sigma> + int idx)"
    "\<not> isConstantExpr o'"
proof -
  from offset_plus_ok [OF off, of idx] obtain o' where o: "AddExpr_create False offset (const32 idx) = Some o'"
    "denotes A o' 32 (\<lambda>\<sigma>. take_bit 32 (g \<sigma> + int idx))" "folded o'"
    by (auto simp: ok_iff)
  have "denotes A o' 32 (\<lambda>\<sigma>. g \<sigma> + int idx)"
  proof (rule denotes_cong [OF o(2)])
    fix \<sigma> assume \<sigma>: "wf_env \<sigma>" "A \<sigma>"
    show "take_bit 32 (g \<sigma> + int idx) = g \<sigma> + int idx" by (rule index_in_bounds(1) [of A offset g \<sigma>, OF off(1) \<sigma> b [OF \<sigma>] sz])
  qed
  with o folded_nonconst that show thesis by blast
qed

lemma sym_read_ok:
  assumes inv: "obj_inv os" and off: "denotes A offset 32 g" "folded offset" and w: "mem_width w"
    and b: "\<And>\<sigma>. wf_env \<sigma> \<Longrightarrow> A \<sigma> \<Longrightarrow> g \<sigma> + int (num_bytes w) \<le> int (os_size os)"
    and cfg: "\<not> const_array_opt cfg"
  shows "ok (read_expr cfg os h offset w) (\<lambda>(e, os', h').
    denotes A e w (\<lambda>\<sigma>. take_bit w (load_val cfg \<sigma> os (nat (g \<sigma>)) (num_bytes w))) \<and> obj_inv os' \<and> same_bytes os os')"
  using w
proof (cases rule: mem_width_cases)
  case 1
  have "g \<sigma> < int (os_size os)" if "wf_env \<sigma>" "A \<sigma>" for \<sigma> using b [OF that] 1 by simp
  from read_bit_ok [OF read8_sym_ok [OF inv off(1) folded_nonconst [OF off(2)] this cfg]] 1
  show ?thesis
    using folded_as_const [OF off(2)] zext32_id [OF denotesD(2) [OF off(1)]]
    by (simp add: read_expr_def load_val_one)
next
  case (2 n)
  have sz: "os_size os \<le> 2 ^ 32" using inv by (simp add: obj_inv_def tables_ok_def)
  have bn: "\<And>\<sigma>. wf_env \<sigma> \<Longrightarrow> A \<sigma> \<Longrightarrow> g \<sigma> + int n \<le> int (os_size os)" using b 2 by simp
  have "ok (do { o' \<leftarrow> AddExpr_create (const_array_opt cfg) offset (const32 idx); read8_sym cfg os' h' o' })
      (\<lambda>(e, os'', h''). denotes A e 8 (\<lambda>\<sigma>. byte_val \<sigma> os (nat (g \<sigma>) + idx)) \<and> obj_inv os'' \<and> same_bytes os' os'')"
    if i: "idx < n" and os': "obj_inv os'" "same_bytes os os'" for idx os' h'
  proof -
    from byte_offset_ok [OF off sz i bn] obtain o' where o: "AddExpr_create False offset (const32 idx) = Some o'"
      "denotes A o' 32 (\<lambda>\<sigma>. g \<sigma> + int idx)" "\<not> isConstantExpr o'" .
    have os_sz: "os_size os' = os_size os" and os_bv: "wf_env \<sigma> \<Longrightarrow> j < os_size os \<Longrightarrow> byte_val \<sigma> os' j = byte_val \<sigma> os j" for \<sigma> j
      using os'(2) by (simp_all add: same_bytes_def)
    have ib: "nat (g \<sigma> + int idx) = nat (g \<sigma>) + idx" "nat (g \<sigma>) + idx < os_size os" "g \<sigma> + int idx < int (os_size os)"
      if "wf_env \<sigma>" "A \<sigma>" for \<sigma>
      using index_in_bounds [of A offset g \<sigma>, OF off(1) that bn [OF that] sz i] by simp_all
    have lt: "g \<sigma> + int idx < int (os_size os')" if "wf_env \<sigma>" "A \<sigma>" for \<sigma>
      using ib(3) [OF that] os_sz by simp
    have bv: "byte_val \<sigma> os' (nat (g \<sigma> + int idx)) = byte_val \<sigma> os (nat (g \<sigma>) + idx)" if "wf_env \<sigma>" "A \<sigma>" for \<sigma>
      using ib(1,2) [OF that] os_bv [OF that(1)] by simp
    have "ok (read8_sym cfg os' h' o') (\<lambda>(e, os'', h''). denotes A e 8 (\<lambda>\<sigma>. byte_val \<sigma> os' (nat (g \<sigma> + int idx))) \<and>
        obj_inv os'' \<and> same_bytes os' os'')"
    proof (rule read8_sym_ok [of os' A o' "\<lambda>\<sigma>. g \<sigma> + int idx" cfg h'])
      fix \<sigma> assume "wf_env \<sigma>" "A \<sigma>"
      then show "g \<sigma> + int idx < int (os_size os')" by (rule lt)
    qed (fact os'(1) o(2) o(3) cfg)+
    then have "ok (read8_sym cfg os' h' o') (\<lambda>(e, os'', h''). denotes A e 8 (\<lambda>\<sigma>. byte_val \<sigma> os (nat (g \<sigma>) + idx)) \<and>
        obj_inv os'' \<and> same_bytes os' os'')"
      by (rule ok_mono) (clarsimp, rule denotes_cong, assumption, rule bv)
    then show ?thesis using o(1) cfg by simp
  qed
  from read_loop_value [OF read_loop_ok [OF inv 2(2) this]] 2
  show ?thesis
    using folded_as_const [OF off(2)] zext32_id [OF denotesD(2) [OF off(1)]]
    by (simp add: read_expr_def load_val_def)
qed

lemma write8_sym_stored:
  assumes "obj_inv os" "denotes A offset 32 g" "\<not> isConstantExpr offset" "denotes A v 8 f"
  shows "ok (write8_sym os offset v) (stored A os (\<lambda>\<sigma>. nat (g \<sigma>)) 1 (\<lambda>_. f))"
proof -
  have "0 \<le> g \<sigma>" if "wf_env \<sigma>" "A \<sigma>" for \<sigma>
    using denotesD(5) [of A offset 32 g \<sigma>] assms(2) that by (simp add: in_width_def)
  then have *: "(nat (g \<sigma>) \<le> j \<and> j < nat (g \<sigma>) + 1) = (g \<sigma> = int j)" if "wf_env \<sigma>" "A \<sigma>" for \<sigma> j
    using that by fastforce
  from write8_sym_ok [OF assms] show ?thesis by (rule ok_mono) (use * in \<open>simp add: stored_def\<close>)
qed

lemma sym_write_stored:
  assumes inv: "obj_inv os" and off: "denotes A offset 32 g" "folded offset" and v: "denotes A v w f" and w: "mem_width w"
    and b: "\<And>\<sigma>. wf_env \<sigma> \<Longrightarrow> A \<sigma> \<Longrightarrow> g \<sigma> + int (num_bytes w) \<le> int (os_size os)"
    and cfg: "\<not> const_array_opt cfg"
  shows "ok (write_expr cfg os offset v)
    (stored A os (\<lambda>\<sigma>. nat (g \<sigma>)) (num_bytes w) (\<lambda>k \<sigma>. byte_of (f \<sigma>) (byte_index cfg (num_bytes w) k)))"
  using w
proof (cases rule: mem_width_cases)
  case 1
  have "ok (ZExtExpr_create v 8) (\<lambda>e. denotes A e 8 (\<lambda>\<sigma>. take_bit 8 (f \<sigma>)))"
    by (rule ZExtExpr_create_ok [OF v]) simp
  then obtain e where e: "ZExtExpr_create v 8 = Some e" "denotes A e 8 (\<lambda>\<sigma>. take_bit 8 (f \<sigma>))"
    by (auto simp: ok_iff)
  from write8_sym_stored [OF inv off(1) folded_nonconst [OF off(2)] e(2)]
  have "ok (write8_sym os offset e) (stored A os (\<lambda>\<sigma>. nat (g \<sigma>)) 1 (\<lambda>k \<sigma>. byte_of (f \<sigma>) (byte_index cfg 1 k)))"
    by (rule ok_mono) (erule stored_cong, simp add: byte_of_def)
  then show ?thesis
    using 1 e(1) denotesD(2) [OF v] folded_as_const [OF off(2)] zext32_id [OF denotesD(2) [OF off(1)]]
    by (simp add: write_expr_def)
next
  case (2 n)
  have sz: "os_size os \<le> 2 ^ 32" using inv by (simp add: obj_inv_def tables_ok_def)
  have bn: "\<And>\<sigma>. wf_env \<sigma> \<Longrightarrow> A \<sigma> \<Longrightarrow> g \<sigma> + int n \<le> int (os_size os)" using b 2 by simp
  have "ok (foldM (\<lambda>i os. do {
         o' \<leftarrow> AddExpr_create (const_array_opt cfg) offset (const32 (byte_index cfg n i));
         b \<leftarrow> ExtractExpr_create v (8 * i) 8;
         write8_sym os o' b
       }) [0..<n] os) (stored A os (\<lambda>\<sigma>. nat (g \<sigma>)) n (\<lambda>k \<sigma>. byte_of (f \<sigma>) (byte_index cfg n k)))"
  proof (rule write_loop_ok [OF inv, where f = "\<lambda>i \<sigma>. byte_of (f \<sigma>) i"])
    fix i os'
    assume i: "i < n" and os': "obj_inv os'" "os_size os' = os_size os"
    note bi = byte_index_less [OF i, of cfg]
    from byte_offset_ok [OF off sz bi bn] obtain o' where o:
      "AddExpr_create False offset (const32 (byte_index cfg n i)) = Some o'"
      "denotes A o' 32 (\<lambda>\<sigma>. g \<sigma> + int (byte_index cfg n i))" "\<not> isConstantExpr o'" .
    have "ok (ExtractExpr_create v (8 * i) 8) (\<lambda>e. denotes A e 8 (\<lambda>\<sigma>. byte_of (f \<sigma>) i))"
      unfolding byte_of_def by (rule ExtractExpr_create_ok [OF v]) (use i 2 in simp_all)
    then obtain e where e: "ExtractExpr_create v (8 * i) 8 = Some e" "denotes A e 8 (\<lambda>\<sigma>. byte_of (f \<sigma>) i)"
      by (auto simp: ok_iff)
    have pos: "nat (g \<sigma> + int (byte_index cfg n i)) = nat (g \<sigma>) + byte_index cfg n i" if "wf_env \<sigma>" "A \<sigma>" for \<sigma>
      by (rule index_in_bounds(2) [of A offset g \<sigma>, OF off(1) that bn [OF that] sz bi])
    from write8_sym_stored [OF os'(1) o(2,3) e(2)]
    have "ok (write8_sym os' o' e) (stored A os' (\<lambda>\<sigma>. nat (g \<sigma>) + byte_index cfg n i) 1 (\<lambda>_ \<sigma>. byte_of (f \<sigma>) i))"
      by (rule ok_mono) (use pos in \<open>simp add: stored_def\<close>)
    then show "ok (do {
         o' \<leftarrow> AddExpr_create (const_array_opt cfg) offset (const32 (byte_index cfg n i));
         b \<leftarrow> ExtractExpr_create v (8 * i) 8;
         write8_sym os' o' b
       }) (stored A os' (\<lambda>\<sigma>. nat (g \<sigma>) + byte_index cfg n i) 1 (\<lambda>_ \<sigma>. byte_of (f \<sigma>) i))"
      using o(1) e(1) cfg by simp
  qed
  then show ?thesis
    using 2 denotesD(2) [OF v] folded_as_const [OF off(2)] zext32_id [OF denotesD(2) [OF off(1)]]
    by (simp add: write_expr_def)
qed

text \<open>
  The two kinds of offset together: the code truncates or extends it to 32 bits and then takes
  the constant or the symbolic path.
\<close>

definition offset_ok :: "(env \<Rightarrow> bool) \<Rightarrow> expr \<Rightarrow> (env \<Rightarrow> int) \<Rightarrow> nat \<Rightarrow> nat \<Rightarrow> bool" where
  "offset_ok A offset g n sz \<longleftrightarrow>
     ok (ZExtExpr_create offset 32) (\<lambda>o'. denotes A o' 32 g \<and> (isConstantExpr o' \<or> folded o')) \<and>
     (\<exists>\<sigma>. wf_env \<sigma> \<and> A \<sigma>) \<and> (\<forall>\<sigma>. wf_env \<sigma> \<longrightarrow> A \<sigma> \<longrightarrow> g \<sigma> + int n \<le> int sz)"

lemma offset_ok_cases:
  assumes "offset_ok A offset g n sz"
  obtains (const) c where "ZExtExpr_create offset 32 = Some (ConstantExpr c)" "0 \<le> apval c"
      "\<And>\<sigma>. wf_env \<sigma> \<Longrightarrow> A \<sigma> \<Longrightarrow> g \<sigma> = apval c" "nat (apval c) + n \<le> sz"
  | (sym) o' where "ZExtExpr_create offset 32 = Some o'" "denotes A o' 32 g" "folded o'"
      "\<And>\<sigma>. wf_env \<sigma> \<Longrightarrow> A \<sigma> \<Longrightarrow> g \<sigma> + int n \<le> int sz"
proof -
  from assms obtain o' \<sigma>0 where o: "ZExtExpr_create offset 32 = Some o'" "denotes A o' 32 g"
    "isConstantExpr o' \<or> folded o'" "wf_env \<sigma>0" "A \<sigma>0"
    "\<And>\<sigma>. wf_env \<sigma> \<Longrightarrow> A \<sigma> \<Longrightarrow> g \<sigma> + int n \<le> int sz"
    by (auto simp: offset_ok_def ok_iff)
  show thesis
  proof (cases "isConstantExpr o'")
    case True
    then obtain c where c: "o' = ConstantExpr c" by (auto simp: isConstantExpr_def split: expr.splits)
    then have "0 \<le> apval c" "\<And>\<sigma>. wf_env \<sigma> \<Longrightarrow> A \<sigma> \<Longrightarrow> g \<sigma> = apval c"
      using o(2) by (auto simp: wf_ap_def in_width_def)
    moreover from this o(4-6) have "nat (apval c) + n \<le> sz" by (metis nat_int_add nat_le_iff add.commute nat_0_le of_nat_add)
    ultimately show thesis using const c o(1) by blast
  next
    case False
    then show thesis using sym o by blast
  qed
qed

lemma read_expr_resolved:
  "ZExtExpr_create offset 32 = Some o' \<Longrightarrow> getWidth o' = 32 \<Longrightarrow> read_expr cfg os h offset w = read_expr cfg os h o' w"
  by (simp add: read_expr_def zext32_id)

lemma write_expr_resolved:
  "ZExtExpr_create offset 32 = Some o' \<Longrightarrow> getWidth o' = 32 \<Longrightarrow> write_expr cfg os offset v = write_expr cfg os o' v"
  by (simp add: write_expr_def zext32_id)

lemma read_expr_ok:
  assumes inv: "obj_inv os" and off: "offset_ok A offset g (num_bytes w) (os_size os)" and w: "mem_width w"
    and cfg: "\<not> const_array_opt cfg"
  shows "ok (read_expr cfg os h offset w) (\<lambda>(e, os', h').
    denotes A e w (\<lambda>\<sigma>. take_bit w (load_val cfg \<sigma> os (nat (g \<sigma>)) (num_bytes w))) \<and> obj_inv os' \<and> same_bytes os os')"
  using off
proof (cases rule: offset_ok_cases)
  case (const c)
  from read_const_ok [OF inv w const(4) cfg, of h A]
  have "ok (read_const cfg os h (nat (apval c)) w) (\<lambda>(e, os', h').
      denotes A e w (\<lambda>\<sigma>. take_bit w (load_val cfg \<sigma> os (nat (g \<sigma>)) (num_bytes w))) \<and> obj_inv os' \<and> same_bytes os os')"
    by (rule ok_mono) (use const(3) in \<open>auto simp: denotes_def\<close>)
  then show ?thesis using const(1) by (simp add: read_expr_def)
next
  case (sym o')
  show ?thesis
    unfolding read_expr_resolved [OF sym(1) denotesD(2) [OF sym(2)]]
    by (rule sym_read_ok [OF inv sym(2,3) w sym(4) cfg]) auto
qed

lemma write_expr_stored:
  assumes inv: "obj_inv os" and off: "offset_ok A offset g (num_bytes w) (os_size os)" and v: "denotes A v w f"
    and w: "mem_width w" and cfg: "\<not> const_array_opt cfg"
  shows "ok (write_expr cfg os offset v)
    (stored A os (\<lambda>\<sigma>. nat (g \<sigma>)) (num_bytes w) (\<lambda>k \<sigma>. byte_of (f \<sigma>) (byte_index cfg (num_bytes w) k)))"
  using off
proof (cases rule: offset_ok_cases)
  case (const c)
  from write_const_stored [OF inv v w const(4), of cfg]
  have "ok (write_const cfg os (nat (apval c)) v)
    (stored A os (\<lambda>\<sigma>. nat (g \<sigma>)) (num_bytes w) (\<lambda>k \<sigma>. byte_of (f \<sigma>) (byte_index cfg (num_bytes w) k)))"
    by (rule ok_mono) (use const(3) in \<open>simp add: stored_def\<close>)
  then show ?thesis using const(1) by (simp add: write_expr_def)
next
  case (sym o')
  show ?thesis
    unfolding write_expr_resolved [OF sym(1) denotesD(2) [OF sym(2)]]
    by (rule sym_write_stored [OF inv sym(2,3) v w sym(4) cfg]) auto
qed

text \<open>A load from the bytes just stored returns the stored value.\<close>

lemma load_stored:
  assumes st: "stored A os base (num_bytes w) (\<lambda>k \<sigma>. byte_of (f \<sigma>) (byte_index cfg (num_bytes w) k)) os'"
    and \<sigma>: "wf_env \<sigma>" "A \<sigma>" and b: "base \<sigma> + num_bytes w \<le> os_size os" and w: "mem_width w" and f: "in_width w (f \<sigma>)"
  shows "take_bit w (load_val cfg \<sigma> os' (base \<sigma>) (num_bytes w)) = f \<sigma>"
proof -
  have "byte_val \<sigma> os' (base \<sigma> + byte_index cfg (num_bytes w) i) = byte_of (f \<sigma>) i" if "i < num_bytes w" for i
  proof -
    have "byte_index cfg (num_bytes w) i < num_bytes w" using that by simp
    then have "base \<sigma> + byte_index cfg (num_bytes w) i < os_size os" using b by linarith
    then show ?thesis using st \<sigma> that by (simp add: stored_def)
  qed
  then have "load_val cfg \<sigma> os' (base \<sigma>) (num_bytes w) = bytes_val (byte_of (f \<sigma>)) (num_bytes w)"
    unfolding load_val_def by (rule bytes_val_cong)
  also have "\<dots> = take_bit (8 * num_bytes w) (f \<sigma>)" by (rule bytes_val_byte_of)
  finally show ?thesis using f w by (auto simp: mem_width_def num_bytes_def min_def elim!: dvdE)
qed

end
