(* ===== verification/Object_Props.thy ===== *)
theory Object_Props
  imports Object_Access Expr_Props
begin

text \<open>
  What \<^verbatim>\<open>ObjectState\<close> promises: its constructors establish the invariant, reads and writes of any
  width act as loads and stores, and the interface of a byte memory follows.
\<close>

section \<open>Constructors\<close>

text \<open>All arrays of the cache are arrays of bytes with a 32-bit index, as the callers create them.\<close>

definition byte_arrays :: "heap \<Rightarrow> bool" where
  "byte_arrays h \<longleftrightarrow> cache_wf (arrays h) \<and> (\<forall>a \<in> set (all_arrays (arrays h)). wf_array a \<and> arr_domain a = 32 \<and> arr_range a = 8)"

lemma byte_arrays_empty: "byte_arrays \<lparr>arrays = empty_cache, const_arr_id = 0, tmp_arr_id = 0\<rparr>"
  by (simp add: byte_arrays_def cache_wf_empty) (simp add: empty_cache_def all_arrays_def)

text \<open>A state in which every byte is concrete and none is flushed.\<close>

lemma all_concrete:
  assumes "0 < os_size os" "os_size os \<le> 2 ^ 32" "length (concreteStore os) = os_size os" "concreteMask os = None"
    "flushMask os = None" "knownSymbolics os = None" "wf_root (upd_root os)"
    "list_all (wf_write (os_size os)) (writes_of (upd_head os))"
  shows "obj_inv os" "\<And>\<sigma> j. byte_val \<sigma> os j = uint (concreteStore os ! j)"
  using assms
  by (simp_all add: obj_inv_def tables_ok_def exprs_ok_def cache_inv_def coherent_def isByteConcrete_def
      isByteFlushed_def isByteKnownSymbolic_def known_def byte_val_def)

lemma ObjectState_new_ok:
  assumes sz: "0 < sz" "sz \<le> 2 ^ 32" and h: "byte_arrays h"
  shows "ok (ObjectState_new cfg h sz) (\<lambda>(os, h'). obj_inv os \<and> os_size os = sz \<and> byte_arrays h' \<and>
    (\<forall>\<sigma> j. j < sz \<longrightarrow> byte_val \<sigma> os j = 0))"
proof (cases "use_constant_arrays cfg")
  case True
  let ?os = "\<lparr>os_size = sz, concreteStore = replicate sz 0, concreteMask = None, flushMask = None,
               knownSymbolics = None, upd_root = None, upd_head = NullNode, readOnly = False\<rparr>"
  have "obj_inv ?os" "\<And>\<sigma> j. byte_val \<sigma> ?os j = uint (concreteStore ?os ! j)"
    using all_concrete [of ?os] sz by (simp_all add: wf_root_def)
  then show ?thesis using True h by (simp add: ObjectState_new_def)
next
  case False
  define n where "n = Suc (tmp_arr_id h) mod 2 ^ 32"
  obtain a c where a: "CreateArray (arrays h) (''tmp_arr'' @ utostr n) sz [] 32 8 = Some (a, c)"
    using CreateArray_total [of "arrays h" "[]" sz 8 "''tmp_arr'' @ utostr n" 32] h unfolding byte_arrays_def by blast
  have c: "cache_wf c" using CreateArray_wf [OF _ a] h by (simp add: byte_arrays_def)
  have "\<forall>b \<in> set (all_arrays c). wf_array b \<and> arr_domain b = 32 \<and> arr_range b = 8"
  proof (rule CreateArray_keeps [OF a])
    show "\<forall>b \<in> set (all_arrays (arrays h)). wf_array b \<and> arr_domain b = 32 \<and> arr_range b = 8"
      using h by (simp add: byte_arrays_def)
  qed (use sz in \<open>simp add: wf_array_def isSymbolicArray_def\<close>)
  then have wf: "wf_array a \<and> arr_domain a = 32 \<and> arr_range a = 8" "byte_arrays (h\<lparr>arrays := c, tmp_arr_id := n\<rparr>)"
    using c CreateArray_wf [OF _ a] h by (simp_all add: byte_arrays_def)
  let ?os = "\<lparr>os_size = sz, concreteStore = replicate sz 0, concreteMask = None, flushMask = None,
               knownSymbolics = None, upd_root = Some a, upd_head = NullNode, readOnly = False\<rparr>"
  have "obj_inv ?os" "\<And>\<sigma> j. byte_val \<sigma> ?os j = uint (concreteStore ?os ! j)"
    using all_concrete [of ?os] sz wf by (simp_all add: wf_root_def)
  then show ?thesis using False wf(2) a by (simp add: ObjectState_new_def n_def)
qed

lemma makeConcrete_ok:
  assumes "obj_inv os" "length cs = os_size os"
  shows "obj_inv ((makeConcrete os)\<lparr>concreteStore := cs\<rparr>)"
    "byte_val \<sigma> ((makeConcrete os)\<lparr>concreteStore := cs\<rparr>) j = uint (cs ! j)"
  using assms all_concrete [of "(makeConcrete os)\<lparr>concreteStore := cs\<rparr>"]
  by (simp_all add: makeConcrete_def obj_inv_def tables_ok_def exprs_ok_def)

text \<open>A state in which the update list holds every byte.\<close>

lemma all_symbolic:
  assumes "tables_ok os" "wf_root (upd_root os)" "list_all (wf_write (os_size os)) (writes_of (upd_head os))"
    "\<And>j. j < os_size os \<Longrightarrow> only_flushed os j"
  shows "obj_inv os" "\<And>\<sigma> j. j < os_size os \<Longrightarrow> byte_val \<sigma> os j = ul_val \<sigma> os (int j)"
  using assms
  by (auto simp: obj_inv_def exprs_ok_def cache_inv_def coherent_def only_flushed_def isByteKnownSymbolic_def byte_val_def)

definition symbolic_byte :: "nat \<Rightarrow> objstate \<Rightarrow> objstate" where
  "symbolic_byte i os = markByteFlushed (setKnownSymbolic (markByteSymbolic os i) i None) i"

lemma markByteFlushed_ok:
  assumes "tables_ok os" "i < os_size os"
  shows "tables_ok (markByteFlushed os i)" "isByteConcrete (markByteFlushed os i) = isByteConcrete os"
    "known (markByteFlushed os i) = known os" "os_size (markByteFlushed os i) = os_size os"
    "upd_root (markByteFlushed os i) = upd_root os" "upd_head (markByteFlushed os i) = upd_head os"
    "j < os_size os \<Longrightarrow> j = i \<or> isByteFlushed os j \<Longrightarrow> isByteFlushed (markByteFlushed os i) j"
  using assms
  by (auto simp: markByteFlushed_def tables_ok_def BitArray_covers_ops isByteConcrete_def known_def isByteFlushed_def
      BitArray_new_get BitArray_unset_get fun_eq_iff split: option.splits)

lemma symbolic_byte_ok:
  assumes t: "tables_ok os" and i: "i < os_size os"
  shows "tables_ok (symbolic_byte i os)" "os_size (symbolic_byte i os) = os_size os"
    "upd_root (symbolic_byte i os) = upd_root os" "upd_head (symbolic_byte i os) = upd_head os"
    "j < os_size os \<Longrightarrow> j = i \<or> only_flushed os j \<Longrightarrow> only_flushed (symbolic_byte i os) j"
proof -
  let ?o1 = "markByteSymbolic os i" let ?o2 = "setKnownSymbolic ?o1 i None"
  have t2: "tables_ok ?o1" "tables_ok ?o2" using t by simp_all
  note mf = markByteFlushed_ok [OF t2(2), of i]
  show "tables_ok (symbolic_byte i os)" "os_size (symbolic_byte i os) = os_size os"
    "upd_root (symbolic_byte i os) = upd_root os" "upd_head (symbolic_byte i os) = upd_head os"
    using mf i by (simp_all add: symbolic_byte_def)
  show "only_flushed (symbolic_byte i os) j" if "j < os_size os" "j = i \<or> only_flushed os j"
    using mf byte_status(2) [OF t i, of j] byte_status(4) [OF t2(1), of i j None] that i
    by (auto simp: symbolic_byte_def only_flushed_def)
qed

lemma fold_symbolic_byte:
  assumes "tables_ok os" "n \<le> os_size os"
  shows "tables_ok (fold symbolic_byte [0..<n] os) \<and> os_size (fold symbolic_byte [0..<n] os) = os_size os \<and>
    upd_root (fold symbolic_byte [0..<n] os) = upd_root os \<and> upd_head (fold symbolic_byte [0..<n] os) = upd_head os \<and>
    (\<forall>j < n. only_flushed (fold symbolic_byte [0..<n] os) j)"
  using assms(2)
proof (induction n)
  case (Suc n)
  then show ?case
    using symbolic_byte_ok [of "fold symbolic_byte [0..<n] os" n] by (simp add: less_Suc_eq)
qed (simp add: assms(1))

lemma ObjectState_symbolic_ok:
  assumes sz: "0 < sz" "sz \<le> 2 ^ 32" and a: "wf_array a" "arr_domain a = 32" "arr_range a = 8"
  shows "ok (ObjectState_symbolic sz a) (\<lambda>os. obj_inv os \<and> os_size os = sz \<and>
    (\<forall>\<sigma> j. j < sz \<longrightarrow> byte_val \<sigma> os j = init_val \<sigma> a (int j)))"
proof -
  let ?os = "\<lparr>os_size = sz, concreteStore = replicate sz 0, concreteMask = None, flushMask = None,
       knownSymbolics = None, upd_root = Some a, upd_head = NullNode, readOnly = False\<rparr>"
  let ?os' = "fold symbolic_byte [0..<sz] ?os"
  have "tables_ok ?os" using sz by (simp add: tables_ok_def)
  from fold_symbolic_byte [OF this, of sz]
  have f: "tables_ok ?os'" "os_size ?os' = sz" "upd_root ?os' = Some a" "upd_head ?os' = NullNode"
    "\<And>j. j < sz \<Longrightarrow> only_flushed ?os' j" by auto
  have "obj_inv ?os'" "\<And>\<sigma> j. j < sz \<Longrightarrow> byte_val \<sigma> ?os' j = ul_val \<sigma> ?os' (int j)"
    using all_symbolic [of ?os'] f a by (simp_all add: wf_root_def)
  then show ?thesis
    using f by (simp add: ObjectState_symbolic_def makeSymbolic_def ul_val_def base_val_def symbolic_byte_def [abs_def])
qed

text \<open>The copy made for a forked state has the same contents.\<close>

lemma ObjectState_clone_ok:
  assumes inv: "obj_inv os" and r: "\<not> readOnly os"
  shows "ok (ObjectState_clone os) (\<lambda>os'. obj_inv os' \<and> same_bytes os os')"
proof -
  let ?os = "os\<lparr>concreteMask := map_option (\<lambda>m. BitArray_copy m (os_size os)) (concreteMask os),
    flushMask := map_option (\<lambda>m. BitArray_copy m (os_size os)) (flushMask os), readOnly := False\<rparr>"
  have t: "tables_ok os" using inv by (simp add: obj_inv_def)
  then have t': "tables_ok ?os" by (auto simp: tables_ok_def BitArray_copy_covers)
  have st: "isByteConcrete ?os j = isByteConcrete os j" "isByteFlushed ?os j = isByteFlushed os j" if "j < os_size os" for j
    using t that by (auto simp: isByteConcrete_def isByteFlushed_def tables_ok_def BitArray_copy_get split: option.split)
  have k: "known ?os = known os" "ul_val \<sigma> ?os = ul_val \<sigma> os" for \<sigma> by (simp_all add: fun_eq_iff known_def ul_val_def)
  have bv: "byte_val \<sigma> ?os j = byte_val \<sigma> os j" if "j < os_size os" for \<sigma> j
    using st [OF that] by (intro byte_val_cong) (simp_all add: k)
  then have "obj_inv ?os"
    using inv t' st k by (auto simp: obj_inv_def exprs_ok_def cache_inv_def coherent_def isByteKnownSymbolic_def)
  then show ?thesis using bv r by (simp add: ObjectState_clone_def same_bytes_def)
qed

section \<open>The interface of a byte memory\<close>

primrec last_write :: "(nat \<times> expr) list \<Rightarrow> nat \<Rightarrow> expr option" where
  "last_write [] j = None"
| "last_write (w # ws) j = (case last_write ws j of Some v \<Rightarrow> Some v | None \<Rightarrow> if fst w = j then Some (snd w) else None)"

text \<open>
  The contract of a store of symbolic bytes: a load returns an expression for the contents and
  keeps them, a store replaces one byte.
\<close>

locale byte_memory =
  fixes valid :: "'s \<Rightarrow> bool" and size_of :: "'s \<Rightarrow> nat" and contents :: "env \<Rightarrow> 's \<Rightarrow> nat \<Rightarrow> int"
    and load :: "'s \<Rightarrow> nat \<Rightarrow> (expr \<times> 's) option" and store :: "'s \<Rightarrow> nat \<Rightarrow> expr \<Rightarrow> 's option"
  assumes load_ok: "valid s \<Longrightarrow> i < size_of s \<Longrightarrow>
      ok (load s i) (\<lambda>(e, s'). denotes (\<lambda>_. True) e 8 (\<lambda>\<sigma>. contents \<sigma> s i) \<and> valid s' \<and> size_of s' = size_of s \<and>
        (\<forall>\<sigma> j. wf_env \<sigma> \<longrightarrow> j < size_of s \<longrightarrow> contents \<sigma> s' j = contents \<sigma> s j))"
    and store_ok: "valid s \<Longrightarrow> i < size_of s \<Longrightarrow> wt v \<Longrightarrow> getWidth v = 8 \<Longrightarrow>
      ok (store s i v) (\<lambda>s'. valid s' \<and> size_of s' = size_of s \<and>
        (\<forall>\<sigma> j. wf_env \<sigma> \<longrightarrow> j < size_of s \<longrightarrow> contents \<sigma> s' j = (if j = i then eval \<sigma> v else contents \<sigma> s j)))"
begin

definition stores :: "(nat \<times> expr) list \<Rightarrow> 's \<Rightarrow> 's option" where
  "stores ws s = foldM (\<lambda>(i, v) s. store s i v) ws s"

lemma stores_ok:
  assumes "valid s" "\<forall>(i, v) \<in> set ws. i < size_of s \<and> wt v \<and> getWidth v = 8"
  shows "ok (stores ws s) (\<lambda>s'. valid s' \<and> size_of s' = size_of s \<and>
    (\<forall>\<sigma> j. wf_env \<sigma> \<longrightarrow> j < size_of s \<longrightarrow>
       contents \<sigma> s' j = (case last_write ws j of None \<Rightarrow> contents \<sigma> s j | Some v \<Rightarrow> eval \<sigma> v)))"
  using assms
proof (induction ws arbitrary: s)
  case (Cons w ws)
  obtain i v where w: "w = (i, v)" by fastforce
  from store_ok [OF Cons.prems(1), of i v] Cons.prems(2) w
  obtain s1 where s1: "store s i v = Some s1" "valid s1" "size_of s1 = size_of s"
    "\<And>\<sigma> j. wf_env \<sigma> \<Longrightarrow> j < size_of s \<Longrightarrow> contents \<sigma> s1 j = (if j = i then eval \<sigma> v else contents \<sigma> s j)"
    by (auto simp: ok_iff)
  have "ok (stores ws s1) (\<lambda>s'. valid s' \<and> size_of s' = size_of s1 \<and>
    (\<forall>\<sigma> j. wf_env \<sigma> \<longrightarrow> j < size_of s1 \<longrightarrow>
       contents \<sigma> s' j = (case last_write ws j of None \<Rightarrow> contents \<sigma> s1 j | Some v \<Rightarrow> eval \<sigma> v)))"
    using Cons.IH [OF s1(2)] Cons.prems(2) s1(3) by simp
  then have "ok (stores ws s1) (\<lambda>s'. valid s' \<and> size_of s' = size_of s \<and> (\<forall>\<sigma> j. wf_env \<sigma> \<longrightarrow> j < size_of s \<longrightarrow>
       contents \<sigma> s' j = (case last_write (w # ws) j of None \<Rightarrow> contents \<sigma> s j | Some v \<Rightarrow> eval \<sigma> v)))"
    by (rule ok_mono) (use s1(3,4) w in \<open>simp split: option.split\<close>)
  then show ?case using s1(1) w by (simp add: stores_def)
qed (simp add: stores_def)

lemma load_stores:
  assumes "valid s" "\<forall>(i, v) \<in> set ws. i < size_of s \<and> wt v \<and> getWidth v = 8" "j < size_of s"
  shows "ok (do { s \<leftarrow> stores ws s; load s j })
    (\<lambda>(e, s'). denotes (\<lambda>_. True) e 8 (\<lambda>\<sigma>. case last_write ws j of None \<Rightarrow> contents \<sigma> s j | Some v \<Rightarrow> eval \<sigma> v) \<and> valid s')"
proof -
  from stores_ok [OF assms(1,2)] obtain s1 where s1: "stores ws s = Some s1" "valid s1" "size_of s1 = size_of s"
    "\<And>\<sigma> j. wf_env \<sigma> \<Longrightarrow> j < size_of s \<Longrightarrow>
       contents \<sigma> s1 j = (case last_write ws j of None \<Rightarrow> contents \<sigma> s j | Some v \<Rightarrow> eval \<sigma> v)"
    by (auto simp: ok_iff)
  from load_ok [OF s1(2), of j] s1(1,3,4) assms(3) show ?thesis
    by (auto simp: denotes_def elim!: ok_mono)
qed

end

text \<open>The byte operations of \<^verbatim>\<open>ObjectState\<close>, with the shared state of the array cache, are such a memory.\<close>

definition obj_load :: "config \<Rightarrow> objstate \<times> heap \<Rightarrow> nat \<Rightarrow> (expr \<times> objstate \<times> heap) option" where
  "obj_load cfg s i = read8 cfg (fst s) (snd s) i"

definition obj_store :: "objstate \<times> heap \<Rightarrow> nat \<Rightarrow> expr \<Rightarrow> (objstate \<times> heap) option" where
  "obj_store s i v = map_option (\<lambda>os. (os, snd s)) (write8 (fst s) i v)"

interpretation obj: byte_memory "\<lambda>s. obj_inv (fst s)" "\<lambda>s. os_size (fst s)" "\<lambda>\<sigma> s. byte_val \<sigma> (fst s)"
  "obj_load (cfg\<lparr>const_array_opt := False\<rparr>)" obj_store for cfg
proof unfold_locales
  fix s :: "objstate \<times> heap" and i
  assume "obj_inv (fst s)" "i < os_size (fst s)"
  from read8_ok [OF this, of "cfg\<lparr>const_array_opt := False\<rparr>" "snd s" "\<lambda>_. True"]
  show "ok (obj_load (cfg\<lparr>const_array_opt := False\<rparr>) s i) (\<lambda>(e, s'). denotes (\<lambda>_. True) e 8 (\<lambda>\<sigma>. byte_val \<sigma> (fst s) i) \<and>
      obj_inv (fst s') \<and> os_size (fst s') = os_size (fst s) \<and>
      (\<forall>\<sigma> j. wf_env \<sigma> \<longrightarrow> j < os_size (fst s) \<longrightarrow> byte_val \<sigma> (fst s') j = byte_val \<sigma> (fst s) j))"
    by (auto simp: obj_load_def same_bytes_def elim!: ok_mono)
next
  fix s :: "objstate \<times> heap" and i v
  assume "obj_inv (fst s)" "i < os_size (fst s)" "wt v" "getWidth v = 8"
  from write8_ok [OF this]
  show "ok (obj_store s i v) (\<lambda>s'. obj_inv (fst s') \<and> os_size (fst s') = os_size (fst s) \<and>
      (\<forall>\<sigma> j. wf_env \<sigma> \<longrightarrow> j < os_size (fst s) \<longrightarrow> byte_val \<sigma> (fst s') j = (if j = i then eval \<sigma> v else byte_val \<sigma> (fst s) j)))"
    by (simp add: obj_store_def)
qed

section \<open>Concrete objects for the witnesses\<close>

definition demo_heap :: heap where
  "demo_heap = \<lparr>arrays = empty_cache, const_arr_id = 0, tmp_arr_id = 0\<rparr>"

definition demo_config :: config where
  "demo_config = \<lparr>const_array_opt = False, little_endian = True, use_constant_arrays = True\<rparr>"

definition demo_object :: objstate where
  "demo_object = \<lparr>os_size = 256, concreteStore = replicate 256 7, concreteMask = None, flushMask = None,
     knownSymbolics = None, upd_root = None, upd_head = NullNode, readOnly = False\<rparr>"

text \<open>A byte read from a symbolic array, used as an offset.\<close>

definition demo_offset :: expr where
  "demo_offset = ZExtExpr demo_read 32"

lemma demo_object_inv: "obj_inv demo_object" "os_size demo_object = 256"
  using all_concrete(1) [of demo_object] by (simp_all add: demo_object_def wf_root_def)

lemma demo_offset_ok: "offset_ok (\<lambda>_. True) demo_offset (\<lambda>\<sigma>. eval \<sigma> demo_read) 1 256"
proof -
  have "eval \<sigma> demo_read + 1 \<le> 256" if "wf_env \<sigma>" for \<sigma>
    using eval_in_width(1) [OF demo_wt(1) that] by (simp add: in_width_def)
  moreover have "denotes (\<lambda>_. True) demo_offset 32 (\<lambda>\<sigma>. eval \<sigma> demo_read)"
    using eval_in_width(1) [OF demo_wt(1)] in_width_mono [of 8 _ 32] by (auto simp: demo_offset_def denotes_def)
  moreover have "ZExtExpr_create demo_offset 32 = Some demo_offset" "folded demo_offset"
    by (simp_all add: demo_offset_def ZExtExpr_create_def)
  ultimately show ?thesis using wf_env_exists by (auto simp: offset_ok_def)
qed

lemma offset_ok_bound:
  assumes "offset_ok A offset g n sz" "wf_env \<sigma>" "A \<sigma>"
  shows "nat (g \<sigma>) + n \<le> sz"
proof -
  obtain o' where "denotes A o' 32 g" using assms(1) by (auto simp: offset_ok_def ok_iff)
  then have "0 \<le> g \<sigma>" using denotesD(5) [of A o' 32 g \<sigma>] assms(2,3) by (simp add: in_width_def)
  moreover have "g \<sigma> + int n \<le> int sz" using assms by (simp add: offset_ok_def)
  ultimately show ?thesis by linarith
qed

section \<open>Properties\<close>

text \<open>
  C12. A write of an expression of one bit or of whole bytes, at any offset that lies within the
  object, followed by a read of that width at the same offset returns an expression with the
  value written, in either byte order, whether the offset and the value are constant or symbolic;
  the invariant of the object holds afterwards.
\<close>
theorem write_read_roundtrip:
  assumes "obj_inv os" "offset_ok A offset g (num_bytes w) (os_size os)" "denotes A v w f" "mem_width w"
    "\<not> const_array_opt cfg"
  shows "ok (do { os' \<leftarrow> write_expr cfg os offset v; read_expr cfg os' h offset w })
    (\<lambda>(e, os', h'). denotes A e w f \<and> obj_inv os')"
proof -
  from write_expr_stored [OF assms] obtain os1 where os1: "write_expr cfg os offset v = Some os1"
    "stored A os (\<lambda>\<sigma>. nat (g \<sigma>)) (num_bytes w) (\<lambda>k \<sigma>. byte_of (f \<sigma>) (byte_index cfg (num_bytes w) k)) os1"
    by (auto simp: ok_iff)
  then have inv1: "obj_inv os1" "os_size os1 = os_size os" by (simp_all add: stored_def)
  have val: "take_bit w (load_val cfg \<sigma> os1 (nat (g \<sigma>)) (num_bytes w)) = f \<sigma>" if "wf_env \<sigma>" "A \<sigma>" for \<sigma>
    using load_stored [of A os "\<lambda>\<sigma>. nat (g \<sigma>)" w f cfg os1 \<sigma>] os1(2) that assms(3,4)
      offset_ok_bound [of A offset g "num_bytes w" "os_size os" \<sigma>] assms(2) denotesD(5) [of A v w f \<sigma>] by simp
  have "offset_ok A offset g (num_bytes w) (os_size os1)" using assms(2) inv1(2) by simp
  from read_expr_ok [OF inv1(1) this assms(4,5), of h]
  have "ok (read_expr cfg os1 h offset w) (\<lambda>(e, os', h'). denotes A e w f \<and> obj_inv os')"
    by (rule ok_mono) (use val in \<open>auto simp: denotes_def\<close>)
  then show ?thesis using os1(1) by simp
qed

theorem write_read_roundtrip_witness:
  "obj_inv demo_object \<and> offset_ok (\<lambda>_. True) demo_offset (\<lambda>\<sigma>. eval \<sigma> demo_read) (num_bytes 8) (os_size demo_object) \<and>
   ok (do { os' \<leftarrow> write_expr demo_config demo_object demo_offset demo_read; read_expr demo_config os' demo_heap demo_offset 8 })
    (\<lambda>(e, os', h'). denotes (\<lambda>_. True) e 8 (\<lambda>\<sigma>. eval \<sigma> demo_read) \<and> obj_inv os')"
  using write_read_roundtrip [of demo_object "\<lambda>_. True" demo_offset "\<lambda>\<sigma>. eval \<sigma> demo_read" 8 demo_read
      "\<lambda>\<sigma>. eval \<sigma> demo_read" demo_config demo_heap] demo_object_inv demo_offset_ok
  by (simp add: num_bytes_def mem_width_def demo_config_def denotes_def)

text \<open>
  C10. A write within the object changes exactly the bytes it covers: byte \<open>k\<close> of the range holds
  the corresponding digit of the value, every other byte keeps its contents.
\<close>
theorem write_expr_contents:
  assumes "obj_inv os" "offset_ok A offset g (num_bytes w) (os_size os)" "denotes A v w f" "mem_width w"
    "\<not> const_array_opt cfg"
  shows "ok (write_expr cfg os offset v) (\<lambda>os'. obj_inv os' \<and> os_size os' = os_size os \<and>
    (\<forall>\<sigma> j. wf_env \<sigma> \<longrightarrow> A \<sigma> \<longrightarrow> j < os_size os \<longrightarrow> byte_val \<sigma> os' j =
       (if nat (g \<sigma>) \<le> j \<and> j < nat (g \<sigma>) + num_bytes w
        then byte_of (f \<sigma>) (byte_index cfg (num_bytes w) (j - nat (g \<sigma>))) else byte_val \<sigma> os j)))"
  using write_expr_stored [OF assms] by (rule ok_mono) (simp add: stored_def)

theorem write_expr_contents_witness:
  "obj_inv demo_object \<and> offset_ok (\<lambda>_. True) demo_offset (\<lambda>\<sigma>. eval \<sigma> demo_read) (num_bytes 8) (os_size demo_object) \<and>
   ok (write_expr demo_config demo_object demo_offset (demo_const 9)) (\<lambda>os'. obj_inv os' \<and> os_size os' = 256 \<and>
    (\<forall>\<sigma> j. wf_env \<sigma> \<longrightarrow> j < 256 \<longrightarrow> byte_val \<sigma> os' j = (if eval \<sigma> demo_read = int j then 9 else 7)))"
proof -
  have d: "denotes (\<lambda>_. True) (demo_const 9) 8 (\<lambda>_. 9)" by (simp add: denotes_def in_width_def)
  have b: "byte_val \<sigma> demo_object j = 7" if "j < 256" for \<sigma> j
    using that all_concrete(2) [of demo_object] by (simp add: demo_object_def wf_root_def)
  have n: "(nat (eval \<sigma> demo_read) \<le> j \<and> j < Suc (nat (eval \<sigma> demo_read))) = (eval \<sigma> demo_read = int j)" if "wf_env \<sigma>" for \<sigma> j
    using eval_nonneg [OF demo_wt(1) that] by auto
  have "ok (write_expr demo_config demo_object demo_offset (demo_const 9)) (\<lambda>os'. obj_inv os' \<and> os_size os' = 256 \<and>
    (\<forall>\<sigma> j. wf_env \<sigma> \<longrightarrow> j < 256 \<longrightarrow> byte_val \<sigma> os' j = (if eval \<sigma> demo_read = int j then 9 else 7)))"
    using write_expr_contents [of demo_object "\<lambda>_. True" demo_offset "\<lambda>\<sigma>. eval \<sigma> demo_read" 8 "demo_const 9"
        "\<lambda>_. 9" demo_config] demo_object_inv demo_offset_ok d
    by (auto simp: num_bytes_def mem_width_def demo_config_def byte_of_def b n elim!: ok_mono)
  then show ?thesis using demo_object_inv demo_offset_ok by (simp add: num_bytes_def)
qed

text \<open>
  C11. A read of one bit or of whole bytes within the object returns an expression for the contents
  of those bytes in the byte order of the configuration; the object may have flushed its caches,
  but its contents are the same.
\<close>
theorem read_expr_correct:
  assumes "obj_inv os" "offset_ok A offset g (num_bytes w) (os_size os)" "mem_width w" "\<not> const_array_opt cfg"
  shows "ok (read_expr cfg os h offset w) (\<lambda>(e, os', h').
    denotes A e w (\<lambda>\<sigma>. take_bit w (load_val cfg \<sigma> os (nat (g \<sigma>)) (num_bytes w))) \<and> obj_inv os' \<and> same_bytes os os')"
  by (rule read_expr_ok) (fact assms)+

theorem read_expr_correct_witness:
  "obj_inv demo_object \<and> offset_ok (\<lambda>_. True) demo_offset (\<lambda>\<sigma>. eval \<sigma> demo_read) (num_bytes 8) (os_size demo_object) \<and>
   ok (read_expr demo_config demo_object demo_heap demo_offset 8) (\<lambda>(e, os', h').
    denotes (\<lambda>_. True) e 8 (\<lambda>\<sigma>. take_bit 8 (load_val demo_config \<sigma> demo_object (nat (eval \<sigma> demo_read)) 1)) \<and>
    obj_inv os' \<and> same_bytes demo_object os')"
  using read_expr_correct [of demo_object "\<lambda>_. True" demo_offset "\<lambda>\<sigma>. eval \<sigma> demo_read" 8 demo_config demo_heap]
    demo_object_inv demo_offset_ok
  by (simp add: num_bytes_def mem_width_def demo_config_def)



text \<open>
  C13. Byte writes refine assignments to a map: after any sequence of writes within the object a
  read of a byte returns the value of the last write to it, or what the object held before.
\<close>
theorem last_write_wins:
  assumes "obj_inv os" "\<forall>(i, v) \<in> set ws. i < os_size os \<and> wt v \<and> getWidth v = 8" "j < os_size os"
  shows "ok (do { os' \<leftarrow> foldM (\<lambda>(i, v) os. write8 os i v) ws os; read8 (cfg\<lparr>const_array_opt := False\<rparr>) os' h j })
    (\<lambda>(e, os', h'). denotes (\<lambda>_. True) e 8
       (\<lambda>\<sigma>. case last_write ws j of None \<Rightarrow> byte_val \<sigma> os j | Some v \<Rightarrow> eval \<sigma> v) \<and> obj_inv os')"
proof -
  have "obj.stores ws (os, h) = map_option (\<lambda>os. (os, h)) (foldM (\<lambda>(i, v) os. write8 os i v) ws os)"
    by (induction ws arbitrary: os) (auto simp: obj.stores_def obj_store_def split: bind_split)
  then show ?thesis
    using obj.load_stores [of "(os, h)" ws j cfg] assms
    by (cases "foldM (\<lambda>(i, v) os. write8 os i v) ws os") (simp_all add: obj_load_def case_prod_beta' cong: option.case_cong)
qed

theorem last_write_wins_witness:
  "obj_inv demo_object \<and> ok (do { os' \<leftarrow> foldM (\<lambda>(i, v) os. write8 os i v) [(3, demo_read), (5, demo_const 1)] demo_object;
      read8 (demo_config\<lparr>const_array_opt := False\<rparr>) os' demo_heap 3 })
    (\<lambda>(e, os', h'). denotes (\<lambda>_. True) e 8 (\<lambda>\<sigma>. eval \<sigma> demo_read) \<and> obj_inv os')"
  using last_write_wins [of demo_object "[(3, demo_read), (5, demo_const 1)]" 3 demo_config demo_heap] demo_object_inv
  by (simp add: in_width_def)

text \<open>
  C29. Flushing the caches for a symbolic access keeps the contents of the object and leaves every
  byte of the range in the update list; a flush for writing leaves it nowhere else.
\<close>
theorem flush_keeps_contents:
  assumes "obj_inv os" "b + n \<le> os_size os"
  shows "ok (flushRangeForRead b n os) (\<lambda>os'. obj_inv os' \<and> same_bytes os os' \<and> (\<forall>j \<in> {b..<b + n}. isByteFlushed os' j)) \<and>
    ok (flushRangeForWrite b n os) (\<lambda>os'. obj_inv os' \<and> same_bytes os os' \<and>
      (\<forall>j \<in> {b..<b + n}. isByteFlushed os' j \<and> \<not> isByteConcrete os' j \<and> \<not> isByteKnownSymbolic os' j))"
  using flushRangeForRead_ok [OF assms] flushRangeForWrite_ok [OF assms]
  by (simp add: only_flushed_def isByteKnownSymbolic_def)

theorem flush_keeps_contents_witness:
  "obj_inv demo_object \<and> ok (flushRangeForWrite 2 5 demo_object) (\<lambda>os'. obj_inv os' \<and> same_bytes demo_object os' \<and>
      (\<forall>j \<in> {2..<7}. isByteFlushed os' j \<and> \<not> isByteConcrete os' j \<and> \<not> isByteKnownSymbolic os' j))"
  using flush_keeps_contents [of demo_object 2 5] demo_object_inv by simp



end
