(* ===== verification/Root_Cause.thy ===== *)
theory Root_Cause
  imports Prelude
begin

text \<open>
  \<^verbatim>\<open>RootCauseManager\<close> of \<^verbatim>\<open>lib/Core/RootCause.cpp\<close>: it gives every program location that caused a
  persistency event a 64-bit identifier, records which locations mask each other, and counts the
  ones reported as bugs.  Hash tables are lists, newest entry first; hash sets are lists without
  duplicates.  Their iteration order is unspecified in the source, and no theorem depends on it.
  The two hash functions of the C++ library are parameters.
\<close>

section \<open>Locations\<close>

datatype RootCauseReason = PM_Unpersisted | PM_UnnecessaryFlush | PM_FlushOnUnmodified
  | PM_UnnecessaryFence | PM_SemanticPerformance | PM_SemanticCorrectness

text \<open>A stack frame is the calling instruction and the function, both as addresses.\<close>

type_synonym frame = "nat \<times> nat"

record location =
  allocSite :: nat
  inst :: nat
  stack :: "frame list"
  reason :: RootCauseReason
  timestamp :: u64
  stackStr :: string
  maskedRoots :: "u64 list"
  maskingRoots :: "u64 list"

text \<open>What a location takes from the execution state: its stack, the printed stack and the clocks.\<close>

record exec_view =
  ev_stack :: "frame list"
  ev_dump :: string
  ev_time :: u64
  stateTime :: u64

definition RootCauseLocation :: "exec_view \<Rightarrow> nat \<Rightarrow> nat \<Rightarrow> RootCauseReason \<Rightarrow> location" where
  "RootCauseLocation st site pc r = \<lparr>allocSite = site, inst = pc, stack = ev_stack st, reason = r,
     timestamp = ev_time st, stackStr = [], maskedRoots = [], maskingRoots = []\<rparr>"

definition installExampleStackTrace :: "exec_view \<Rightarrow> location \<Rightarrow> location" where
  "installExampleStackTrace st l = l\<lparr>stackStr := ev_dump st\<rparr>"

definition addMaskedError :: "u64 \<Rightarrow> location \<Rightarrow> location" where
  "addMaskedError i l = l\<lparr>maskedRoots := List.insert i (maskedRoots l)\<rparr>"

definition addMaskingError :: "u64 \<Rightarrow> location \<Rightarrow> location" where
  "addMaskingError i l = l\<lparr>maskingRoots := List.insert i (maskingRoots l)\<rparr>"

definition loc_eq :: "location \<Rightarrow> location \<Rightarrow> bool" where
  "loc_eq l r \<longleftrightarrow> allocSite l = allocSite r \<and> inst l = inst r \<and> stack l = stack r \<and> reason l = reason r"

primrec reasonString :: "RootCauseReason \<Rightarrow> string" where
  "reasonString PM_Unpersisted = ''write (unpersisted)''"
| "reasonString PM_UnnecessaryFlush = ''flush (unnecessary)''"
| "reasonString PM_FlushOnUnmodified = ''flush (never modified)''"
| "reasonString PM_UnnecessaryFence = ''fence (unnecessary)''"
| "reasonString PM_SemanticCorrectness = ''semantic correctness!''"
| "reasonString PM_SemanticPerformance = ''semantic performance!''"

section \<open>The manager\<close>

record info =
  rootCause :: location
  occurences :: u64

record rc_stats =
  nvmBugsTotalOccurences :: u64
  nvmBugsCrtOccurences :: u64
  nvmBugsPerfOccurences :: u64
  nvmBugsTotalUniq :: u64
  nvmBugsCrtUniq :: u64
  nvmBugsPerfUniq :: u64

record manager =
  usedIds :: "u64 list"
  rootToId :: "(location \<times> u64) list"
  idToRoot :: "(u64 \<times> info) list"
  totalOccurences :: u64
  buggyIds :: "u64 list"
  largestStack :: nat
  stats :: rc_stats

definition RootCauseManager_new :: manager where
  "RootCauseManager_new = \<lparr>usedIds = [], rootToId = [], idToRoot = [], totalOccurences = 0, buggyIds = [],
     largestStack = 0, stats = \<lparr>nvmBugsTotalOccurences = 0, nvmBugsCrtOccurences = 0, nvmBugsPerfOccurences = 0,
       nvmBugsTotalUniq = 0, nvmBugsCrtUniq = 0, nvmBugsPerfUniq = 0\<rparr>\<rparr>"

definition root_find :: "location \<Rightarrow> (location \<times> u64) list \<Rightarrow> u64 option" where
  "root_find l xs = map_option snd (find (\<lambda>(l', i). loc_eq l' l) xs)"

text \<open>The search for an unused identifier, which does not end when all are used.\<close>

partial_function (option) next_unused :: "u64 list \<Rightarrow> u64 \<Rightarrow> u64 option" where
  [code]: "next_unused used i = (if i \<in> set used then next_unused used (i + 1) else Some i)"

definition getNewId :: "(string \<Rightarrow> u64) \<Rightarrow> (u64 \<Rightarrow> u64) \<Rightarrow> exec_view \<Rightarrow> location \<Rightarrow> manager \<Rightarrow> (u64 \<times> manager) option" where
  "getNewId hash_str hash_int st l m = do {
     i \<leftarrow> next_unused (usedIds m) (hash_int (hash_str (stackStr l) XOR stateTime st));
     Some (i, m\<lparr>usedIds := i # usedIds m\<rparr>)
   }"

definition getRootCauseLocationID ::
  "(string \<Rightarrow> u64) \<Rightarrow> (u64 \<Rightarrow> u64) \<Rightarrow> exec_view \<Rightarrow> nat \<Rightarrow> nat \<Rightarrow> RootCauseReason \<Rightarrow> manager \<Rightarrow> (u64 \<times> manager) option" where
  "getRootCauseLocationID hash_str hash_int st site pc r m =
     (let rcl = RootCauseLocation st site pc r
      in case root_find rcl (rootToId m) of
        Some i \<Rightarrow> Some (i, m)
      | None \<Rightarrow> do {
          let uniqRcl = \<lparr>rootCause = installExampleStackTrace st rcl, occurences = 0\<rparr>;
          (newId, m) \<leftarrow> getNewId hash_str hash_int st (rootCause uniqRcl) m;
          Some (newId, m\<lparr>rootToId := (rcl, newId) # rootToId m, idToRoot := (newId, uniqRcl) # idToRoot m\<rparr>)
        })"

text \<open>The recursion over masked locations, with a bound on its depth.\<close>

primrec getAllMaskedIDs :: "nat \<Rightarrow> manager \<Rightarrow> u64 list \<Rightarrow> u64 list option" where
  "getAllMaskedIDs 0 m ids = None"
| "getAllMaskedIDs (Suc n) m ids = do {
     ret \<leftarrow> foldM (\<lambda>i ret. do {
         ri \<leftarrow> map_of (idToRoot m) i;
         subset \<leftarrow> getAllMaskedIDs n m (maskedRoots (rootCause ri));
         Some (List.union ret subset)
       }) ids ids;
     assert_that (length ids \<le> length ret);
     Some ret
   }"

definition update_info :: "u64 \<Rightarrow> (info \<Rightarrow> info) \<Rightarrow> (u64 \<times> info) list \<Rightarrow> (u64 \<times> info) list" where
  "update_info i f xs = map (\<lambda>(j, x). (j, if j = i then f x else x)) xs"

definition getRootCauseLocationID_masking ::
  "(string \<Rightarrow> u64) \<Rightarrow> (u64 \<Rightarrow> u64) \<Rightarrow> exec_view \<Rightarrow> nat \<Rightarrow> nat \<Rightarrow> RootCauseReason \<Rightarrow> u64 list \<Rightarrow> manager \<Rightarrow>
   (u64 \<times> manager) option" where
  "getRootCauseLocationID_masking hash_str hash_int st site pc r ids m =
     (let rcl = RootCauseLocation st site pc r
      in case root_find rcl (rootToId m) of
        Some i \<Rightarrow> Some (i, m)
      | None \<Rightarrow> do {
          let uniqRcl = installExampleStackTrace st rcl;
          (newId, m) \<leftarrow> getNewId hash_str hash_int st uniqRcl m;
          all \<leftarrow> getAllMaskedIDs (Suc (length (idToRoot m))) m ids;
          (rcl, uniqRcl, roots) \<leftarrow> foldM (\<lambda>i (rcl, uniqRcl, roots). do {
              assert_that (map_of roots i \<noteq> None);
              Some (addMaskedError i rcl, addMaskedError i uniqRcl,
                update_info i (\<lambda>x. x\<lparr>rootCause := addMaskingError newId (rootCause x)\<rparr>) roots)
            }) all (rcl, uniqRcl, idToRoot m);
          Some (newId, m\<lparr>rootToId := (rcl, newId) # rootToId m,
            idToRoot := (newId, \<lparr>rootCause = uniqRcl, occurences = 0\<rparr>) # roots\<rparr>)
        })"

definition is_correctness :: "RootCauseReason \<Rightarrow> bool" where
  "is_correctness r \<longleftrightarrow> r = PM_Unpersisted \<or> r = PM_SemanticCorrectness"

definition count_bug :: "bool \<Rightarrow> bool \<Rightarrow> rc_stats \<Rightarrow> rc_stats" where
  "count_bug crt new s =
     (let s = s\<lparr>nvmBugsTotalOccurences := nvmBugsTotalOccurences s + 1\<rparr>;
          s = (if crt then s\<lparr>nvmBugsCrtOccurences := nvmBugsCrtOccurences s + 1\<rparr>
               else s\<lparr>nvmBugsPerfOccurences := nvmBugsPerfOccurences s + 1\<rparr>)
      in if \<not> new then s
         else if crt then s\<lparr>nvmBugsTotalUniq := nvmBugsTotalUniq s + 1, nvmBugsCrtUniq := nvmBugsCrtUniq s + 1\<rparr>
         else s\<lparr>nvmBugsTotalUniq := nvmBugsTotalUniq s + 1, nvmBugsPerfUniq := nvmBugsPerfUniq s + 1\<rparr>)"

definition mark_one :: "u64 \<Rightarrow> manager \<Rightarrow> manager option" where
  "mark_one i m = do {
     ri \<leftarrow> map_of (idToRoot m) i;
     let m = m\<lparr>stats := count_bug (is_correctness (reason (rootCause ri))) (occurences ri = 0) (stats m)\<rparr>;
     let m = m\<lparr>idToRoot := update_info i (\<lambda>x. x\<lparr>occurences := occurences x + 1\<rparr>) (idToRoot m),
               totalOccurences := totalOccurences m + 1, buggyIds := List.insert i (buggyIds m)\<rparr>;
     assert_that (totalOccurences m > 0);
     Some (m\<lparr>largestStack := max (largestStack m) (length (stack (rootCause ri)))\<rparr>)
   }"

definition markAsBug :: "u64 \<Rightarrow> manager \<Rightarrow> manager option" where
  "markAsBug i m = do {
     ri \<leftarrow> map_of (idToRoot m) i;
     foldM mark_one (List.insert i (maskedRoots (rootCause ri))) m
   }"

text \<open>\<^verbatim>\<open>clear\<close> returns at once: the code after its first statement is never reached.\<close>

definition clear :: "manager \<Rightarrow> manager" where
  "clear m = m"

section \<open>Reports\<close>

record summary =
  nUnpersisted :: u64
  nExtra :: u64
  nClean :: u64
  nFence :: u64
  nUnpersistedOc :: u64
  nExtraOc :: u64
  nCleanOc :: u64
  nFenceOc :: u64

definition count_summary :: "info \<Rightarrow> summary \<Rightarrow> summary" where
  "count_summary ri s =
     (case reason (rootCause ri) of
        PM_Unpersisted \<Rightarrow> s\<lparr>nUnpersisted := nUnpersisted s + 1, nUnpersistedOc := nUnpersistedOc s + occurences ri\<rparr>
      | PM_SemanticCorrectness \<Rightarrow> s\<lparr>nUnpersisted := nUnpersisted s + 1, nUnpersistedOc := nUnpersistedOc s + occurences ri\<rparr>
      | PM_UnnecessaryFlush \<Rightarrow> s\<lparr>nExtra := nExtra s + 1, nExtraOc := nExtraOc s + occurences ri\<rparr>
      | PM_SemanticPerformance \<Rightarrow> s\<lparr>nExtra := nExtra s + 1, nExtraOc := nExtraOc s + occurences ri\<rparr>
      | PM_FlushOnUnmodified \<Rightarrow> s\<lparr>nClean := nClean s + 1, nCleanOc := nCleanOc s + occurences ri\<rparr>
      | PM_UnnecessaryFence \<Rightarrow> s\<lparr>nFence := nFence s + 1, nFenceOc := nFenceOc s + occurences ri\<rparr>)"

definition summarize :: "manager \<Rightarrow> summary option" where
  "summarize m = foldM (\<lambda>i s. do { ri \<leftarrow> map_of (idToRoot m) i; Some (count_summary ri s) }) (buggyIds m)
     \<lparr>nUnpersisted = 0, nExtra = 0, nClean = 0, nFence = 0, nUnpersistedOc = 0, nExtraOc = 0, nCleanOc = 0, nFenceOc = 0\<rparr>"

definition line :: "string \<Rightarrow> nat \<Rightarrow> string" where
  "line label n = label @ utostr n @ [CHR 0x0A]"

definition getSummary :: "manager \<Rightarrow> string option" where
  "getSummary m = do {
     s \<leftarrow> summarize m;
     Some (''Persistent Memory Bugs:'' @ [CHR 0x0A] @
       line ([CHR 0x09] @ ''Number of bugs: '') (length (buggyIds m)) @
       line ([CHR 0x09, CHR 0x09] @ ''Number of unpersisted write bugs (correctness): '') (unat (nUnpersisted s)) @
       line ([CHR 0x09, CHR 0x09] @ ''Number of extra flush bugs (performance): '') (unat (nExtra s)) @
       line ([CHR 0x09, CHR 0x09] @ ''Number of flushes to untouched memory (performance): '') (unat (nClean s)) @
       line ([CHR 0x09, CHR 0x09] @ ''Number of fences with nothing to commit (performance): '') (unat (nFence s)) @
       line ([CHR 0x09] @ ''Overall bug occurences: '') (unat (totalOccurences m)) @
       line ([CHR 0x09, CHR 0x09] @ ''Number of unpersisted write occurences (correctness): '') (unat (nUnpersistedOc s)) @
       line ([CHR 0x09, CHR 0x09] @ ''Number of extra flush occurences (performance): '') (unat (nExtraOc s)) @
       line ([CHR 0x09, CHR 0x09] @ ''Number of untouched memory flush occurences (performance): '') (unat (nCleanOc s)) @
       line ([CHR 0x09, CHR 0x09] @ ''Number of occurence of fences with nothing to commit (performance): '') (unat (nFenceOc s)))
   }"

text \<open>
  The table of bugs as rows of cells.  The position of an instruction and the name of a function
  come from the module and are parameters.
\<close>

record position =
  src_file :: string
  lineno :: nat

definition csv_header :: "manager \<Rightarrow> string list" where
  "csv_header m = [''ID'', ''Timestamp'', ''Type'', ''Occurences''] @
     concat (map (\<lambda>k. [''StackFrame'' @ utostr k, ''StackFrame'' @ utostr k @ ''_Function'',
       ''StackFrame'' @ utostr k @ ''_File'', ''StackFrame'' @ utostr k @ ''_Line'']) [0..<largestStack m])"

primrec csv_frames :: "(nat \<Rightarrow> position) \<Rightarrow> (nat \<Rightarrow> string) \<Rightarrow> nat \<Rightarrow> frame list \<Rightarrow> string list" where
  "csv_frames pos fname target [] = []"
| "csv_frames pos fname target (sf # sfs) =
     (let p = pos target; f = fname (snd sf)
      in [f @ (if src_file p = [] then [] else '' at '' @ src_file p @ '':'' @ utostr (lineno p)), f, src_file p, utostr (lineno p)] @
         csv_frames pos fname (fst sf) sfs)"

definition csv_row :: "(nat \<Rightarrow> position) \<Rightarrow> (nat \<Rightarrow> string) \<Rightarrow> manager \<Rightarrow> u64 \<Rightarrow> string list option" where
  "csv_row pos fname m i = do {
     ri \<leftarrow> map_of (idToRoot m) i;
     let rcl = rootCause ri;
     assert_that (length (stack rcl) \<le> largestStack m);
     Some ([utostr (unat i), utostr (unat (timestamp rcl)), reasonString (reason rcl), utostr (unat (occurences ri))] @
       csv_frames pos fname (inst rcl) (rev (stack rcl)))
   }"

definition dumpCSV :: "(nat \<Rightarrow> position) \<Rightarrow> (nat \<Rightarrow> string) \<Rightarrow> manager \<Rightarrow> string list list option" where
  "dumpCSV pos fname m = foldM (\<lambda>i rows. do { r \<leftarrow> csv_row pos fname m i; Some (rows @ [r]) }) (buggyIds m) [csv_header m]"

end
