(* ===== verification/Root_Cause_Inv.thy ===== *)
theory Root_Cause_Inv
  imports Root_Cause
begin

text \<open>
  The invariant of the root-cause manager and what its operations promise: identifiers are in
  bijection with locations, the masking relation is flat, acyclic and symmetric, and the counters
  agree with the occurrences recorded per location.
\<close>

section \<open>Invariant\<close>

definition key :: "location \<Rightarrow> nat \<times> nat \<times> frame list \<times> RootCauseReason" where
  "key l = (allocSite l, inst l, stack l, reason l)"

lemma loc_eq_key: "loc_eq l r \<longleftrightarrow> key l = key r"
  by (simp add: loc_eq_def key_def)

definition masked :: "(u64 \<times> info) list \<Rightarrow> u64 \<Rightarrow> u64 set" where
  "masked xs i = (case map_of xs i of None \<Rightarrow> {} | Some x \<Rightarrow> set (maskedRoots (rootCause x)))"

definition masking :: "(u64 \<times> info) list \<Rightarrow> u64 \<Rightarrow> u64 set" where
  "masking xs i = (case map_of xs i of None \<Rightarrow> {} | Some x \<Rightarrow> set (maskingRoots (rootCause x)))"

text \<open>A location masks only older ones.\<close>

primrec older :: "(u64 \<times> info) list \<Rightarrow> bool" where
  "older [] \<longleftrightarrow> True"
| "older (x # xs) \<longleftrightarrow> set (maskedRoots (rootCause (snd x))) \<subseteq> fst ` set xs \<and> distinct (maskedRoots (rootCause (snd x))) \<and> older xs"

definition ids_ok :: "manager \<Rightarrow> bool" where
  "ids_ok m \<longleftrightarrow> distinct (map fst (idToRoot m)) \<and> fst ` set (idToRoot m) \<subseteq> set (usedIds m) \<and>
     map (\<lambda>(l, i). (key l, i)) (rootToId m) = map (\<lambda>(i, x). (key (rootCause x), i)) (idToRoot m) \<and>
     distinct (map (\<lambda>(i, x). key (rootCause x)) (idToRoot m))"

definition masks_ok :: "manager \<Rightarrow> bool" where
  "masks_ok m \<longleftrightarrow> older (idToRoot m) \<and>
     (\<forall>i j. j \<in> masked (idToRoot m) i \<longrightarrow> masked (idToRoot m) j \<subseteq> masked (idToRoot m) i) \<and>
     (\<forall>i j. j \<in> masked (idToRoot m) i \<longleftrightarrow> i \<in> masking (idToRoot m) j)"

definition counts_ok :: "manager \<Rightarrow> bool" where
  "counts_ok m \<longleftrightarrow> unat (totalOccurences m) = sum_list (map (\<lambda>(i, x). unat (occurences x)) (idToRoot m)) \<and>
     distinct (buggyIds m) \<and> set (buggyIds m) = {i. \<exists>x. (i, x) \<in> set (idToRoot m) \<and> occurences x \<noteq> 0} \<and>
     (\<forall>i x. (i, x) \<in> set (idToRoot m) \<longrightarrow> i \<in> set (buggyIds m) \<longrightarrow> length (stack (rootCause x)) \<le> largestStack m) \<and>
     nvmBugsTotalOccurences (stats m) = nvmBugsCrtOccurences (stats m) + nvmBugsPerfOccurences (stats m) \<and>
     nvmBugsTotalUniq (stats m) = nvmBugsCrtUniq (stats m) + nvmBugsPerfUniq (stats m)"

definition rcm_inv :: "manager \<Rightarrow> bool" where
  "rcm_inv m \<longleftrightarrow> ids_ok m \<and> masks_ok m \<and> counts_ok m"

lemma rcm_inv_new: "rcm_inv RootCauseManager_new"
  by (simp add: rcm_inv_def ids_ok_def masks_ok_def counts_ok_def RootCauseManager_new_def masked_def masking_def)

section \<open>Identifiers\<close>

lemma next_unused_fresh: "next_unused used i = Some j \<Longrightarrow> j \<notin> set used"
  by (induction rule: next_unused.raw_induct [rotated 1, consumes 1]) (auto split: if_splits)

text \<open>The search ends when some identifier is unused.\<close>

lemma next_unused_step: "i + of_nat k \<notin> set used \<Longrightarrow> \<exists>j. next_unused used i = Some j"
proof (induction k arbitrary: i)
  case 0
  then show ?case by (simp add: next_unused.simps)
next
  case (Suc k)
  then show ?case
    using Suc.IH [of "i + 1"] by (cases "i \<in> set used") (simp_all add: next_unused.simps [of used i] algebra_simps)
qed

lemma next_unused_total: "set used \<noteq> UNIV \<Longrightarrow> \<exists>j. next_unused used i = Some j"
proof -
  assume "set used \<noteq> UNIV"
  then obtain j where "j \<notin> set used" by blast
  then have "i + of_nat (unat (j - i)) \<notin> set used" by (simp add: unat_of_nat)
  then show ?thesis by (rule next_unused_step)
qed

lemma root_find_key:
  "root_find l xs = map_of (map (\<lambda>(l, i). (key l, i)) xs) (key l)"
proof (induction xs)
  case (Cons x xs)
  obtain l' i where "x = (l', i)" by fastforce
  then show ?case using Cons by (simp add: root_find_def loc_eq_key)
qed (simp add: root_find_def)

lemma ids_ok_find:
  assumes "ids_ok m"
  shows "root_find l (rootToId m) = Some i \<longleftrightarrow> (\<exists>x. map_of (idToRoot m) i = Some x \<and> key (rootCause x) = key l)"
proof -
  have k: "distinct (map fst (map (\<lambda>(i, x). (key (rootCause x), i)) (idToRoot m)))"
    using assms by (simp add: ids_ok_def comp_def case_prod_beta')
  have "root_find l (rootToId m) = map_of (map (\<lambda>(i, x). (key (rootCause x), i)) (idToRoot m)) (key l)"
    using assms by (simp add: root_find_key ids_ok_def)
  also have "\<dots> = Some i \<longleftrightarrow> (key l, i) \<in> set (map (\<lambda>(i, x). (key (rootCause x), i)) (idToRoot m))"
    using k by (rule map_of_eq_Some_iff)
  also have "\<dots> \<longleftrightarrow> (\<exists>x. map_of (idToRoot m) i = Some x \<and> key (rootCause x) = key l)"
    using assms by (force simp: ids_ok_def map_of_eq_Some_iff)
  finally show ?thesis .
qed

lemma ids_ok_find_None:
  assumes "ids_ok m"
  shows "root_find l (rootToId m) = None \<longleftrightarrow> key l \<notin> (\<lambda>(i, x). key (rootCause x)) ` set (idToRoot m)"
proof -
  have "root_find l (rootToId m) = map_of (map (\<lambda>(i, x). (key (rootCause x), i)) (idToRoot m)) (key l)"
    using assms by (simp add: root_find_key ids_ok_def)
  then show ?thesis by (force simp: map_of_eq_None_iff)
qed

section \<open>Masked locations\<close>

lemma older_masked:
  assumes "older xs" "distinct (map fst xs)"
  shows "masked xs i \<subseteq> fst ` set xs"
  using assms
proof (induction xs)
  case (Cons x xs)
  then have "masked xs i \<subseteq> fst ` set xs" by simp
  then show ?case using Cons.prems by (cases "fst x = i") (auto simp: masked_def)
qed (simp add: masked_def)

text \<open>The number of entries from the one of \<open>i\<close> on bounds the depth of the recursion.\<close>

lemma older_suffix:
  assumes "older xs" "distinct (map fst xs)" "i \<in> fst ` set xs"
  obtains ys x zs where "xs = ys @ (i, x) # zs" "masked xs i = set (maskedRoots (rootCause x))"
    "masked xs i \<subseteq> fst ` set zs" "map_of xs i = Some x"
  using assms
proof (induction xs arbitrary: thesis)
  case (Cons y xs)
  show ?case
  proof (cases "fst y = i")
    case True
    then show ?thesis
      using Cons.prems(1) [of "[]" "snd y" xs] Cons.prems(2) by (cases y) (auto simp: masked_def)
  next
    case False
    with Cons.prems have "older xs" "distinct (map fst xs)" "i \<in> fst ` set xs" by auto
    from Cons.IH [OF _ this] obtain ys x zs where r: "xs = ys @ (i, x) # zs" "masked xs i = set (maskedRoots (rootCause x))"
      "masked xs i \<subseteq> fst ` set zs" "map_of xs i = Some x" .
    moreover have "masked (y # xs) i = masked xs i" "map_of (y # xs) i = map_of xs i"
      using False by (simp_all add: masked_def)
    ultimately show ?thesis using Cons.prems(1) [of "y # ys" x zs] by simp
  qed
qed simp

lemma older_append: "older (ys @ zs) \<Longrightarrow> older zs"
  by (induction ys) auto

lemma masked_append:
  "distinct (map fst (ys @ zs)) \<Longrightarrow> i \<in> fst ` set zs \<Longrightarrow> masked (ys @ zs) i = masked zs i \<and> map_of (ys @ zs) i = map_of zs i"
proof -
  assume "distinct (map fst (ys @ zs))" "i \<in> fst ` set zs"
  then have "i \<notin> fst ` set ys" by auto
  then have "map_of (ys @ zs) i = map_of zs i" by (simp add: map_add_def map_of_eq_None_iff [THEN iffD2])
  then show ?thesis by (simp add: masked_def)
qed

lemma getAllMaskedIDs_ok:
  assumes inv: "ids_ok m" "masks_ok m" and zs: "idToRoot m = ys @ zs" "length zs < n"
    and ids: "distinct ids" "set ids \<subseteq> fst ` set zs"
  shows "ok (getAllMaskedIDs n m ids) (\<lambda>ret. distinct ret \<and> set ret = set ids \<union> (\<Union>i \<in> set ids. masked (idToRoot m) i))"
  using zs ids
proof (induction n arbitrary: ys zs ids)
  case (Suc n)
  let ?I = "\<lambda>k ret. distinct ret \<and> set ret = set ids \<union> (\<Union>i \<in> set (take k ids). masked (idToRoot m) i)"
  let ?f = "\<lambda>i ret. do { ri \<leftarrow> map_of (idToRoot m) i; subset \<leftarrow> getAllMaskedIDs n m (maskedRoots (rootCause ri));
         Some (List.union ret subset) }"
  have d: "distinct (map fst (ys @ zs))" "older zs"
    using inv Suc.prems(1) older_append by (auto simp: ids_ok_def masks_ok_def)
  have "ok (foldM ?f ids ids) (?I (length ids))"
  proof (rule foldM_ok [where I = ?I])
    show "?I 0 ids" using Suc.prems by simp
  next
    fix k ret
    assume k: "k < length ids" and I: "?I k ret"
    let ?i = "ids ! k"
    have i: "?i \<in> fst ` set zs" using k Suc.prems(4) nth_mem by blast
    have "distinct (map fst zs)" using d(1) by simp
    from older_suffix [OF d(2) this i] obtain ys1 x zs1 where x: "zs = ys1 @ (?i, x) # zs1" "masked zs ?i = set (maskedRoots (rootCause x))"
      "masked zs ?i \<subseteq> fst ` set zs1" "map_of zs ?i = Some x" .
    have mi: "masked (idToRoot m) ?i = set (maskedRoots (rootCause x))" "map_of (idToRoot m) ?i = Some x"
      using masked_append [OF d(1) i] x Suc.prems(1) by simp_all
    have "distinct (maskedRoots (rootCause x))" using d(2) x(1) older_append [of ys1 "(?i, x) # zs1"] by simp
    moreover have "idToRoot m = (ys @ ys1 @ [(?i, x)]) @ zs1" "length zs1 < n" "set (maskedRoots (rootCause x)) \<subseteq> fst ` set zs1"
      using Suc.prems(1,2) x by auto
    ultimately have "ok (getAllMaskedIDs n m (maskedRoots (rootCause x))) (\<lambda>ret. distinct ret \<and>
        set ret = set (maskedRoots (rootCause x)) \<union> (\<Union>i \<in> set (maskedRoots (rootCause x)). masked (idToRoot m) i))"
      using Suc.IH by blast
    moreover have "(\<Union>i \<in> set (maskedRoots (rootCause x)). masked (idToRoot m) i) \<subseteq> set (maskedRoots (rootCause x))"
      using inv(2) mi(1) unfolding masks_ok_def by blast
    ultimately obtain sub where "getAllMaskedIDs n m (maskedRoots (rootCause x)) = Some sub" "distinct sub"
      "set sub = masked (idToRoot m) ?i" by (auto simp: ok_iff mi(1) Un_absorb2)
    then show "ok (?f ?i ret) (?I (Suc k))"
      using I k mi(2) by (auto simp: take_Suc_conv_app_nth)
  qed
  then obtain ret where ret: "foldM ?f ids ids = Some ret" "distinct ret"
    "set ret = set ids \<union> (\<Union>i \<in> set ids. masked (idToRoot m) i)" by (auto simp: ok_iff)
  have "length ids \<le> length ret"
    using ret(2,3) Suc.prems(3) by (metis List.finite_set card_mono distinct_card sup_ge1)
  with ret show ?case by simp
qed simp

section \<open>Creating an identifier\<close>

lemma getRootCauseLocationID_no_masks:
  "getRootCauseLocationID hs hi st site pc r m = getRootCauseLocationID_masking hs hi st site pc r [] m"
  by (simp add: getRootCauseLocationID_def getRootCauseLocationID_masking_def Let_def split: option.split bind_split)

definition mask_all :: "u64 \<Rightarrow> u64 set \<Rightarrow> (u64 \<times> info) list \<Rightarrow> (u64 \<times> info) list" where
  "mask_all newId S xs = map (\<lambda>(j, x). (j, if j \<in> S then x\<lparr>rootCause := addMaskingError newId (rootCause x)\<rparr> else x)) xs"

lemma mask_all_dom [simp]: "map fst (mask_all n S xs) = map fst xs" "fst ` set (mask_all n S xs) = fst ` set xs"
  by (force simp: mask_all_def)+

lemma map_of_mask_all:
  "map_of (mask_all n S xs) i =
     map_option (\<lambda>x. if i \<in> S then x\<lparr>rootCause := addMaskingError n (rootCause x)\<rparr> else x) (map_of xs i)"
  by (induction xs) (auto simp: mask_all_def)

lemma mask_all_mem:
  "(i, y) \<in> set (mask_all n S xs) \<longleftrightarrow>
     (\<exists>x. (i, x) \<in> set xs \<and> y = (if i \<in> S then x\<lparr>rootCause := addMaskingError n (rootCause x)\<rparr> else x))"
  unfolding mask_all_def set_map image_iff by (simp add: Bex_def split_paired_Ex)

lemma older_mask_all: "older (mask_all n S xs) = older xs"
proof (induction xs)
  case (Cons y ys)
  have "fst ` set (mask_all n S ys) = fst ` set ys" by simp
  then show ?case using Cons by (cases y) (simp add: mask_all_def addMaskingError_def)
qed (simp add: mask_all_def)

lemma update_info_mask_all:
  "i \<notin> S \<Longrightarrow> update_info i (\<lambda>x. x\<lparr>rootCause := addMaskingError n (rootCause x)\<rparr>) (mask_all n S xs) = mask_all n (insert i S) xs"
  by (auto simp: update_info_def mask_all_def)

lemma mask_loop_ok:
  assumes "distinct ids" "set ids \<subseteq> fst ` set roots" "distinct (maskedRoots u)"
  shows "ok (foldM (\<lambda>i (rcl, u, roots). do {
      assert_that (map_of roots i \<noteq> None);
      Some (addMaskedError i rcl, addMaskedError i u, update_info i (\<lambda>x. x\<lparr>rootCause := addMaskingError n (rootCause x)\<rparr>) roots)
    }) ids (rcl, u, roots))
    (\<lambda>(rcl', u', roots'). key rcl' = key rcl \<and> key u' = key u \<and> distinct (maskedRoots u') \<and>
       maskingRoots u' = maskingRoots u \<and>
       set (maskedRoots u') = set (maskedRoots u) \<union> set ids \<and> roots' = mask_all n (set ids) roots)"
proof -
  let ?I = "\<lambda>k (rcl', u', roots'). key rcl' = key rcl \<and> key u' = key u \<and> distinct (maskedRoots u') \<and>
       maskingRoots u' = maskingRoots u \<and>
       set (maskedRoots u') = set (maskedRoots u) \<union> set (take k ids) \<and> roots' = mask_all n (set (take k ids)) roots"
  have "ok (foldM (\<lambda>i (rcl, u, roots). do {
      assert_that (map_of roots i \<noteq> None);
      Some (addMaskedError i rcl, addMaskedError i u, update_info i (\<lambda>x. x\<lparr>rootCause := addMaskingError n (rootCause x)\<rparr>) roots)
    }) ids (rcl, u, roots)) (?I (length ids))"
  proof (rule foldM_ok [where I = ?I])
    show "?I 0 (rcl, u, roots)" using assms(3) by (simp add: mask_all_def)
  next
    fix k s
    assume k: "k < length ids" and I: "?I k s"
    obtain rcl1 u1 roots1 where s: "s = (rcl1, u1, roots1)" by (cases s) auto
    have new: "ids ! k \<notin> set (take k ids)" using assms(1) k by (simp add: distinct_conv_nth in_set_conv_nth)
    have "ids ! k \<in> fst ` set roots" using assms(2) k nth_mem by blast
    then have "map_of roots1 (ids ! k) \<noteq> None" using I s by (simp add: map_of_eq_None_iff)
    moreover have "update_info (ids ! k) (\<lambda>x. x\<lparr>rootCause := addMaskingError n (rootCause x)\<rparr>) roots1 = mask_all n (set (take (Suc k) ids)) roots"
      using I s k new by (simp add: take_Suc_conv_app_nth update_info_mask_all)
    moreover have "set (maskedRoots (addMaskedError (ids ! k) u1)) = set (maskedRoots u) \<union> set (take (Suc k) ids)"
      using I s k by (simp add: addMaskedError_def take_Suc_conv_app_nth)
    moreover have "key (addMaskedError (ids ! k) l) = key l" "maskingRoots (addMaskedError (ids ! k) l) = maskingRoots l"
      "distinct (maskedRoots l) \<Longrightarrow> distinct (maskedRoots (addMaskedError (ids ! k) l))" for l
      by (simp_all add: addMaskedError_def key_def)
    ultimately show "ok ((\<lambda>(rcl, u, roots). do {
      assert_that (map_of roots (ids ! k) \<noteq> None);
      Some (addMaskedError (ids ! k) rcl, addMaskedError (ids ! k) u,
        update_info (ids ! k) (\<lambda>x. x\<lparr>rootCause := addMaskingError n (rootCause x)\<rparr>) roots)
    }) s) (?I (Suc k))"
      using I s by simp
  qed
  then show ?thesis by simp
qed

text \<open>The manager after a new location has been entered that masks the closed set \<open>S\<close>.\<close>

lemma masks_ok_new:
  assumes inv: "ids_ok m" "masks_ok m" and n: "n \<notin> set (usedIds m)"
    and S: "S \<subseteq> fst ` set (idToRoot m)" "\<And>i. i \<in> S \<Longrightarrow> masked (idToRoot m) i \<subseteq> S"
    and x: "set (maskedRoots (rootCause x)) = S" "distinct (maskedRoots (rootCause x))" "maskingRoots (rootCause x) = []"
    and m': "idToRoot m' = (n, x) # mask_all n S (idToRoot m)"
  shows "masks_ok m'"
proof -
  have n': "n \<notin> fst ` set (idToRoot m)" using inv(1) n by (auto simp: ids_ok_def)
  have old: "masked (idToRoot m) i \<subseteq> fst ` set (idToRoot m)" for i
    using inv older_masked by (simp add: masks_ok_def ids_ok_def)
  have md: "masked (idToRoot m') i = (if i = n then S else masked (idToRoot m) i)" for i
    using x(1) by (auto simp: m' masked_def map_of_mask_all addMaskingError_def split: option.split)
  have mg: "masking (idToRoot m') i =
      (if i = n then {} else if i \<in> S then insert n (masking (idToRoot m) i) else masking (idToRoot m) i)" for i
  proof (cases "map_of (idToRoot m) i")
    case None
    then have "i \<notin> S" using S(1) by (auto simp: map_of_eq_None_iff)
    then show ?thesis using None x(3) by (simp add: m' masking_def map_of_mask_all)
  next
    case (Some y)
    then show ?thesis using x(3) by (simp add: m' masking_def map_of_mask_all addMaskingError_def)
  qed
  have "older (idToRoot m')" using inv(2) S(1) x by (simp add: m' older_mask_all masks_ok_def)
  moreover have "masked (idToRoot m') j \<subseteq> masked (idToRoot m') i" if j: "j \<in> masked (idToRoot m') i" for i j
  proof -
    have "j \<in> fst ` set (idToRoot m)" using j S(1) old [of i] by (auto simp: md split: if_splits)
    then have "j \<noteq> n" using n' by blast
    moreover have "masked (idToRoot m) j \<subseteq> masked (idToRoot m) i" if "i \<noteq> n"
      using inv(2) j that by (simp add: md masks_ok_def)
    moreover have "masked (idToRoot m) j \<subseteq> S" if "i = n" using S(2) j that by (simp add: md)
    ultimately show ?thesis by (simp add: md)
  qed
  moreover have "(j \<in> masked (idToRoot m') i) = (i \<in> masking (idToRoot m') j)" for i j
  proof -
    have sym: "\<And>i j. (j \<in> masked (idToRoot m) i) = (i \<in> masking (idToRoot m) j)" using inv(2) by (simp add: masks_ok_def)
    have "n \<notin> masked (idToRoot m) i" "n \<notin> S" using old [of i] n' S(1) by auto
    moreover have "masked (idToRoot m) n = {}" using n' by (simp add: masked_def map_of_eq_None_iff [THEN iffD2])
    ultimately show ?thesis using sym [of j i] sym [of j n] by (auto simp: md mg)
  qed
  ultimately show ?thesis unfolding masks_ok_def by blast
qed

lemma ids_ok_new:
  assumes inv: "ids_ok m" and n: "n \<notin> set (usedIds m)"
    and l: "key l = key (rootCause x)" "root_find l (rootToId m) = None"
    and m': "usedIds m' = n # usedIds m" "rootToId m' = (l, n) # rootToId m"
      "idToRoot m' = (n, x) # mask_all n S (idToRoot m)"
  shows "ids_ok m'"
proof -
  have k: "map (\<lambda>(i, x). (key (rootCause x), i)) (mask_all n S (idToRoot m)) = map (\<lambda>(i, x). (key (rootCause x), i)) (idToRoot m)"
    "map (\<lambda>(i, x). key (rootCause x)) (mask_all n S (idToRoot m)) = map (\<lambda>(i, x). key (rootCause x)) (idToRoot m)"
    by (auto simp: mask_all_def addMaskingError_def key_def)
  have "key l \<notin> (\<lambda>(i, x). key (rootCause x)) ` set (idToRoot m)" using l(2) by (simp add: ids_ok_find_None [OF inv])
  then have "key l \<notin> set (map (\<lambda>(i, x). key (rootCause x)) (mask_all n S (idToRoot m)))" by (metis k(2) list.set_map)
  then show ?thesis using inv n l(1) k by (auto simp: ids_ok_def m')
qed

lemma counts_ok_new:
  assumes inv: "counts_ok m" and n: "n \<notin> fst ` set (idToRoot m)" and x: "occurences x = 0"
    and m': "idToRoot m' = (n, x) # mask_all n S (idToRoot m)" "totalOccurences m' = totalOccurences m"
      "buggyIds m' = buggyIds m" "largestStack m' = largestStack m" "stats m' = stats m"
  shows "counts_ok m'"
proof -
  have s: "map (\<lambda>(i, x). unat (occurences x)) (mask_all n S (idToRoot m)) = map (\<lambda>(i, x). unat (occurences x)) (idToRoot m)"
    by (auto simp: mask_all_def)
  have b: "(\<exists>y. (i, y) \<in> set (mask_all n S (idToRoot m)) \<and> occurences y \<noteq> 0) = (\<exists>y. (i, y) \<in> set (idToRoot m) \<and> occurences y \<noteq> 0)" for i
    by (cases "i \<in> S") (force simp: mask_all_mem)+
  have nb: "n \<notin> set (buggyIds m)" using inv n by (force simp: counts_ok_def)
  have c': "length (stack (rootCause y)) \<le> largestStack m" if y: "(i, y) \<in> set (idToRoot m')" "i \<in> set (buggyIds m)" for i y
  proof -
    have "(i, y) \<in> set (mask_all n S (idToRoot m))" using y nb by (auto simp: m')
    then obtain x where "(i, x) \<in> set (idToRoot m)" "stack (rootCause y) = stack (rootCause x)"
      by (auto simp: mask_all_mem addMaskingError_def split: if_splits)
    then show ?thesis using inv y(2) by (simp add: counts_ok_def)
  qed
  have "(\<exists>y. (i, y) \<in> set (idToRoot m') \<and> occurences y \<noteq> 0) = (\<exists>y. (i, y) \<in> set (mask_all n S (idToRoot m)) \<and> occurences y \<noteq> 0)" for i
    using x by (auto simp: m'(1))
  then have b': "set (buggyIds m) = {i. \<exists>y. (i, y) \<in> set (idToRoot m') \<and> occurences y \<noteq> 0}"
    using inv b by (simp add: counts_ok_def)
  have "sum_list (map (\<lambda>(i, x). unat (occurences x)) (idToRoot m')) = sum_list (map (\<lambda>(i, x). unat (occurences x)) (idToRoot m))"
    using x s by (simp add: m')
  moreover have "unat (totalOccurences m) = sum_list (map (\<lambda>(i, x). unat (occurences x)) (idToRoot m))" "distinct (buggyIds m)"
    "nvmBugsTotalOccurences (stats m) = nvmBugsCrtOccurences (stats m) + nvmBugsPerfOccurences (stats m)"
    "nvmBugsTotalUniq (stats m) = nvmBugsCrtUniq (stats m) + nvmBugsPerfUniq (stats m)"
    using inv by (simp_all add: counts_ok_def)
  ultimately show ?thesis
    unfolding counts_ok_def m'(2-5) using b' c' by (intro conjI allI impI) simp_all
qed

text \<open>
  The result of a request: the identifier of a known location, or a fresh one, entered under the
  location and masking exactly the given identifiers and what they mask.
\<close>

lemma getRootCauseLocationID_masking_ok:
  assumes inv: "rcm_inv m" and free: "set (usedIds m) \<noteq> UNIV"
    and ids: "distinct ids" "set ids \<subseteq> fst ` set (idToRoot m)"
  shows "ok (getRootCauseLocationID_masking hs hi st site pc r ids m) (\<lambda>(i, m'). rcm_inv m' \<and>
    root_find (RootCauseLocation st site pc r) (rootToId m') = Some i \<and>
    (if root_find (RootCauseLocation st site pc r) (rootToId m) = None
     then i \<notin> set (usedIds m) \<and> usedIds m' = i # usedIds m \<and>
       masked (idToRoot m') i = set ids \<union> (\<Union>j \<in> set ids. masked (idToRoot m) j)
     else m' = m))"
proof (cases "root_find (RootCauseLocation st site pc r) (rootToId m)")
  case (Some i)
  then show ?thesis using inv by (simp add: getRootCauseLocationID_masking_def Let_def)
next
  case None
  let ?l = "RootCauseLocation st site pc r"
  let ?u = "installExampleStackTrace st ?l"
  obtain n where n: "next_unused (usedIds m) (hi (hs (stackStr ?u) XOR stateTime st)) = Some n"
    using next_unused_total [OF free] by blast
  let ?m = "m\<lparr>usedIds := n # usedIds m\<rparr>"
  have nf: "n \<notin> set (usedIds m)" using n by (rule next_unused_fresh)
  have io: "ids_ok m" "masks_ok m" "counts_ok m" using inv by (simp_all add: rcm_inv_def)
  have nd: "n \<notin> fst ` set (idToRoot m)" using io(1) nf by (auto simp: ids_ok_def)
  have m1: "ids_ok ?m" "masks_ok ?m" using io by (auto simp: ids_ok_def masks_ok_def)
  define S where "S = set ids \<union> (\<Union>j \<in> set ids. masked (idToRoot m) j)"
  have "ok (getAllMaskedIDs (Suc (length (idToRoot m))) ?m ids) (\<lambda>ret. distinct ret \<and> set ret = S)"
    using getAllMaskedIDs_ok [OF m1, of "[]" "idToRoot m" "Suc (length (idToRoot m))" ids] ids by (simp add: S_def)
  then obtain al where al: "getAllMaskedIDs (Suc (length (idToRoot m))) ?m ids = Some al" "distinct al" "set al = S"
    by (auto simp: ok_iff)
  have "masked (idToRoot m) j \<subseteq> fst ` set (idToRoot m)" for j
    using io older_masked by (simp add: masks_ok_def ids_ok_def)
  then have S: "S \<subseteq> fst ` set (idToRoot m)" using ids(2) by (auto simp: S_def)
  have cl: "masked (idToRoot m) j \<subseteq> S" if "j \<in> S" for j
    using that io(2) unfolding S_def masks_ok_def by blast
  have "set al \<subseteq> fst ` set (idToRoot m)" "distinct (maskedRoots ?u)"
    using S al(3) by (simp_all add: installExampleStackTrace_def RootCauseLocation_def)
  from mask_loop_ok [OF al(2) this, of n ?l] obtain l' u' where u: "foldM (\<lambda>i (rcl, u, roots). do {
      assert_that (map_of roots i \<noteq> None);
      Some (addMaskedError i rcl, addMaskedError i u, update_info i (\<lambda>x. x\<lparr>rootCause := addMaskingError n (rootCause x)\<rparr>) roots)
    }) al (?l, ?u, idToRoot m) = Some (l', u', mask_all n S (idToRoot m))"
    "key l' = key ?l" "key u' = key ?l" "distinct (maskedRoots u')" "maskingRoots u' = []" "set (maskedRoots u') = S"
    by (auto simp: ok_iff al(3) installExampleStackTrace_def RootCauseLocation_def key_def)
  define x where "x = \<lparr>rootCause = u', occurences = 0\<rparr>"
  define m' where "m' = m\<lparr>usedIds := n # usedIds m, rootToId := (l', n) # rootToId m, idToRoot := (n, x) # mask_all n S (idToRoot m)\<rparr>"
  have res: "getRootCauseLocationID_masking hs hi st site pc r ids m = Some (n, m')"
    using None n al(1) u(1) by (simp add: getRootCauseLocationID_masking_def getNewId_def Let_def m'_def x_def del: getAllMaskedIDs.simps not_None_eq)
  have rf: "root_find l' (rootToId m) = None" using None u(2) by (simp add: root_find_key)
  have "ids_ok m'"
    by (rule ids_ok_new [OF io(1) nf _ rf, where x = x and S = S]) (simp_all add: m'_def x_def u(2,3))
  moreover have "masks_ok m'"
    by (rule masks_ok_new [OF io(1,2) nf S cl, where x = x]) (simp_all add: m'_def x_def u(4-6))
  moreover have "counts_ok m'"
    by (rule counts_ok_new [OF io(3) nd, where x = x and S = S]) (simp_all add: m'_def x_def)
  moreover have "root_find ?l (rootToId m') = Some n" using u(2) by (simp add: root_find_key m'_def)
  moreover have "masked (idToRoot m') n = S" using u(6) by (simp add: masked_def m'_def x_def)
  ultimately show ?thesis using res nf None by (simp add: rcm_inv_def m'_def S_def)
qed

end
