(* ===== verification/Root_Cause_Bugs.thy ===== *)
theory Root_Cause_Bugs
  imports Root_Cause_Inv
begin

text \<open>
  Reporting bugs: the counters of the manager and of the global statistics agree with what was
  reported, and the reports are complete.
\<close>

section \<open>Reporting a bug\<close>

abbreviation occ_plus :: "info \<Rightarrow> info" where
  "occ_plus x \<equiv> x\<lparr>occurences := occurences x + 1\<rparr>"

lemma map_of_update_info: "map_of (update_info i f xs) j = map_option (\<lambda>x. if j = i then f x else x) (map_of xs j)"
  by (induction xs) (auto simp: update_info_def)

lemma update_info_dom [simp]: "map fst (update_info i f xs) = map fst xs" "fst ` set (update_info i f xs) = fst ` set xs"
  by (force simp: update_info_def)+

lemma update_info_mem:
  "(j, y) \<in> set (update_info i f xs) \<longleftrightarrow> (\<exists>x. (j, x) \<in> set xs \<and> y = (if j = i then f x else x))"
  unfolding update_info_def set_map image_iff by (simp add: Bex_def split_paired_Ex)

lemma occ_plus_masks:
  "masked (update_info i occ_plus xs) = masked xs" "masking (update_info i occ_plus xs) = masking xs"
  "older (update_info i occ_plus xs) = older xs"
proof -
  show "masked (update_info i occ_plus xs) = masked xs" "masking (update_info i occ_plus xs) = masking xs"
    by (auto simp: fun_eq_iff masked_def masking_def map_of_update_info split: option.split)
  show "older (update_info i occ_plus xs) = older xs"
  proof (induction xs)
    case (Cons y ys)
    have "fst ` set (update_info i occ_plus ys) = fst ` set ys" by simp
    then show ?case using Cons by (cases y) (simp add: update_info_def)
  qed (simp add: update_info_def)
qed

lemma occ_plus_sum:
  assumes "distinct (map fst xs)" "map_of xs i = Some x" "unat (occurences x) + 1 < 2 ^ 64"
  shows "sum_list (map (\<lambda>(i, x). unat (occurences x)) (update_info i occ_plus xs)) =
    Suc (sum_list (map (\<lambda>(i, x). unat (occurences x)) xs))"
  using assms
proof (induction xs)
  case (Cons y ys)
  obtain j z where y: "y = (j, z)" by fastforce
  show ?case
  proof (cases "j = i")
    case True
    then have "update_info i occ_plus ys = ys" using Cons.prems(1) y by (force simp: update_info_def intro!: map_idI)
    moreover have "unat (occurences x + 1) = unat (occurences x) + 1"
      using Cons.prems(3) by (simp add: unat_word_ariths)
    ultimately show ?thesis using True y Cons.prems(2) by (simp add: update_info_def)
  next
    case False
    then show ?thesis using Cons y by (simp add: update_info_def)
  qed
qed simp

lemma occ_le_sum:
  assumes "map_of xs i = Some x"
  shows "unat (occurences x) \<le> sum_list (map (\<lambda>(i, x). unat (occurences x)) xs)"
proof -
  have "(i, x) \<in> set xs" using assms by (rule map_of_SomeD)
  then have "unat (occurences x) \<in> set (map (\<lambda>(i, x). unat (occurences x)) xs)" by force
  then show ?thesis by (rule member_le_sum_list) simp
qed

lemma count_bug_sums:
  assumes "nvmBugsTotalOccurences s = nvmBugsCrtOccurences s + nvmBugsPerfOccurences s"
    "nvmBugsTotalUniq s = nvmBugsCrtUniq s + nvmBugsPerfUniq s"
  shows "nvmBugsTotalOccurences (count_bug c n s) = nvmBugsCrtOccurences (count_bug c n s) + nvmBugsPerfOccurences (count_bug c n s)"
    "nvmBugsTotalUniq (count_bug c n s) = nvmBugsCrtUniq (count_bug c n s) + nvmBugsPerfUniq (count_bug c n s)"
  using assms by (simp_all add: count_bug_def Let_def)

lemma mark_one_ok:
  assumes inv: "rcm_inv m" and x: "map_of (idToRoot m) i = Some x" and t: "unat (totalOccurences m) + 1 < 2 ^ 64"
  shows "ok (mark_one i m) (\<lambda>m'. rcm_inv m' \<and> idToRoot m' = update_info i occ_plus (idToRoot m) \<and>
    unat (totalOccurences m') = unat (totalOccurences m) + 1 \<and> set (buggyIds m') = insert i (set (buggyIds m)))"
proof -
  define m' where "m' = m\<lparr>stats := count_bug (is_correctness (reason (rootCause x))) (occurences x = 0) (stats m),
    idToRoot := update_info i occ_plus (idToRoot m), totalOccurences := totalOccurences m + 1,
    buggyIds := List.insert i (buggyIds m), largestStack := max (largestStack m) (length (stack (rootCause x)))\<rparr>"
  have t1: "unat (totalOccurences m + 1) = unat (totalOccurences m) + 1" using t by (simp add: unat_word_ariths)
  have d: "distinct (map fst (idToRoot m))" using inv by (simp add: rcm_inv_def ids_ok_def)
  have c: "counts_ok m" using inv by (simp add: rcm_inv_def)
  have ox: "unat (occurences x) + 1 < 2 ^ 64" using occ_le_sum [OF x] c t by (simp add: counts_ok_def)
  have xm: "(i, x) \<in> set (idToRoot m)" using x by (rule map_of_SomeD)
  have uniq: "y = x" if "(i, y) \<in> set (idToRoot m)" for y using that x d map_of_is_SomeI by fastforce
  have k: "map (\<lambda>(i, x). (key (rootCause x), i)) (update_info i occ_plus (idToRoot m)) = map (\<lambda>(i, x). (key (rootCause x), i)) (idToRoot m)"
    "map (\<lambda>(i, x). key (rootCause x)) (update_info i occ_plus (idToRoot m)) = map (\<lambda>(i, x). key (rootCause x)) (idToRoot m)"
    by (auto simp: update_info_def)
  have "ids_ok m'" using inv k by (simp add: rcm_inv_def ids_ok_def m'_def)
  moreover have "masks_ok m'" using inv by (simp add: rcm_inv_def masks_ok_def m'_def occ_plus_masks)
  moreover have "counts_ok m'"
  proof -
    have "unat (occurences x + 1) \<noteq> 0" using ox by (simp add: unat_word_ariths)
    then have "occurences x + 1 \<noteq> 0" by auto
    then have "(\<exists>y. (j, y) \<in> set (update_info i occ_plus (idToRoot m)) \<and> occurences y \<noteq> 0) =
        (j = i \<or> j \<in> set (buggyIds m))" for j
    proof (cases "j = i")
      case False
      have "j \<in> set (buggyIds m) \<longleftrightarrow> (\<exists>y. (j, y) \<in> set (idToRoot m) \<and> occurences y \<noteq> 0)"
        using c unfolding counts_ok_def by blast
      with False show ?thesis by (simp add: update_info_mem)
    qed (use xm in \<open>auto simp: update_info_mem\<close>)
    then have "set (buggyIds m') = {j. \<exists>y. (j, y) \<in> set (idToRoot m') \<and> occurences y \<noteq> 0}"
      by (auto simp: m'_def)
    moreover have "length (stack (rootCause y)) \<le> largestStack m'" if y: "(j, y) \<in> set (idToRoot m')" "j \<in> set (buggyIds m')" for j y
    proof (cases "j = i")
      case True
      then show ?thesis using y uniq by (auto simp: m'_def update_info_mem)
    next
      case False
      then have "(j, y) \<in> set (idToRoot m)" "j \<in> set (buggyIds m)" using y by (simp_all add: m'_def update_info_mem)
      then have "length (stack (rootCause y)) \<le> largestStack m" using c unfolding counts_ok_def by blast
      then show ?thesis by (simp add: m'_def)
    qed
    moreover have "unat (totalOccurences m') = sum_list (map (\<lambda>(i, x). unat (occurences x)) (idToRoot m'))"
      using c t1 occ_plus_sum [OF d x ox] by (simp add: counts_ok_def m'_def)
    moreover have "nvmBugsTotalOccurences (stats m') = nvmBugsCrtOccurences (stats m') + nvmBugsPerfOccurences (stats m')"
      "nvmBugsTotalUniq (stats m') = nvmBugsCrtUniq (stats m') + nvmBugsPerfUniq (stats m')" "distinct (buggyIds m')"
      using c by (simp_all add: counts_ok_def m'_def count_bug_sums [of "stats m"])
    ultimately show ?thesis unfolding counts_ok_def by blast
  qed
  moreover have "mark_one i m = Some m'"
  proof -
    have "unat (totalOccurences m + 1) \<noteq> 0" using t1 by simp
    then have "totalOccurences m + 1 \<noteq> 0" by auto
    then show ?thesis using x by (simp add: mark_one_def m'_def Let_def assert_that_def word_gt_0)
  qed
  ultimately show ?thesis using t1 by (simp add: rcm_inv_def) (simp add: m'_def)
qed

lemma mark_list_ok:
  assumes "rcm_inv m" "distinct ids" "set ids \<subseteq> fst ` set (idToRoot m)" "unat (totalOccurences m) + length ids < 2 ^ 64"
  shows "ok (foldM mark_one ids m) (\<lambda>m'. rcm_inv m' \<and>
    (\<forall>j. map_of (idToRoot m') j = map_option (\<lambda>x. if j \<in> set ids then occ_plus x else x) (map_of (idToRoot m) j)) \<and>
    unat (totalOccurences m') = unat (totalOccurences m) + length ids \<and> set (buggyIds m') = set ids \<union> set (buggyIds m))"
  using assms
proof (induction ids arbitrary: m)
  case Nil
  then show ?case by (simp add: option.map_ident)
next
  case (Cons i ids)
  obtain x where x: "map_of (idToRoot m) i = Some x" using Cons.prems(3) by (force simp: map_of_eq_None_iff dest: not_None_eq [THEN iffD1])
  have "unat (totalOccurences m) + 1 < 2 ^ 64" using Cons.prems(4) by simp
  from mark_one_ok [OF Cons.prems(1) x this] obtain m1 where m1: "mark_one i m = Some m1" "rcm_inv m1"
    "idToRoot m1 = update_info i occ_plus (idToRoot m)" "unat (totalOccurences m1) = unat (totalOccurences m) + 1"
    "set (buggyIds m1) = insert i (set (buggyIds m))"
    by (auto simp: ok_iff)
  have "ok (foldM mark_one ids m1) (\<lambda>m'. rcm_inv m' \<and>
    (\<forall>j. map_of (idToRoot m') j = map_option (\<lambda>x. if j \<in> set ids then occ_plus x else x) (map_of (idToRoot m1) j)) \<and>
    unat (totalOccurences m') = unat (totalOccurences m1) + length ids \<and> set (buggyIds m') = set ids \<union> set (buggyIds m1))"
    using Cons.prems m1 by (intro Cons.IH) simp_all
  then have "ok (foldM mark_one ids m1) (\<lambda>m'. rcm_inv m' \<and>
    (\<forall>j. map_of (idToRoot m') j = map_option (\<lambda>x. if j \<in> set (i # ids) then occ_plus x else x) (map_of (idToRoot m) j)) \<and>
    unat (totalOccurences m') = unat (totalOccurences m) + length (i # ids) \<and> set (buggyIds m') = set (i # ids) \<union> set (buggyIds m))"
    by (rule ok_mono) (use m1(3-5) Cons.prems(2) in \<open>auto simp: map_of_update_info option.map_comp comp_def intro!: option.map_cong0\<close>)
  then show ?case using m1(1) by simp
qed

text \<open>Reporting a location counts it and everything it masks once more.\<close>

lemma markAsBug_ok:
  assumes inv: "rcm_inv m" and i: "i \<in> fst ` set (idToRoot m)"
    and t: "unat (totalOccurences m) + card (insert i (masked (idToRoot m) i)) < 2 ^ 64"
  shows "ok (markAsBug i m) (\<lambda>m'. rcm_inv m' \<and>
    (\<forall>j. map_of (idToRoot m') j =
       map_option (\<lambda>x. if j \<in> insert i (masked (idToRoot m) i) then occ_plus x else x) (map_of (idToRoot m) j)) \<and>
    unat (totalOccurences m') = unat (totalOccurences m) + card (insert i (masked (idToRoot m) i)) \<and>
    set (buggyIds m') = insert i (masked (idToRoot m) i) \<union> set (buggyIds m))"
proof -
  have d: "distinct (map fst (idToRoot m))" "older (idToRoot m)" using inv by (simp_all add: rcm_inv_def ids_ok_def masks_ok_def)
  from older_suffix [OF d(2,1) i] obtain ys x zs where x: "idToRoot m = ys @ (i, x) # zs" "map_of (idToRoot m) i = Some x"
    "masked (idToRoot m) i = set (maskedRoots (rootCause x))" .
  have dm: "distinct (maskedRoots (rootCause x))" using d(2) x(1) older_append [of ys "(i, x) # zs"] by simp
  let ?ids = "List.insert i (maskedRoots (rootCause x))"
  have s: "set ?ids = insert i (masked (idToRoot m) i)" using x(3) by simp
  moreover have dd: "distinct ?ids" using dm by simp
  ultimately have l: "length ?ids = card (insert i (masked (idToRoot m) i))" by (metis distinct_card)
  have sub: "set ?ids \<subseteq> fst ` set (idToRoot m)" using s i older_masked [OF d(2,1), of i] by simp
  have "unat (totalOccurences m) + length ?ids < 2 ^ 64" using t l by simp
  from mark_list_ok [OF inv dd sub this] show ?thesis unfolding s l using x(2) by (simp add: markAsBug_def)
qed

section \<open>Reports\<close>

definition occ_of :: "manager \<Rightarrow> u64 \<Rightarrow> nat" where
  "occ_of m i = (case map_of (idToRoot m) i of None \<Rightarrow> 0 | Some x \<Rightarrow> unat (occurences x))"

lemma occ_of_sum:
  assumes "rcm_inv m"
  shows "unat (totalOccurences m) = sum_list (map (occ_of m) (buggyIds m))"
proof -
  have d: "distinct (map fst (idToRoot m))" and c: "counts_ok m" using assms by (simp_all add: rcm_inv_def ids_ok_def)
  have o: "occ_of m i = unat (occurences x)" if "(i, x) \<in> set (idToRoot m)" for i x
    using that d by (simp add: occ_of_def)
  have "map (\<lambda>(i, x). unat (occurences x)) (idToRoot m) = map (occ_of m) (map fst (idToRoot m))"
    using o by auto
  moreover have "unat (totalOccurences m) = sum_list (map (\<lambda>(i, x). unat (occurences x)) (idToRoot m))"
    using c by (simp add: counts_ok_def)
  ultimately have "unat (totalOccurences m) = sum_list (map (occ_of m) (map fst (idToRoot m)))" by metis
  also have "\<dots> = sum (occ_of m) (set (map fst (idToRoot m)))" using d by (rule sum_list_distinct_conv_sum_set)
  also have "\<dots> = sum (occ_of m) (set (buggyIds m))"
  proof (rule sum.mono_neutral_right)
    have b: "set (buggyIds m) = {i. \<exists>x. (i, x) \<in> set (idToRoot m) \<and> occurences x \<noteq> 0}" using c by (simp add: counts_ok_def)
    show "set (buggyIds m) \<subseteq> set (map fst (idToRoot m))" unfolding b by force
    show "\<forall>i \<in> set (map fst (idToRoot m)) - set (buggyIds m). occ_of m i = 0" unfolding b using o by auto
  qed simp
  also have "\<dots> = sum_list (map (occ_of m) (buggyIds m))"
    using c by (simp add: counts_ok_def sum_list_distinct_conv_sum_set)
  finally show ?thesis .
qed

lemma buggy_known: "rcm_inv m \<Longrightarrow> i \<in> set (buggyIds m) \<Longrightarrow> \<exists>x. map_of (idToRoot m) i = Some x \<and> (i, x) \<in> set (idToRoot m)"
  by (auto simp: rcm_inv_def counts_ok_def ids_ok_def)

lemma count_summary_sums:
  "nUnpersisted (count_summary x s) + nExtra (count_summary x s) + nClean (count_summary x s) + nFence (count_summary x s) =
     nUnpersisted s + nExtra s + nClean s + nFence s + 1"
  "nUnpersistedOc (count_summary x s) + nExtraOc (count_summary x s) + nCleanOc (count_summary x s) + nFenceOc (count_summary x s) =
     nUnpersistedOc s + nExtraOc s + nCleanOc s + nFenceOc s + occurences x"
  by (simp_all add: count_summary_def split: RootCauseReason.split)

lemma summarize_ok:
  assumes inv: "rcm_inv m"
  shows "ok (summarize m) (\<lambda>s. nUnpersisted s + nExtra s + nClean s + nFence s = of_nat (length (buggyIds m)) \<and>
    nUnpersistedOc s + nExtraOc s + nCleanOc s + nFenceOc s = totalOccurences m)"
proof -
  let ?I = "\<lambda>k (s :: summary). nUnpersisted s + nExtra s + nClean s + nFence s = of_nat k \<and>
    nUnpersistedOc s + nExtraOc s + nCleanOc s + nFenceOc s = of_nat (sum_list (map (occ_of m) (take k (buggyIds m))))"
  have "ok (summarize m) (?I (length (buggyIds m)))"
    unfolding summarize_def
  proof (rule foldM_ok [where I = ?I])
    fix k and s :: summary
    assume k: "k < length (buggyIds m)" and I: "?I k s"
    obtain x where x: "map_of (idToRoot m) (buggyIds m ! k) = Some x" using buggy_known [OF inv] k nth_mem by blast
    then have "of_nat (occ_of m (buggyIds m ! k)) = occurences x" by (simp add: occ_of_def)
    then show "ok (do { ri \<leftarrow> map_of (idToRoot m) (buggyIds m ! k); Some (count_summary ri s) }) (?I (Suc k))"
      using I k x by (simp add: count_summary_sums take_Suc_conv_app_nth)
  qed simp
  moreover have "of_nat (sum_list (map (occ_of m) (buggyIds m))) = totalOccurences m"
    by (simp add: occ_of_sum [OF inv, symmetric])
  ultimately show ?thesis by simp
qed

lemma csv_frames_length: "length (csv_frames pos fname t sfs) = 4 * length sfs"
  by (induction sfs arbitrary: t) (auto simp: Let_def)

lemma csv_header_length: "length (csv_header m) = 4 + 4 * largestStack m"
proof -
  have "length (concat (map (\<lambda>k. [a k, b k, c k, d k]) [0..<n])) = 4 * n" for a b c d :: "nat \<Rightarrow> string" and n
    by (induction n) auto
  then show ?thesis by (simp add: csv_header_def)
qed

lemma dumpCSV_ok:
  assumes inv: "rcm_inv m"
  shows "ok (dumpCSV pos fname m) (\<lambda>rows. length rows = Suc (length (buggyIds m)) \<and>
    (\<forall>r \<in> set rows. length r \<le> length (csv_header m)))"
proof -
  let ?I = "\<lambda>k (rows :: string list list). length rows = Suc k \<and> (\<forall>r \<in> set rows. length r \<le> length (csv_header m))"
  have "ok (dumpCSV pos fname m) (?I (length (buggyIds m)))"
    unfolding dumpCSV_def
  proof (rule foldM_ok [where I = ?I])
    fix k and rows :: "string list list"
    assume k: "k < length (buggyIds m)" and I: "?I k rows"
    let ?i = "buggyIds m ! k"
    have b: "?i \<in> set (buggyIds m)" using k by simp
    then obtain x where x: "map_of (idToRoot m) ?i = Some x" "(?i, x) \<in> set (idToRoot m)" using buggy_known [OF inv] by blast
    then have "length (stack (rootCause x)) \<le> largestStack m"
      using inv b unfolding rcm_inv_def counts_ok_def by blast
    then have "ok (csv_row pos fname m ?i) (\<lambda>r. length r \<le> length (csv_header m))"
      using x(1) by (simp add: csv_row_def Let_def csv_header_length csv_frames_length)
    then show "ok (do { r \<leftarrow> csv_row pos fname m ?i; Some (rows @ [r]) }) (?I (Suc k))"
      using I by (auto simp: ok_iff)
  qed simp
  then show ?thesis .
qed

section \<open>Concrete managers for the witnesses\<close>

definition demo_view :: exec_view where
  "demo_view = \<lparr>ev_stack = [(1, 2)], ev_dump = ''#0 main'', ev_time = 5, stateTime = 7\<rparr>"

definition demo_info :: "nat \<Rightarrow> RootCauseReason \<Rightarrow> u64 list \<Rightarrow> u64 list \<Rightarrow> info" where
  "demo_info pc r mk mg = \<lparr>rootCause = (RootCauseLocation demo_view 9 pc r)\<lparr>stackStr := ''#0 main'', maskedRoots := mk,
     maskingRoots := mg\<rparr>, occurences = 0\<rparr>"

text \<open>Two known locations, of which the newer one masks the older.\<close>

definition demo_manager :: manager where
  "demo_manager = RootCauseManager_new\<lparr>usedIds := [4, 3],
     rootToId := [(RootCauseLocation demo_view 9 20 PM_Unpersisted, 4), (RootCauseLocation demo_view 9 10 PM_Unpersisted, 3)],
     idToRoot := [(4, demo_info 20 PM_Unpersisted [3] []), (3, demo_info 10 PM_Unpersisted [] [4])]\<rparr>"

lemma demo_manager_inv: "rcm_inv demo_manager"
  by (auto simp: rcm_inv_def ids_ok_def masks_ok_def counts_ok_def demo_manager_def demo_info_def masked_def masking_def
      RootCauseManager_new_def RootCauseLocation_def demo_view_def key_def split: if_splits)

lemma demo_manager_free: "set (usedIds demo_manager) \<noteq> UNIV"
proof -
  have "(0::u64) \<notin> set (usedIds demo_manager)" by (simp add: demo_manager_def)
  then show ?thesis by blast
qed

section \<open>Properties\<close>

text \<open>
  C16. Asking for the identifier of a location keeps the invariant of the manager and ends whenever
  some 64-bit identifier is unused: a known location gets its old identifier and nothing changes,
  a new one gets an unused identifier that masks exactly the given locations and everything they
  mask.
\<close>
theorem root_cause_id:
  assumes "rcm_inv m" "set (usedIds m) \<noteq> UNIV" "distinct ids" "set ids \<subseteq> fst ` set (idToRoot m)"
  shows "ok (getRootCauseLocationID_masking hs hi st site pc r ids m) (\<lambda>(i, m'). rcm_inv m' \<and>
    root_find (RootCauseLocation st site pc r) (rootToId m') = Some i \<and>
    (if root_find (RootCauseLocation st site pc r) (rootToId m) = None
     then i \<notin> set (usedIds m) \<and> usedIds m' = i # usedIds m \<and>
       masked (idToRoot m') i = set ids \<union> (\<Union>j \<in> set ids. masked (idToRoot m) j)
     else m' = m))"
  by (rule getRootCauseLocationID_masking_ok) (fact assms)+

theorem root_cause_id_witness:
  "rcm_inv demo_manager \<and> set (usedIds demo_manager) \<noteq> UNIV \<and>
   ok (getRootCauseLocationID_masking (\<lambda>_. 1) (\<lambda>x. x) demo_view 9 30 PM_Unpersisted [4] demo_manager) (\<lambda>(i, m'). rcm_inv m' \<and>
     i \<notin> {4, 3} \<and> masked (idToRoot m') i = {4, 3})"
  using root_cause_id [of demo_manager "[4]" "\<lambda>_. 1" "\<lambda>x. x" demo_view 9 30 PM_Unpersisted] demo_manager_inv demo_manager_free
  by (auto simp: demo_manager_def root_find_def loc_eq_def RootCauseLocation_def masked_def demo_info_def elim!: ok_mono)



text \<open>
  C17. Reporting a location as a bug counts one more occurrence of it and of every location it
  masks, and of no other; the overall count grows by their number and the reported identifiers are
  the bugs.
\<close>
theorem mark_as_bug_counts:
  assumes "rcm_inv m" "i \<in> fst ` set (idToRoot m)"
    "unat (totalOccurences m) + card (insert i (masked (idToRoot m) i)) < 2 ^ 64"
  shows "ok (markAsBug i m) (\<lambda>m'. rcm_inv m' \<and>
    (\<forall>j. map_of (idToRoot m') j = map_option (\<lambda>x. if j \<in> insert i (masked (idToRoot m) i)
       then x\<lparr>occurences := occurences x + 1\<rparr> else x) (map_of (idToRoot m) j)) \<and>
    unat (totalOccurences m') = unat (totalOccurences m) + card (insert i (masked (idToRoot m) i)) \<and>
    set (buggyIds m') = insert i (masked (idToRoot m) i) \<union> set (buggyIds m))"
  by (rule markAsBug_ok) (fact assms)+

theorem mark_as_bug_counts_witness:
  "rcm_inv demo_manager \<and> ok (markAsBug 4 demo_manager) (\<lambda>m'. rcm_inv m' \<and> unat (totalOccurences m') = 2 \<and> set (buggyIds m') = {4, 3})"
proof -
  have d: "masked (idToRoot demo_manager) 4 = {3}" "totalOccurences demo_manager = 0" "buggyIds demo_manager = []"
    "4 \<in> fst ` set (idToRoot demo_manager)"
    by (simp_all add: demo_manager_def masked_def demo_info_def RootCauseManager_new_def)
  show ?thesis using mark_as_bug_counts [of demo_manager 4] demo_manager_inv by (simp add: d ok_iff) (metis numeral_2_eq_2)
qed

text \<open>
  C19. The summary and the table of bugs can always be written: the bugs by kind add up to the number
  of reported identifiers and their occurrences to the overall count, and no row of the table is
  longer than its header.
\<close>
theorem reports_consistent:
  assumes "rcm_inv m"
  shows "ok (summarize m) (\<lambda>s. nUnpersisted s + nExtra s + nClean s + nFence s = of_nat (length (buggyIds m)) \<and>
      nUnpersistedOc s + nExtraOc s + nCleanOc s + nFenceOc s = totalOccurences m) \<and>
    (\<exists>txt. getSummary m = Some txt) \<and>
    ok (dumpCSV pos fname m) (\<lambda>rows. length rows = Suc (length (buggyIds m)) \<and>
      (\<forall>r \<in> set rows. length r \<le> length (csv_header m)))"
  using summarize_ok [OF assms] dumpCSV_ok [OF assms] by (auto simp: getSummary_def ok_iff)

theorem reports_consistent_witness:
  "rcm_inv demo_manager \<and> (\<exists>txt. getSummary demo_manager = Some txt)"
  using reports_consistent [OF demo_manager_inv] demo_manager_inv by blast


end
