(* ===== verification/Expr_Visitor.thy ===== *)
theory Expr_Visitor
  imports Expr_Build
begin

text \<open>
  Traversal of expressions: \<^verbatim>\<open>ExprVisitor\<close> of \<^verbatim>\<open>lib/Expr/ExprVisitor.cpp\<close> and the methods
  \<^verbatim>\<open>getKid\<close> and \<^verbatim>\<open>rebuild\<close> of the expression classes that it uses.  A visitor whose replacements
  keep the value of an expression under an assumption keeps the value of everything it visits.
  A visitor that revisits what it rebuilt may run forever, so a visit has fuel.
\<close>

section \<open>Children\<close>

primrec kids :: "expr \<Rightarrow> expr list" where
  "kids (ConstantExpr c) = []"
| "kids (NotOptimizedExpr e) = [e]"
| "kids (ReadExpr a un i) = [i]"
| "kids (SelectExpr c t f) = [c, t, f]"
| "kids (ConcatExpr l r) = [l, r]"
| "kids (ExtractExpr e off w) = [e]"
| "kids (ZExtExpr e w) = [e]"
| "kids (SExtExpr e w) = [e]"
| "kids (NotExpr e) = [e]"
| "kids (BinaryExpr k l r) = [l, r]"
| "kids (CmpExpr k l r) = [l, r]"

text \<open>\<^verbatim>\<open>rebuild\<close> of a constant fails; the other classes call their constructor on the new children.\<close>

primrec rebuild :: "bool \<Rightarrow> expr \<Rightarrow> expr list \<Rightarrow> expr option" where
  "rebuild cao (ConstantExpr c) ks = None"
| "rebuild cao (NotOptimizedExpr e) ks = Some (NotOptimizedExpr (ks ! 0))"
| "rebuild cao (ReadExpr a un i) ks = ReadExpr_create cao (a, un) (ks ! 0)"
| "rebuild cao (SelectExpr c t f) ks = SelectExpr_create cao (ks ! 0) (ks ! 1) (ks ! 2)"
| "rebuild cao (ConcatExpr l r) ks = ConcatExpr_create (ks ! 0) (ks ! 1)"
| "rebuild cao (ExtractExpr e off w) ks = ExtractExpr_create (ks ! 0) off w"
| "rebuild cao (ZExtExpr e w) ks = ZExtExpr_create (ks ! 0) w"
| "rebuild cao (SExtExpr e w) ks = SExtExpr_create (ks ! 0) w"
| "rebuild cao (NotExpr e) ks = Some (NotExpr_create (ks ! 0))"
| "rebuild cao (BinaryExpr op l r) ks = bop_create cao op (ks ! 0) (ks ! 1)"
| "rebuild cao (CmpExpr op l r) ks = cop_create cao op (ks ! 0) (ks ! 1)"

section \<open>Visitors\<close>

datatype Action = SkipChildren | DoChildren | ChangeTo expr

text \<open>
  A visitor is its two overridable methods on expressions and the flag that makes it revisit what
  it rebuilt.  The methods for the single kinds all return \<^verbatim>\<open>doChildren\<close>, and no visitor modelled
  here overrides them.
\<close>

record visitor =
  visitExpr :: "expr \<Rightarrow> Action"
  visitExprPost :: "expr \<Rightarrow> Action"
  recursive :: bool

type_synonym visited = "(expr \<times> expr) list"

definition visit_kids ::
  "(expr \<Rightarrow> visited \<Rightarrow> (expr \<times> visited) option) \<Rightarrow> expr list \<Rightarrow> visited \<Rightarrow> (expr list \<times> visited) option" where
  "visit_kids visit es vs =
     foldM (\<lambda>kid (ks, vs). do { (k, vs) \<leftarrow> visit kid vs; Some (ks @ [k], vs) }) es ([], vs)"

definition visit_rebuilt ::
  "bool \<Rightarrow> visitor \<Rightarrow> (expr \<Rightarrow> visited \<Rightarrow> (expr \<times> visited) option) \<Rightarrow> expr \<Rightarrow> expr list \<Rightarrow> visited \<Rightarrow> (expr \<times> visited) option" where
  "visit_rebuilt cao v visit e ks vs =
     (if ks \<noteq> kids e then do {
        e' \<leftarrow> rebuild cao e ks;
        (if recursive v then visit e' vs else Some (e', vs))
      } else Some (e, vs))"

definition post_visit :: "visitor \<Rightarrow> expr \<Rightarrow> expr" where
  "post_visit v e = (if isConstantExpr e then e else (case visitExprPost v e of ChangeTo d \<Rightarrow> d | _ \<Rightarrow> e))"

definition visitActual ::
  "bool \<Rightarrow> visitor \<Rightarrow> (expr \<Rightarrow> visited \<Rightarrow> (expr \<times> visited) option) \<Rightarrow> expr \<Rightarrow> visited \<Rightarrow> (expr \<times> visited) option" where
  "visitActual cao v visit e vs =
     (if isConstantExpr e then Some (e, vs)
      else
        (case visitExpr v e of
           SkipChildren \<Rightarrow> Some (e, vs)
         | ChangeTo d \<Rightarrow> Some (d, vs)
         | DoChildren \<Rightarrow> do {
             (ks, vs) \<leftarrow> visit_kids visit (kids e) vs;
             (e, vs) \<leftarrow> visit_rebuilt cao v visit e ks vs;
             Some (post_visit v e, vs)
           }))"

text \<open>The hash table of visited expressions keeps the first entry.\<close>

primrec visit :: "bool \<Rightarrow> bool \<Rightarrow> visitor \<Rightarrow> nat \<Rightarrow> expr \<Rightarrow> visited \<Rightarrow> (expr \<times> visited) option" where
  "visit cao UseVisitorHash v 0 e vs = None"
| "visit cao UseVisitorHash v (Suc n) e vs =
     (if \<not> UseVisitorHash \<or> isConstantExpr e then visitActual cao v (visit cao UseVisitorHash v n) e vs
      else
        (case map_of vs e of
           Some r \<Rightarrow> Some (r, vs)
         | None \<Rightarrow> do {
             (res, vs) \<leftarrow> visitActual cao v (visit cao UseVisitorHash v n) e vs;
             Some (res, if map_of vs e = None then (e, res) # vs else vs)
           }))"

section \<open>Replacements that keep the value\<close>

definition same_value :: "(env \<Rightarrow> bool) \<Rightarrow> expr \<Rightarrow> expr \<Rightarrow> bool" where
  "same_value A e d \<longleftrightarrow> denotes A d (getWidth e) (\<lambda>\<sigma>. eval \<sigma> e)"

lemma same_value_refl: "wt e \<Longrightarrow> same_value A e e"
  by (simp add: same_value_def denotes_def)

lemma same_value_wt: "same_value A e d \<Longrightarrow> wt d" "same_value A e d \<Longrightarrow> getWidth d = getWidth e"
  by (simp_all add: same_value_def denotes_def)

lemma same_value_trans: "same_value A e d \<Longrightarrow> same_value A d c \<Longrightarrow> same_value A e c"
  by (simp add: same_value_def denotes_def)

lemma wt_kids: "wt e \<Longrightarrow> k \<in> set (kids e) \<Longrightarrow> wt k"
  by (cases e) auto

lemma rebuild_same_value:
  assumes e: "wt e" and ks: "list_all2 (same_value A) (kids e) ks" and r: "rebuild False e ks = Some r"
  shows "same_value A e r"
proof (cases e)
  case (ReadExpr a un i)
  then obtain k where k: "ks = [k]" "same_value A i k" using ks by (auto simp: list_all2_Cons1)
  have "ok (ReadExpr_create False (a, un) k) (\<lambda>e. denotes A e (arr_range a) (\<lambda>\<sigma>. read_updates \<sigma> un a (eval \<sigma> i)))"
    by (rule ReadExpr_create_ok) (use e k ReadExpr in \<open>auto simp: same_value_def wf_array_def\<close>)
  then show ?thesis using ReadExpr k r by (simp add: same_value_def)
next
  case (SelectExpr c t f)
  then obtain k0 k1 k2 where k: "ks = [k0, k1, k2]" "same_value A c k0" "same_value A t k1" "same_value A f k2"
    using ks by (auto simp: list_all2_Cons1)
  have "ok (SelectExpr_create False k0 k1 k2)
      (\<lambda>e. denotes A e (getWidth t) (\<lambda>\<sigma>. if eval \<sigma> c \<noteq> 0 then eval \<sigma> t else eval \<sigma> f))"
    by (rule SelectExpr_create_ok) (use e k SelectExpr in \<open>auto simp: same_value_def\<close>)
  then show ?thesis using SelectExpr k r by (simp add: same_value_def)
next
  case (ConcatExpr l r')
  then obtain k0 k1 where k: "ks = [k0, k1]" "same_value A l k0" "same_value A r' k1" using ks by (auto simp: list_all2_Cons1)
  then show ?thesis using ConcatExpr_create_ok [of A k0 "getWidth l" "\<lambda>\<sigma>. eval \<sigma> l" k1 "getWidth r'" "\<lambda>\<sigma>. eval \<sigma> r'"] ConcatExpr r
    by (simp add: same_value_def)
next
  case (ExtractExpr e' off w)
  then obtain k where k: "ks = [k]" "same_value A e' k" using ks by (auto simp: list_all2_Cons1)
  then show ?thesis using ExtractExpr_create_ok [of A k "getWidth e'" "\<lambda>\<sigma>. eval \<sigma> e'" w off] ExtractExpr e r
    by (simp add: same_value_def)
next
  case (ZExtExpr e' w)
  then obtain k where k: "ks = [k]" "same_value A e' k" using ks by (auto simp: list_all2_Cons1)
  then show ?thesis using ZExtExpr_create_ok [of A k "getWidth e'" "\<lambda>\<sigma>. eval \<sigma> e'" w] ZExtExpr e r wt_width_pos [of e]
    by (simp add: same_value_def)
next
  case (SExtExpr e' w)
  then obtain k where k: "ks = [k]" "same_value A e' k" using ks by (auto simp: list_all2_Cons1)
  then show ?thesis using SExtExpr_create_ok [of A k "getWidth e'" "\<lambda>\<sigma>. eval \<sigma> e'" w] SExtExpr e r wt_width_pos [of e]
    by (simp add: same_value_def)
next
  case (NotExpr e')
  then obtain k where k: "ks = [k]" "same_value A e' k" using ks by (auto simp: list_all2_Cons1)
  then show ?thesis using NotExpr_create_ok [of A k "getWidth e'" "\<lambda>\<sigma>. eval \<sigma> e'"] NotExpr r
    by (simp add: same_value_def)
next
  case (BinaryExpr op l r')
  then obtain k0 k1 where k: "ks = [k0, k1]" "same_value A l k0" "same_value A r' k1" using ks by (auto simp: list_all2_Cons1)
  then show ?thesis using bop_create_partial [of A k0 "getWidth l" "\<lambda>\<sigma>. eval \<sigma> l" k1 "\<lambda>\<sigma>. eval \<sigma> r'" op r] BinaryExpr e r
    by (simp add: same_value_def)
next
  case (CmpExpr op l r')
  then obtain k0 k1 where k: "ks = [k0, k1]" "same_value A l k0" "same_value A r' k1" using ks by (auto simp: list_all2_Cons1)
  then show ?thesis using cop_create_ok [of A k0 "getWidth l" "\<lambda>\<sigma>. eval \<sigma> l" k1 "\<lambda>\<sigma>. eval \<sigma> r'" op] CmpExpr e r
    by (simp add: same_value_def)
qed (use assms in \<open>auto simp: same_value_def denotes_def list_all2_Cons1\<close>)

definition sound_visitor :: "(env \<Rightarrow> bool) \<Rightarrow> visitor \<Rightarrow> bool" where
  "sound_visitor A v \<longleftrightarrow> (\<forall>e d. wt e \<longrightarrow> visitExpr v e = ChangeTo d \<or> visitExprPost v e = ChangeTo d \<longrightarrow> same_value A e d)"

definition sound_visited :: "(env \<Rightarrow> bool) \<Rightarrow> visited \<Rightarrow> bool" where
  "sound_visited A vs \<longleftrightarrow> (\<forall>p \<in> set vs. wt (fst p) \<longrightarrow> same_value A (fst p) (snd p))"

lemma sound_visited_find: "sound_visited A vs \<Longrightarrow> map_of vs e = Some r \<Longrightarrow> wt e \<Longrightarrow> same_value A e r"
  by (force simp: sound_visited_def dest: map_of_SomeD)

lemma visit_kids_sound:
  assumes "\<And>e vs r vs'. wt e \<Longrightarrow> sound_visited A vs \<Longrightarrow> rec e vs = Some (r, vs') \<Longrightarrow> same_value A e r \<and> sound_visited A vs'"
    and "\<forall>e \<in> set es. wt e" "sound_visited A vs" "visit_kids rec es vs = Some (ks, vs')"
  shows "list_all2 (same_value A) es ks \<and> sound_visited A vs'"
proof -
  have "list_all2 (same_value A) (done @ es) ks \<and> sound_visited A vs'"
    if "foldM (\<lambda>kid (ks, vs). do { (k, vs) \<leftarrow> rec kid vs; Some (ks @ [k], vs) }) es (ks0, vs0) = Some (ks, vs')"
      "list_all2 (same_value A) done ks0" "sound_visited A vs0" "\<forall>e \<in> set es. wt e" for "done" ks0 vs0
    using that
  proof (induction es arbitrary: "done" ks0 vs0)
    case (Cons e es)
    then obtain k vs1 where k: "rec e vs0 = Some (k, vs1)"
      "foldM (\<lambda>kid (ks, vs). do { (k, vs) \<leftarrow> rec kid vs; Some (ks @ [k], vs) }) es (ks0 @ [k], vs1) = Some (ks, vs')"
      by (auto split: bind_splits)
    have s: "same_value A e k" "sound_visited A vs1" using assms(1) [OF _ Cons.prems(3) k(1)] Cons.prems(4) by auto
    have "list_all2 (same_value A) (done @ [e]) (ks0 @ [k])" using Cons.prems(2) s(1) by (simp add: list_all2_appendI)
    from Cons.IH [OF k(2) this s(2)] Cons.prems(4) show ?case by simp
  qed simp
  from this [of "[]" vs "[]"] assms(2-4) show ?thesis by (simp add: visit_kids_def)
qed

lemma visitActual_sound:
  assumes rec: "\<And>e vs r vs'. wt e \<Longrightarrow> sound_visited A vs \<Longrightarrow> rec e vs = Some (r, vs') \<Longrightarrow> same_value A e r \<and> sound_visited A vs'"
    and v: "sound_visitor A v" and e: "wt e" and vs: "sound_visited A vs"
    and r: "visitActual False v rec e vs = Some (r, vs')"
  shows "same_value A e r \<and> sound_visited A vs'"
proof (cases "isConstantExpr e \<or> visitExpr v e \<noteq> DoChildren")
  case True
  show ?thesis
  proof (cases "isConstantExpr e \<or> visitExpr v e = SkipChildren")
    case True
    then show ?thesis using r vs same_value_refl [OF e] by (auto simp: visitActual_def split: if_splits)
  next
    case False
    then obtain d where d: "visitExpr v e = ChangeTo d" using True by (cases "visitExpr v e") auto
    then have "same_value A e d" using v e by (simp add: sound_visitor_def)
    then show ?thesis using False d r vs by (simp add: visitActual_def)
  qed
next
  case False
  then obtain ks vs1 e1 where ks: "visit_kids rec (kids e) vs = Some (ks, vs1)"
    and e1: "visit_rebuilt False v rec e ks vs1 = Some (e1, vs')" and r': "r = post_visit v e1"
    using r by (auto simp: visitActual_def split: bind_splits)
  have k: "list_all2 (same_value A) (kids e) ks" "sound_visited A vs1"
    using visit_kids_sound [of A rec, OF rec _ vs ks] wt_kids [OF e] by auto
  have s: "same_value A e e1 \<and> sound_visited A vs'"
  proof (cases "ks = kids e")
    case True
    then show ?thesis using e1 k same_value_refl [OF e] by (simp add: visit_rebuilt_def)
  next
    case n: False
    then obtain e' where e': "rebuild False e ks = Some e'" "(if recursive v then rec e' vs1 else Some (e', vs1)) = Some (e1, vs')"
      using e1 by (auto simp: visit_rebuilt_def split: bind_splits)
    have s: "same_value A e e'" by (rule rebuild_same_value [OF e k(1) e'(1)])
    then show ?thesis
      using e'(2) rec [of e' vs1 e1 vs'] k(2) same_value_wt(1) [OF s] same_value_trans [OF s] by (auto split: if_splits)
  qed
  have w1: "wt e1" using same_value_wt(1) s by blast
  have "same_value A e1 r"
  proof (cases "isConstantExpr e1")
    case True
    then show ?thesis using r' same_value_refl [OF w1] by (simp add: post_visit_def)
  next
    case False
    then show ?thesis using r' same_value_refl [OF w1] v w1
      by (cases "visitExprPost v e1") (simp_all add: sound_visitor_def post_visit_def)
  qed
  then show ?thesis using s same_value_trans by blast
qed

lemma visit_sound:
  assumes "sound_visitor A v" "wt e" "sound_visited A vs" "visit False h v n e vs = Some (r, vs')"
  shows "same_value A e r \<and> sound_visited A vs'"
  using assms(2-4)
proof (induction n arbitrary: e vs r vs')
  case (Suc n)
  have act: "same_value A e r \<and> sound_visited A vs'" if "visitActual False v (visit False h v n) e vs = Some (r, vs')" for r vs'
    by (rule visitActual_sound [OF _ assms(1) Suc.prems(1,2) that]) (rule Suc.IH)
  show ?case
  proof (cases "\<not> h \<or> isConstantExpr e")
    case True
    then show ?thesis using Suc.prems(3) act by simp
  next
    case False
    show ?thesis
    proof (cases "map_of vs e")
      case (Some x)
      then show ?thesis using False Suc.prems sound_visited_find by (auto split: if_splits)
    next
      case None
      then obtain vs1 where a: "visitActual False v (visit False h v n) e vs = Some (r, vs1)"
        "vs' = (if map_of vs1 e = None then (e, r) # vs1 else vs1)"
        using False Suc.prems(3) by (auto split: bind_splits if_splits)
      then show ?thesis using act [OF a(1)] by (simp add: sound_visited_def)
    qed
  qed
qed simp

end
