(* ===== verification/Solver_Impl.thy ===== *)
theory Solver_Impl
  imports Expr_Build Bits
begin

unbundle bit_operations_syntax

text \<open>
  The solver interface: queries and \<^verbatim>\<open>Solver\<close> (\<^verbatim>\<open>lib/Solver/Solver.cpp\<close>), the default methods of
  \<^verbatim>\<open>SolverImpl\<close> (\<^verbatim>\<open>lib/Solver/SolverImpl.cpp\<close>) and the solver that never answers
  (\<^verbatim>\<open>lib/Solver/DummySolver.cpp\<close>).  The abstract class \<^verbatim>\<open>SolverImpl\<close> is the record \<open>impl\<close> of its
  virtual methods; the external decision procedures behind it are not modelled.  A method returns a
  \<open>reply\<close>: \<open>None\<close> is a failed assertion, \<open>Some None\<close> the return value \<^verbatim>\<open>false\<close>, and \<open>Some (Some x)\<close>
  success with the result \<open>x\<close>.  A query is the list of its constraints and its expression.
\<close>

section \<open>Queries\<close>

type_synonym query = "expr list \<times> expr"

type_synonym 'a reply = "'a option option"

text \<open>\<^verbatim>\<open>if (!call) return false;\<close>\<close>

definition andThen :: "'a reply \<Rightarrow> ('a \<Rightarrow> 'b reply) \<Rightarrow> 'b reply" where
  "andThen r f = (case r of None \<Rightarrow> None | Some None \<Rightarrow> Some None | Some (Some x) \<Rightarrow> f x)"

text \<open>\<^verbatim>\<open>assert(success)\<close>\<close>

definition must_succeed :: "'a reply \<Rightarrow> 'a option" where
  "must_succeed r = (case r of None \<Rightarrow> None | Some x \<Rightarrow> x)"

definition withExpr :: "query \<Rightarrow> expr \<Rightarrow> query" where
  "withExpr q e = (fst q, e)"

definition withFalse :: "query \<Rightarrow> query" where
  "withFalse q = (fst q, ConstantExpr (APInt 1 0))"

definition negateExpr :: "bool \<Rightarrow> query \<Rightarrow> query option" where
  "negateExpr cao q = do { e \<leftarrow> createIsZero cao (snd q); Some (withExpr q e) }"

section \<open>Implementations\<close>

datatype Validity = VTrue | VFalse | VUnknown

record impl =
  computeTruth :: "query \<Rightarrow> bool reply"
  computeValidity :: "query \<Rightarrow> Validity reply"
  computeValue :: "query \<Rightarrow> expr reply"
  computeInitialValues :: "query \<Rightarrow> array list \<Rightarrow> (u8 list list \<times> bool) reply"

definition SolverImpl_computeValidity :: "bool \<Rightarrow> (query \<Rightarrow> bool reply) \<Rightarrow> query \<Rightarrow> Validity reply" where
  "SolverImpl_computeValidity cao truth query =
     andThen (truth query) (\<lambda>isTrue.
       if isTrue then Some (Some VTrue)
       else do {
         q \<leftarrow> negateExpr cao query;
         andThen (truth q) (\<lambda>isFalse. Some (Some (if isFalse then VFalse else VUnknown)))
       })"

definition DummySolverImpl :: impl where
  "DummySolverImpl = \<lparr>computeTruth = (\<lambda>_. Some None), computeValidity = (\<lambda>_. Some None),
     computeValue = (\<lambda>_. Some None), computeInitialValues = (\<lambda>_ _. Some None)\<rparr>"

section \<open>The class Solver\<close>

definition Solver_evaluate :: "impl \<Rightarrow> query \<Rightarrow> Validity reply" where
  "Solver_evaluate I query = do {
     assert_that (getWidth (snd query) = 1);
     (case as_const (snd query) of
        Some CE \<Rightarrow> Some (Some (if ConstantExpr_isTrue CE then VTrue else VFalse))
      | None \<Rightarrow> computeValidity I query)
   }"

definition Solver_mustBeTrue :: "impl \<Rightarrow> query \<Rightarrow> bool reply" where
  "Solver_mustBeTrue I query = do {
     assert_that (getWidth (snd query) = 1);
     (case as_const (snd query) of
        Some CE \<Rightarrow> Some (Some (ConstantExpr_isTrue CE))
      | None \<Rightarrow> computeTruth I query)
   }"

definition Solver_mustBeFalse :: "bool \<Rightarrow> impl \<Rightarrow> query \<Rightarrow> bool reply" where
  "Solver_mustBeFalse cao I query = do { q \<leftarrow> negateExpr cao query; Solver_mustBeTrue I q }"

definition Solver_mayBeTrue :: "bool \<Rightarrow> impl \<Rightarrow> query \<Rightarrow> bool reply" where
  "Solver_mayBeTrue cao I query = andThen (Solver_mustBeFalse cao I query) (\<lambda>res. Some (Some (\<not> res)))"

definition Solver_mayBeFalse :: "impl \<Rightarrow> query \<Rightarrow> bool reply" where
  "Solver_mayBeFalse I query = andThen (Solver_mustBeTrue I query) (\<lambda>res. Some (Some (\<not> res)))"

definition Solver_getValue :: "impl \<Rightarrow> query \<Rightarrow> apint reply" where
  "Solver_getValue I query =
     (case as_const (snd query) of
        Some CE \<Rightarrow> Some (Some CE)
      | None \<Rightarrow> andThen (computeValue I query) (\<lambda>tmp. map_option Some (as_const tmp)))"

definition Solver_getInitialValues :: "impl \<Rightarrow> query \<Rightarrow> array list \<Rightarrow> u8 list list reply" where
  "Solver_getInitialValues I query objects =
     andThen (computeInitialValues I query objects) (\<lambda>(values, hasSolution).
       Some (if hasSolution then Some values else None))"

text \<open>
  The binary search that \<^verbatim>\<open>getRange\<close> writes out three times.  The middle lies between the two
  bounds, so the 64-bit counters of the source never wrap and are natural numbers here.
\<close>

function bsearch :: "(nat \<Rightarrow> bool option) \<Rightarrow> nat \<Rightarrow> nat \<Rightarrow> nat option" where
  "bsearch test lo hi =
     (if lo < hi then
        (let mid = lo + (hi - lo) div 2
         in do { res \<leftarrow> test mid; (if res then bsearch test lo mid else bsearch test (mid + 1) hi) })
      else Some lo)"
  by pat_completeness auto
termination bsearch
  by (relation "measure (\<lambda>(_, lo, hi). hi - lo)") auto

definition const_of :: "nat \<Rightarrow> width \<Rightarrow> expr option" where
  "const_of v w = map_option ConstantExpr (ConstantExpr_create (of_nat v) w)"

definition shifts_to_zero :: "bool \<Rightarrow> impl \<Rightarrow> query \<Rightarrow> nat \<Rightarrow> bool option" where
  "shifts_to_zero cao I query mid = do {
     let e = snd query;
     c \<leftarrow> const_of mid (getWidth e);
     s \<leftarrow> LShrExpr_create cao e c;
     z \<leftarrow> const_of 0 (getWidth e);
     eq \<leftarrow> EqExpr_create cao s z;
     must_succeed (Solver_mustBeTrue I (withExpr query eq))
   }"

definition may_be_zero :: "bool \<Rightarrow> impl \<Rightarrow> query \<Rightarrow> bool option" where
  "may_be_zero cao I query = do {
     let e = snd query;
     z \<leftarrow> const_of 0 (getWidth e);
     eq \<leftarrow> EqExpr_create cao e z;
     must_succeed (Solver_mayBeTrue cao I (withExpr query eq))
   }"

definition may_be_at_most :: "bool \<Rightarrow> impl \<Rightarrow> query \<Rightarrow> nat \<Rightarrow> bool option" where
  "may_be_at_most cao I query mid = do {
     let e = snd query;
     c \<leftarrow> const_of mid (getWidth e);
     le \<leftarrow> UleExpr_create cao e c;
     must_succeed (Solver_mayBeTrue cao I (withExpr query le))
   }"

definition must_be_at_most :: "bool \<Rightarrow> impl \<Rightarrow> query \<Rightarrow> nat \<Rightarrow> bool option" where
  "must_be_at_most cao I query mid = do {
     let e = snd query;
     c \<leftarrow> const_of mid (getWidth e);
     le \<leftarrow> UleExpr_create cao e c;
     must_succeed (Solver_mustBeTrue I (withExpr query le))
   }"

definition range_search :: "bool \<Rightarrow> impl \<Rightarrow> query \<Rightarrow> (nat \<times> nat) option" where
  "range_search cao I query = do {
     bits \<leftarrow> bsearch (shifts_to_zero cao I query) 0 (getWidth (snd query));
     res \<leftarrow> may_be_zero cao I query;
     mx \<leftarrow> maxValueOfNBits64 bits;
     mn \<leftarrow> (if res then Some 0 else bsearch (may_be_at_most cao I query) 0 (unat mx));
     hi \<leftarrow> bsearch (must_be_at_most cao I query) mn (unat mx);
     Some (mn, hi)
   }"

definition Solver_getRange :: "bool \<Rightarrow> impl \<Rightarrow> query \<Rightarrow> (expr \<times> expr) option" where
  "Solver_getRange cao I query = do {
     let e = snd query;
     let width = getWidth e;
     (mn, mx) \<leftarrow>
       (if width = 1 then do {
          result \<leftarrow> must_succeed (Solver_evaluate I query);
          Some (case result of VTrue \<Rightarrow> (1, 1) | VFalse \<Rightarrow> (0, 0) | VUnknown \<Rightarrow> (0, 1))
        }
        else (case as_const e of
          Some CE \<Rightarrow> do { v \<leftarrow> ConstantExpr_getZExtValue CE 64; Some (unat v, unat v) }
        | None \<Rightarrow> range_search cao I query));
     lo \<leftarrow> const_of mn width;
     hi \<leftarrow> const_of mx width;
     Some (lo, hi)
   }"

section \<open>The contract\<close>

definition holds :: "expr list \<Rightarrow> env \<Rightarrow> bool" where
  "holds cs \<sigma> \<longleftrightarrow> (\<forall>c \<in> set cs. eval \<sigma> c \<noteq> 0)"

definition feasible :: "expr list \<Rightarrow> bool" where
  "feasible cs \<longleftrightarrow> (\<exists>\<sigma>. wf_env \<sigma> \<and> holds cs \<sigma>)"

definition wf_query :: "query \<Rightarrow> bool" where
  "wf_query q \<longleftrightarrow> (\<forall>c \<in> set (fst q). wt c \<and> getWidth c = 1) \<and> wt (snd q) \<and> feasible (fst q)"

text \<open>The formulas that the documentation of \<^verbatim>\<open>SolverImpl\<close> gives for its results.\<close>

definition valid :: "query \<Rightarrow> bool" where
  "valid q \<longleftrightarrow> (\<forall>\<sigma>. wf_env \<sigma> \<longrightarrow> holds (fst q) \<sigma> \<longrightarrow> eval \<sigma> (snd q) \<noteq> 0)"

definition refuted :: "query \<Rightarrow> bool" where
  "refuted q \<longleftrightarrow> (\<forall>\<sigma>. wf_env \<sigma> \<longrightarrow> holds (fst q) \<sigma> \<longrightarrow> eval \<sigma> (snd q) = 0)"

definition validity_of :: "query \<Rightarrow> Validity" where
  "validity_of q = (if valid q then VTrue else if refuted q then VFalse else VUnknown)"

definition possible_value :: "query \<Rightarrow> int \<Rightarrow> bool" where
  "possible_value q v \<longleftrightarrow> (\<exists>\<sigma>. wf_env \<sigma> \<and> holds (fst q) \<sigma> \<and> eval \<sigma> (snd q) = v)"

definition initial_bytes :: "env \<Rightarrow> array list \<Rightarrow> u8 list list \<Rightarrow> bool" where
  "initial_bytes \<sigma> objects values \<longleftrightarrow> list_all2 (\<lambda>a bs. length bs = arr_size a \<and>
     (\<forall>i < arr_size a. uint (bs ! i) = init_val \<sigma> a (int i))) objects values"

definition counterexample :: "query \<Rightarrow> array list \<Rightarrow> u8 list list \<Rightarrow> bool" where
  "counterexample q objects values \<longleftrightarrow>
     (\<exists>\<sigma>. wf_env \<sigma> \<and> holds (fst q) \<sigma> \<and> eval \<sigma> (snd q) = 0 \<and> initial_bytes \<sigma> objects values)"

text \<open>A reply never aborts, and if it is a success its result satisfies \<open>P\<close>.\<close>

definition replies :: "'a reply \<Rightarrow> ('a \<Rightarrow> bool) \<Rightarrow> bool" where
  "replies r P \<longleftrightarrow> ok r (\<lambda>x. \<forall>y. x = Some y \<longrightarrow> P y)"

text \<open>
  \<^verbatim>\<open>Solver\<close> never passes a constant on, but the solvers built from other solvers negate a query
  without that test, so the contract covers constants.
\<close>

definition bool_query :: "query \<Rightarrow> bool" where
  "bool_query q \<longleftrightarrow> wf_query q \<and> getWidth (snd q) = 1"

locale sound_solver =
  fixes I :: impl
  assumes truth: "bool_query q \<Longrightarrow> replies (computeTruth I q) (\<lambda>b. b = valid q)"
    and validity: "bool_query q \<Longrightarrow> replies (computeValidity I q) (\<lambda>v. v = validity_of q)"
    and value_of: "wf_query q \<Longrightarrow> \<not> isConstantExpr (snd q) \<Longrightarrow> replies (computeValue I q)
      (\<lambda>e. \<exists>c. e = ConstantExpr c \<and> wf_ap c \<and> bitWidth c = getWidth (snd q) \<and> possible_value q (apval c))"
    and initial: "wf_query q \<Longrightarrow> getWidth (snd q) = 1 \<Longrightarrow> replies (computeInitialValues I q objects)
      (\<lambda>(values, hasSolution). hasSolution = (\<not> valid q) \<and> (hasSolution \<longrightarrow> counterexample q objects values))"

locale complete_solver = sound_solver +
  assumes truth_answered: "bool_query q \<Longrightarrow> computeTruth I q \<noteq> Some None"
    and validity_answered: "bool_query q \<Longrightarrow> computeValidity I q \<noteq> Some None"

interpretation dummy: sound_solver DummySolverImpl
  by unfold_locales (simp_all add: DummySolverImpl_def replies_def)

end
