(* ===== verification/Constraints.thy ===== *)
theory Constraints
  imports Expr_Visitor Solver_Impl
begin

text \<open>
  \<^verbatim>\<open>ConstraintManager\<close> of \<^verbatim>\<open>lib/Expr/Constraints.cpp\<close>: the path condition of an execution state.
  Adding a constraint simplifies it with the equalities already known, splits conjunctions and
  rewrites the old constraints with a new equality.  The constraints are a hash set in the source
  and a list without duplicates here; its order is the order of iteration, which the source leaves
  open.
\<close>

section \<open>Replacing expressions\<close>

definition ExprReplaceVisitor :: "expr \<Rightarrow> expr \<Rightarrow> visitor" where
  "ExprReplaceVisitor src dst =
     \<lparr>visitExpr = (\<lambda>e. if e = src then ChangeTo dst else DoChildren),
      visitExprPost = (\<lambda>e. if e = src then ChangeTo dst else DoChildren),
      recursive = False\<rparr>"

definition ExprReplaceVisitor2 :: "(expr \<times> expr) list \<Rightarrow> visitor" where
  "ExprReplaceVisitor2 replacements =
     \<lparr>visitExpr = (\<lambda>e. DoChildren),
      visitExprPost = (\<lambda>e. case map_of replacements e of Some d \<Rightarrow> ChangeTo d | None \<Rightarrow> DoChildren),
      recursive = True\<rparr>"

section \<open>The constraint set\<close>

text \<open>The options of the program that matter here, and the fuel of the two unbounded recursions: a visit of an
  expression may use fuel that depends on it.\<close>

record cm_config =
  cm_cao :: bool
  UseVisitorHash :: bool
  RewriteEqualities :: bool
  visit_fuel :: "expr \<Rightarrow> nat"
  add_fuel :: nat

definition cs_insert :: "expr \<Rightarrow> expr list \<Rightarrow> expr list" where
  "cs_insert e cs = (if e \<in> set cs then cs else cs @ [e])"

text \<open>\<^verbatim>\<open>std::map::insert\<close> keeps the entry that is there.\<close>

definition eq_insert :: "expr \<Rightarrow> expr \<Rightarrow> (expr \<times> expr) list \<Rightarrow> (expr \<times> expr) list" where
  "eq_insert k v m = (if map_of m k = None then m @ [(k, v)] else m)"

definition true_expr :: expr where
  "true_expr = ConstantExpr (APInt 1 1)"

definition add_equality :: "expr \<Rightarrow> (expr \<times> expr) list \<Rightarrow> (expr \<times> expr) list" where
  "add_equality c m = (case c of
     CmpExpr Eq l r \<Rightarrow> (if isConstantExpr l then eq_insert r l m else eq_insert c true_expr m)
   | _ \<Rightarrow> eq_insert c true_expr m)"

definition equalities_of :: "expr list \<Rightarrow> (expr \<times> expr) list" where
  "equalities_of cs = fold add_equality cs []"

definition simplifyExpr :: "cm_config \<Rightarrow> expr list \<Rightarrow> expr \<Rightarrow> expr option" where
  "simplifyExpr cfg cs e =
     (if isConstantExpr e then Some e
      else map_option fst (visit (cm_cao cfg) (UseVisitorHash cfg) (ExprReplaceVisitor2 (equalities_of cs)) (visit_fuel cfg e) e []))"

definition rewrite_one ::
  "cm_config \<Rightarrow> (expr \<Rightarrow> expr list \<Rightarrow> expr list option) \<Rightarrow> visitor \<Rightarrow> expr \<Rightarrow> expr list \<times> visited \<times> bool \<Rightarrow>
   (expr list \<times> visited \<times> bool) option" where
  "rewrite_one cfg add v ce s = do {
     let (cs, vs, changed) = s;
     (e, vs) \<leftarrow> visit (cm_cao cfg) (UseVisitorHash cfg) v (visit_fuel cfg ce) ce vs;
     (if e \<noteq> ce then do { cs \<leftarrow> add e cs; Some (cs, vs, True) }
      else Some (cs_insert ce cs, vs, changed))
   }"

definition rewriteConstraints ::
  "cm_config \<Rightarrow> (expr \<Rightarrow> expr list \<Rightarrow> expr list option) \<Rightarrow> visitor \<Rightarrow> expr list \<Rightarrow> (expr list \<times> bool) option" where
  "rewriteConstraints cfg add v old = do {
     (cs, vs, changed) \<leftarrow> foldM (rewrite_one cfg add v) old ([], [], False);
     Some (cs, changed)
   }"

primrec addConstraintInternal :: "cm_config \<Rightarrow> nat \<Rightarrow> expr \<Rightarrow> expr list \<Rightarrow> expr list option" where
  "addConstraintInternal cfg 0 e cs = None"
| "addConstraintInternal cfg (Suc n) e cs =
     (case e of
        ConstantExpr c \<Rightarrow> do { assert_that (ConstantExpr_isTrue c); Some cs }
      | BinaryExpr And l r \<Rightarrow> do { cs \<leftarrow> addConstraintInternal cfg n l cs; addConstraintInternal cfg n r cs }
      | CmpExpr Eq l r \<Rightarrow> do {
          cs \<leftarrow> (if RewriteEqualities cfg \<and> isConstantExpr l
                then map_option fst (rewriteConstraints cfg (addConstraintInternal cfg n) (ExprReplaceVisitor r l) cs)
                else Some cs);
          Some (cs_insert e cs)
        }
      | _ \<Rightarrow> Some (cs_insert e cs))"

definition addConstraint :: "cm_config \<Rightarrow> expr \<Rightarrow> expr list \<Rightarrow> expr list option" where
  "addConstraint cfg e cs = do {
     e \<leftarrow> simplifyExpr cfg cs e;
     assert_that (e \<notin> set cs);
     addConstraintInternal cfg (add_fuel cfg) e cs
   }"

definition removeConstraint :: "expr \<Rightarrow> expr list \<Rightarrow> expr list" where
  "removeConstraint e cs = removeAll e cs"

section \<open>Soundness\<close>

definition wf_constraints :: "expr list \<Rightarrow> bool" where
  "wf_constraints cs \<longleftrightarrow> (\<forall>c \<in> set cs. wt c \<and> getWidth c = 1)"

lemma holds_simps [simp]:
  "holds [] \<sigma>" "holds (c # cs) \<sigma> \<longleftrightarrow> eval \<sigma> c \<noteq> 0 \<and> holds cs \<sigma>" "holds (xs @ ys) \<sigma> \<longleftrightarrow> holds xs \<sigma> \<and> holds ys \<sigma>"
  by (auto simp: holds_def)

lemma cs_insert_simps [simp]:
  "holds (cs_insert e cs) \<sigma> \<longleftrightarrow> holds cs \<sigma> \<and> eval \<sigma> e \<noteq> 0"
  "set (cs_insert e cs) = insert e (set cs)"
  "wf_constraints (cs_insert e cs) \<longleftrightarrow> wf_constraints cs \<and> wt e \<and> getWidth e = 1"
  by (auto simp: cs_insert_def holds_def wf_constraints_def)

lemma bool_value: "wt e \<Longrightarrow> getWidth e = 1 \<Longrightarrow> wf_env \<sigma> \<Longrightarrow> eval \<sigma> e \<noteq> 0 \<longleftrightarrow> eval \<sigma> e = 1"
  using eval_in_width(1) [of e \<sigma>] by (auto simp: in_width_def)

text \<open>Every entry of the table of equalities replaces an expression by its value under the constraints.\<close>

definition sound_table :: "(env \<Rightarrow> bool) \<Rightarrow> (expr \<times> expr) list \<Rightarrow> bool" where
  "sound_table A m \<longleftrightarrow> (\<forall>p \<in> set m. same_value A (fst p) (snd p))"

lemma add_equality_sound:
  assumes "sound_table A m" "wt c" "getWidth c = 1" "\<And>\<sigma>. wf_env \<sigma> \<Longrightarrow> A \<sigma> \<Longrightarrow> eval \<sigma> c \<noteq> 0"
  shows "sound_table A (add_equality c m)"
proof -
  have "same_value A c true_expr"
    using assms(2-4) bool_value by (auto simp: same_value_def true_expr_def denotes_def)
  then have d: "sound_table A (eq_insert c true_expr m)" using assms(1) by (auto simp: sound_table_def eq_insert_def)
  have "sound_table A (eq_insert r l m)" if "c = CmpExpr Eq l r" for l r
  proof -
    have "eval \<sigma> l = eval \<sigma> r" if "wf_env \<sigma>" "A \<sigma>" for \<sigma>
      using assms(4) [OF that] \<open>c = CmpExpr Eq l r\<close> by (cases "eval \<sigma> l = eval \<sigma> r") simp_all
    then have "same_value A r l" using that assms(2) by (simp add: same_value_def denotes_def)
    then show ?thesis using assms(1) by (auto simp: sound_table_def eq_insert_def)
  qed
  then show ?thesis using d by (auto simp: add_equality_def split: expr.split cop.split)
qed

lemma equalities_of_sound:
  assumes "wf_constraints cs"
  shows "sound_table (holds cs) (equalities_of cs)"
proof -
  have "sound_table (holds cs) (fold add_equality xs m)" if "set xs \<subseteq> set cs" "sound_table (holds cs) m" for xs m
    using that
  proof (induction xs arbitrary: m)
    case (Cons x xs)
    have "sound_table (holds cs) (add_equality x m)"
    proof (rule add_equality_sound)
      show "wt x" "getWidth x = 1" using Cons.prems(1) assms by (auto simp: wf_constraints_def)
      show "eval \<sigma> x \<noteq> 0" if "holds cs \<sigma>" for \<sigma> using that Cons.prems(1) by (auto simp: holds_def)
    qed (rule Cons.prems(2))
    then show ?case using Cons by simp
  qed simp
  from this [of cs "[]"] show ?thesis by (simp add: equalities_of_def sound_table_def)
qed

lemma replace2_sound: "sound_table A m \<Longrightarrow> sound_visitor A (ExprReplaceVisitor2 m)"
  by (force simp: sound_visitor_def ExprReplaceVisitor2_def sound_table_def split: option.splits dest: map_of_SomeD)

lemma replace_sound: "same_value A src dst \<Longrightarrow> sound_visitor A (ExprReplaceVisitor src dst)"
  by (auto simp: sound_visitor_def ExprReplaceVisitor_def split: if_splits)

lemma simplifyExpr_sound:
  assumes "wf_constraints cs" "wt e" "\<not> cm_cao cfg" "simplifyExpr cfg cs e = Some r"
  shows "same_value (holds cs) e r"
proof (cases "isConstantExpr e")
  case True
  then show ?thesis using assms(2,4) same_value_refl by (simp add: simplifyExpr_def)
next
  case False
  then obtain vs where "visit False (UseVisitorHash cfg) (ExprReplaceVisitor2 (equalities_of cs)) (visit_fuel cfg e) e [] = Some (r, vs)"
    using assms(3,4) by (auto simp: simplifyExpr_def)
  from visit_sound [OF replace2_sound [OF equalities_of_sound [OF assms(1)]] assms(2) _ this]
  show ?thesis by (simp add: sound_visited_def)
qed

text \<open>What adding a constraint promises.\<close>

definition adds :: "(expr \<Rightarrow> expr list \<Rightarrow> expr list option) \<Rightarrow> bool" where
  "adds f \<longleftrightarrow> (\<forall>e cs cs'. wf_constraints cs \<longrightarrow> wt e \<longrightarrow> getWidth e = 1 \<longrightarrow> f e cs = Some cs' \<longrightarrow>
     wf_constraints cs' \<and> (\<forall>\<sigma>. wf_env \<sigma> \<longrightarrow> (holds cs' \<sigma> \<longleftrightarrow> holds cs \<sigma> \<and> eval \<sigma> e \<noteq> 0)))"

lemma addsD:
  assumes "adds f" "wf_constraints cs" "wt e" "getWidth e = 1" "f e cs = Some cs'"
  shows "wf_constraints cs'" "wf_env \<sigma> \<Longrightarrow> holds cs' \<sigma> \<longleftrightarrow> holds cs \<sigma> \<and> eval \<sigma> e \<noteq> 0"
  using assms unfolding adds_def by blast+

lemma rewriteConstraints_sound:
  assumes add: "adds add" and v: "sound_visitor A v" and cao: "\<not> cm_cao cfg"
    and cs: "wf_constraints cs" and r: "rewriteConstraints cfg add v cs = Some (cs', changed)"
  shows "wf_constraints cs'" "wf_env \<sigma> \<Longrightarrow> A \<sigma> \<Longrightarrow> holds cs' \<sigma> \<longleftrightarrow> holds cs \<sigma>"
proof -
  have loop: "wf_constraints cs1 \<and> (\<forall>\<sigma>. wf_env \<sigma> \<longrightarrow> A \<sigma> \<longrightarrow> (holds cs1 \<sigma> \<longleftrightarrow> holds cs0 \<sigma> \<and> holds old \<sigma>))"
    if "foldM (rewrite_one cfg add v) old (cs0, vs0, ch0) = Some (cs1, vs1, ch1)" "wf_constraints cs0" "wf_constraints old"
      "sound_visited A vs0" for old cs0 vs0 ch0 cs1 vs1 ch1
    using that
  proof (induction old arbitrary: cs0 vs0 ch0)
    case (Cons c old)
    from Cons.prems(1) obtain s where s: "rewrite_one cfg add v c (cs0, vs0, ch0) = Some s"
      "foldM (rewrite_one cfg add v) old s = Some (cs1, vs1, ch1)" by (auto split: bind_splits)
    obtain cs2 vs2 ch2 where s2: "s = (cs2, vs2, ch2)" by (cases s)
    from s(1) obtain e where e: "visit False (UseVisitorHash cfg) v (visit_fuel cfg c) c vs0 = Some (e, vs2)"
      and cs2: "if e \<noteq> c then add e cs0 = Some cs2 else cs2 = cs_insert c cs0"
      using cao s2 by (auto simp: rewrite_one_def split: bind_splits if_splits)
    have c: "wt c" "getWidth c = 1" using Cons.prems(3) by (simp_all add: wf_constraints_def)
    have sv: "same_value A c e" "sound_visited A vs2" using visit_sound [OF v c(1) Cons.prems(4) e] by simp_all
    have ec: "wt e" "getWidth e = 1" using same_value_wt [OF sv(1)] c(2) by simp_all
    have ev: "eval \<sigma> e = eval \<sigma> c" if "wf_env \<sigma>" "A \<sigma>" for \<sigma> using sv(1) that by (simp add: same_value_def denotes_def)
    have 2: "wf_constraints cs2 \<and> (\<forall>\<sigma>. wf_env \<sigma> \<longrightarrow> A \<sigma> \<longrightarrow> (holds cs2 \<sigma> \<longleftrightarrow> holds cs0 \<sigma> \<and> eval \<sigma> c \<noteq> 0))"
    proof (cases "e = c")
      case True
      then show ?thesis using cs2 Cons.prems(2) c by simp
    next
      case False
      then have a: "add e cs0 = Some cs2" using cs2 by simp
      show ?thesis using addsD(1) [OF add Cons.prems(2) ec a] addsD(2) [OF add Cons.prems(2) ec a] ev by simp
    qed
    have old: "wf_constraints old" using Cons.prems(3) by (simp add: wf_constraints_def)
    from 2 have wf2: "wf_constraints cs2" by simp
    show ?case using Cons.IH [OF s(2) [unfolded s2] wf2 old sv(2)] 2 by simp
  qed simp
  from r obtain vs where f: "foldM (rewrite_one cfg add v) cs ([], [], False) = Some (cs', vs, changed)"
    by (auto simp: rewriteConstraints_def split: bind_splits)
  have "wf_constraints []" "sound_visited A []" by (simp_all add: wf_constraints_def sound_visited_def)
  from loop [OF f this(1) cs this(2)]
  show "wf_constraints cs'" "wf_env \<sigma> \<Longrightarrow> A \<sigma> \<Longrightarrow> holds cs' \<sigma> \<longleftrightarrow> holds cs \<sigma>" by simp_all
qed

lemma isConstantExpr_iff: "isConstantExpr e \<longleftrightarrow> (\<exists>c. e = ConstantExpr c)"
  by (simp add: isConstantExpr_def split: expr.split)

lemma addConstraintInternal_insert:
  assumes "\<not> isConstantExpr e" "\<And>l r. e \<noteq> BinaryExpr And l r" "\<And>l r. e \<noteq> CmpExpr Eq l r"
  shows "addConstraintInternal cfg (Suc n) e cs = Some (cs_insert e cs)"
proof (cases e)
  case (BinaryExpr op l r)
  then show ?thesis using assms(2) by (cases op) simp_all
next
  case (CmpExpr op l r)
  then show ?thesis using assms(3) by (cases op) simp_all
qed (use assms(1) in \<open>simp_all add: isConstantExpr_def\<close>)

lemma addConstraintInternal_sound:
  assumes "\<not> cm_cao cfg"
  shows "adds (addConstraintInternal cfg n)"
proof (induction n)
  case (Suc n)
  show ?case unfolding adds_def
  proof (intro allI impI)
    fix e cs cs'
    assume cs: "wf_constraints cs" and e: "wt e" "getWidth e = 1" and r: "addConstraintInternal cfg (Suc n) e cs = Some cs'"
    show "wf_constraints cs' \<and> (\<forall>\<sigma>. wf_env \<sigma> \<longrightarrow> (holds cs' \<sigma> \<longleftrightarrow> holds cs \<sigma> \<and> eval \<sigma> e \<noteq> 0))"
    proof -
      consider (const) c where "e = ConstantExpr c" | (conj) l r where "e = BinaryExpr And l r"
        | (eq) l r where "e = CmpExpr Eq l r"
        | (other) "addConstraintInternal cfg (Suc n) e cs = Some (cs_insert e cs)"
        using addConstraintInternal_insert [of e cfg n cs] isConstantExpr_iff by blast
      then show ?thesis
      proof cases
        case const
        then show ?thesis using r cs e by (auto simp: ConstantExpr_isTrue_def split: bind_splits)
      next
        case conj
        then obtain cs1 where c1: "addConstraintInternal cfg n l cs = Some cs1" "addConstraintInternal cfg n r cs1 = Some cs'"
          using r by (auto split: bind_splits)
        have w: "wt l" "getWidth l = 1" "wt r" "getWidth r = 1" using conj e by simp_all
        note 1 = addsD [OF Suc cs w(1,2) c1(1)] and 2 = addsD [OF Suc addsD(1) [OF Suc cs w(1,2) c1(1)] w(3,4) c1(2)]
        have "eval \<sigma> e \<noteq> 0 \<longleftrightarrow> eval \<sigma> l \<noteq> 0 \<and> eval \<sigma> r \<noteq> 0" if "wf_env \<sigma>" for \<sigma>
          using conj bool_value [OF w(1,2) that] bool_value [OF w(3,4) that] by auto
        then show ?thesis using 1 2 by auto
      next
        case eq
        then obtain cs1 where c1: "(if RewriteEqualities cfg \<and> isConstantExpr l
            then map_option fst (rewriteConstraints cfg (addConstraintInternal cfg n) (ExprReplaceVisitor r l) cs)
            else Some cs) = Some cs1" "cs' = cs_insert e cs1" using r by (auto split: bind_splits)
        let ?A = "\<lambda>\<sigma>. eval \<sigma> l = eval \<sigma> r"
        have v: "sound_visitor ?A (ExprReplaceVisitor r l)"
          by (rule replace_sound) (use eq e in \<open>auto simp: same_value_def denotes_def\<close>)
        have "wf_constraints cs1 \<and> (\<forall>\<sigma>. wf_env \<sigma> \<longrightarrow> ?A \<sigma> \<longrightarrow> (holds cs1 \<sigma> \<longleftrightarrow> holds cs \<sigma>))"
          using c1(1) rewriteConstraints_sound [OF Suc v assms cs] cs by (auto split: if_splits)
        then show ?thesis using c1(2) e eq by (auto split: if_splits)
      next
        case other
        then have "cs' = cs_insert e cs" using r by (simp only: option.inject)
        then show ?thesis using cs e by simp
      qed
    qed
  qed
qed (simp add: adds_def)

lemma addConstraint_sound:
  assumes "\<not> cm_cao cfg" "wf_constraints cs" "wt e" "getWidth e = 1" "addConstraint cfg e cs = Some cs'"
  shows "wf_constraints cs'" "wf_env \<sigma> \<Longrightarrow> holds cs' \<sigma> \<longleftrightarrow> holds cs \<sigma> \<and> eval \<sigma> e \<noteq> 0"
proof -
  obtain r where r: "simplifyExpr cfg cs e = Some r" "addConstraintInternal cfg (add_fuel cfg) r cs = Some cs'"
    using assms(5) by (auto simp: addConstraint_def split: bind_splits)
  have s: "same_value (holds cs) e r" by (rule simplifyExpr_sound [OF assms(2,3,1) r(1)])
  have w: "wt r" "getWidth r = 1" using same_value_wt [OF s] assms(4) by simp_all
  show "wf_constraints cs'" by (rule addsD(1) [OF addConstraintInternal_sound [OF assms(1)] assms(2) w r(2)])
  show "holds cs' \<sigma> \<longleftrightarrow> holds cs \<sigma> \<and> eval \<sigma> e \<noteq> 0" if "wf_env \<sigma>"
    using addsD(2) [OF addConstraintInternal_sound [OF assms(1)] assms(2) w r(2) that] s that
    by (auto simp: same_value_def denotes_def)
qed

section \<open>Constraints on new variables\<close>

primrec nodes :: "expr \<Rightarrow> expr set" where
  "nodes (ConstantExpr c) = {ConstantExpr c}"
| "nodes (NotOptimizedExpr e) = insert (NotOptimizedExpr e) (nodes e)"
| "nodes (ReadExpr a un i) = insert (ReadExpr a un i) (nodes i)"
| "nodes (SelectExpr c t f) = insert (SelectExpr c t f) (nodes c \<union> nodes t \<union> nodes f)"
| "nodes (ConcatExpr l r) = insert (ConcatExpr l r) (nodes l \<union> nodes r)"
| "nodes (ExtractExpr e off w) = insert (ExtractExpr e off w) (nodes e)"
| "nodes (ZExtExpr e w) = insert (ZExtExpr e w) (nodes e)"
| "nodes (SExtExpr e w) = insert (SExtExpr e w) (nodes e)"
| "nodes (NotExpr e) = insert (NotExpr e) (nodes e)"
| "nodes (BinaryExpr k l r) = insert (BinaryExpr k l r) (nodes l \<union> nodes r)"
| "nodes (CmpExpr k l r) = insert (CmpExpr k l r) (nodes l \<union> nodes r)"

primrec height :: "expr \<Rightarrow> nat" where
  "height (ConstantExpr c) = 0"
| "height (NotOptimizedExpr e) = Suc (height e)"
| "height (ReadExpr a un i) = Suc (height i)"
| "height (SelectExpr c t f) = Suc (max (height c) (max (height t) (height f)))"
| "height (ConcatExpr l r) = Suc (max (height l) (height r))"
| "height (ExtractExpr e off w) = Suc (height e)"
| "height (ZExtExpr e w) = Suc (height e)"
| "height (SExtExpr e w) = Suc (height e)"
| "height (NotExpr e) = Suc (height e)"
| "height (BinaryExpr k l r) = Suc (max (height l) (height r))"
| "height (CmpExpr k l r) = Suc (max (height l) (height r))"

lemma node_self: "e \<in> nodes e"
  by (cases e) simp_all

lemma kids_nodes: "k \<in> set (kids e) \<Longrightarrow> nodes k \<subseteq> nodes e \<and> height k < height e"
  by (cases e) auto

text \<open>A visitor that replaces nothing in an expression returns it.\<close>

definition inert :: "visitor \<Rightarrow> expr \<Rightarrow> bool" where
  "inert v e \<longleftrightarrow> (\<forall>d \<in> nodes e. isConstantExpr d \<or> visitExpr v d = DoChildren \<and> (\<forall>x. visitExprPost v d \<noteq> ChangeTo x))"

definition identity_visited :: "visited \<Rightarrow> bool" where
  "identity_visited vs \<longleftrightarrow> (\<forall>d r. map_of vs d = Some r \<longrightarrow> r = d)"

lemma visit_kids_inert:
  assumes "\<And>e vs. e \<in> set es \<Longrightarrow> identity_visited vs \<Longrightarrow> \<exists>vs'. rec e vs = Some (e, vs') \<and> identity_visited vs'"
    and "identity_visited vs"
  shows "\<exists>vs'. visit_kids rec es vs = Some (es, vs') \<and> identity_visited vs'"
proof -
  have "\<exists>vs'. foldM (\<lambda>kid (ks, vs). do { (k, vs) \<leftarrow> rec kid vs; Some (ks @ [k], vs) }) xs (ks, vs) = Some (ks @ xs, vs') \<and>
      identity_visited vs'" if "set xs \<subseteq> set es" "identity_visited vs" for xs ks vs
    using that
  proof (induction xs arbitrary: ks vs)
    case (Cons x xs)
    then obtain vs1 where 1: "rec x vs = Some (x, vs1)" "identity_visited vs1" using assms(1) [of x vs] by auto
    then show ?case using Cons.IH [of vs1 "ks @ [x]"] Cons.prems(1) by simp
  qed simp
  from this [of es vs "[]"] assms(2) show ?thesis by (simp add: visit_kids_def)
qed

lemma visit_inert:
  assumes "inert v e" "height e < n" "identity_visited vs"
  shows "\<exists>vs'. visit cao h v n e vs = Some (e, vs') \<and> identity_visited vs'"
  using assms
proof (induction n arbitrary: e vs)
  case (Suc n)
  have act: "\<exists>vs'. visitActual cao v (visit cao h v n) e vs = Some (e, vs') \<and> identity_visited vs'"
  proof (cases "isConstantExpr e")
    case True
    then show ?thesis using Suc.prems(3) by (simp add: visitActual_def)
  next
    case False
    then have e: "visitExpr v e = DoChildren" "\<And>x. visitExprPost v e \<noteq> ChangeTo x"
      using Suc.prems(1) node_self by (auto simp: inert_def)
    have kid: "\<exists>vs'. visit cao h v n k vs = Some (k, vs') \<and> identity_visited vs'"
      if "k \<in> set (kids e)" "identity_visited vs" for k vs
      by (rule Suc.IH) (use that kids_nodes [OF that(1)] Suc.prems(1,2) in \<open>auto simp: inert_def\<close>)
    have "\<exists>vs'. visit_kids (visit cao h v n) (kids e) vs = Some (kids e, vs') \<and> identity_visited vs'"
      by (rule visit_kids_inert [OF _ Suc.prems(3)]) (rule kid)
    then obtain vs1 where "visit_kids (visit cao h v n) (kids e) vs = Some (kids e, vs1)" "identity_visited vs1" by blast
    moreover have "post_visit v e = e" using e(2) by (simp add: post_visit_def split: Action.split)
    ultimately show ?thesis using False e(1) by (simp add: visitActual_def visit_rebuilt_def)
  qed
  show ?case
  proof (cases "\<not> h \<or> isConstantExpr e")
    case True
    then show ?thesis using act by simp
  next
    case False
    then show ?thesis using act Suc.prems(3) by (cases "map_of vs e") (auto simp: identity_visited_def)
  qed
qed simp

lemma equalities_keys: "map_of (equalities_of cs) d \<noteq> None \<Longrightarrow> \<exists>c \<in> set cs. d \<in> nodes c"
proof -
  have "fst ` set (fold add_equality xs m) \<subseteq> fst ` set m \<union> (\<Union>c \<in> set xs. nodes c)" for xs m
  proof (induction xs arbitrary: m)
    case (Cons x xs)
    have "fst ` set (add_equality x m) \<subseteq> fst ` set m \<union> nodes x"
      using node_self by (auto simp: add_equality_def eq_insert_def split: expr.splits cop.splits if_splits)
    then have "fst ` set (add_equality x m) \<union> (\<Union>c \<in> set xs. nodes c) \<subseteq> fst ` set m \<union> (\<Union>c \<in> set (x # xs). nodes c)"
      by (simp add: Un_assoc) blast
    from subset_trans [OF Cons this] show ?case by simp
  qed simp
  from this [of cs "[]"] show "map_of (equalities_of cs) d \<noteq> None \<Longrightarrow> \<exists>c \<in> set cs. d \<in> nodes c"
    by (auto simp: equalities_of_def map_of_eq_None_iff)
qed

lemma simplifyExpr_new:
  assumes "\<And>d c. d \<in> nodes e \<Longrightarrow> c \<in> set cs \<Longrightarrow> d \<in> nodes c \<Longrightarrow> isConstantExpr d" "height e < visit_fuel cfg e"
  shows "simplifyExpr cfg cs e = Some e"
proof (cases "isConstantExpr e")
  case False
  have "inert (ExprReplaceVisitor2 (equalities_of cs)) e"
    unfolding inert_def
  proof (intro ballI)
    fix d assume d: "d \<in> nodes e"
    show "isConstantExpr d \<or> visitExpr (ExprReplaceVisitor2 (equalities_of cs)) d = DoChildren \<and>
        (\<forall>x. visitExprPost (ExprReplaceVisitor2 (equalities_of cs)) d \<noteq> ChangeTo x)"
    proof (cases "map_of (equalities_of cs) d")
      case None
      then show ?thesis by (simp add: ExprReplaceVisitor2_def)
    next
      case (Some r)
      then show ?thesis using equalities_keys [of cs d] assms(1) [OF d] by blast
    qed
  qed
  from visit_inert [OF this assms(2), of "[]" "cm_cao cfg" "UseVisitorHash cfg"] False show ?thesis
    by (auto simp: simplifyExpr_def identity_visited_def)
qed (simp add: simplifyExpr_def)

end
