(* ===== verification/Solver_Correct.thy ===== *)
theory Solver_Correct
  imports Solver_Impl
begin

unbundle bit_operations_syntax

text \<open>
  The methods of \<^verbatim>\<open>Solver\<close> are correct for every implementation that keeps the contract of
  \<^verbatim>\<open>SolverImpl\<close>: the truth queries answer the documented formula, and \<^verbatim>\<open>getRange\<close> returns the
  smallest and the largest possible value of its expression.
\<close>

section \<open>Replies\<close>

lemma replies_simps [simp]:
  "replies (Some (Some x)) P = P x" "replies (Some None) P" "\<not> replies None P"
  by (simp_all add: replies_def)

lemma replies_mono: "replies r P \<Longrightarrow> (\<And>x. P x \<Longrightarrow> Q x) \<Longrightarrow> replies r Q"
  by (auto simp: replies_def ok_iff)

lemma replies_andThen: "replies r P \<Longrightarrow> (\<And>x. P x \<Longrightarrow> replies (f x) Q) \<Longrightarrow> replies (andThen r f) Q"
  by (auto simp: replies_def ok_iff andThen_def split: option.splits)

lemma replies_bind: "ok r P \<Longrightarrow> (\<And>x. P x \<Longrightarrow> replies (f x) Q) \<Longrightarrow> replies (r \<bind> f) Q"
  by (auto simp: ok_iff)

lemma must_succeed_simps [simp]:
  "must_succeed (Some (Some x)) = Some x" "must_succeed (Some None) = None" "must_succeed None = None"
  by (simp_all add: must_succeed_def)

lemma andThen_simps [simp]:
  "andThen (Some (Some x)) f = f x" "andThen (Some None) f = Some None" "andThen None f = None"
  by (simp_all add: andThen_def)

text \<open>A sound reply that is not a failure is the specified result.\<close>

lemma replies_exact: "replies r (\<lambda>x. x = v) \<Longrightarrow> r \<noteq> Some None \<Longrightarrow> r = Some (Some v)"
  by (cases r) (auto simp: replies_def)

section \<open>Queries\<close>

lemma query_simps [simp]:
  "fst (withExpr q e) = fst q" "snd (withExpr q e) = e"
  by (simp_all add: withExpr_def)

lemma wf_query_withExpr: "wf_query q \<Longrightarrow> wt e \<Longrightarrow> wf_query (withExpr q e)"
  by (simp add: wf_query_def)

lemma negateExpr_ok:
  assumes "wf_query q" "getWidth (snd q) = 1"
  shows "ok (negateExpr False q) (\<lambda>n. wf_query n \<and> fst n = fst q \<and> getWidth (snd n) = 1 \<and>
    (\<forall>\<sigma>. wf_env \<sigma> \<longrightarrow> eval \<sigma> (snd n) = of_bool (eval \<sigma> (snd q) = 0)))"
proof -
  have "denotes (\<lambda>_. True) (snd q) 1 (\<lambda>\<sigma>. eval \<sigma> (snd q))" using assms by (simp add: denotes_def wf_query_def)
  from createIsZero_ok [OF this, of False]
  have "ok (createIsZero False (snd q)) (\<lambda>e. denotes (\<lambda>_. True) e 1 (\<lambda>\<sigma>. of_bool (eval \<sigma> (snd q) = 0)))" by simp
  then show ?thesis unfolding negateExpr_def
    by (rule ok_bind) (use assms(1) in \<open>simp add: wf_query_def denotes_def\<close>)
qed

lemma valid_negated:
  assumes "fst n = fst q" "\<forall>\<sigma>. wf_env \<sigma> \<longrightarrow> eval \<sigma> (snd n) = of_bool (eval \<sigma> (snd q) = 0)"
  shows "valid n \<longleftrightarrow> refuted q" "refuted n \<longleftrightarrow> valid q"
  using assms by (auto simp: valid_def refuted_def)

lemma valid_refuted: "wf_query q \<Longrightarrow> valid q \<Longrightarrow> \<not> refuted q"
  by (auto simp: wf_query_def feasible_def valid_def refuted_def)

lemma const_query:
  assumes "wf_query (cs, ConstantExpr c)" "bitWidth c = 1"
  shows "valid (cs, ConstantExpr c) \<longleftrightarrow> ConstantExpr_isTrue c" "refuted (cs, ConstantExpr c) \<longleftrightarrow> \<not> ConstantExpr_isTrue c"
    "validity_of (cs, ConstantExpr c) = (if ConstantExpr_isTrue c then VTrue else VFalse)"
proof -
  obtain \<sigma> where "wf_env \<sigma>" "holds cs \<sigma>" using assms(1) by (auto simp: wf_query_def feasible_def)
  then show v: "valid (cs, ConstantExpr c) \<longleftrightarrow> ConstantExpr_isTrue c"
    and r: "refuted (cs, ConstantExpr c) \<longleftrightarrow> \<not> ConstantExpr_isTrue c"
    using assms(2) by (auto simp: valid_def refuted_def ConstantExpr_isTrue_def)
  show "validity_of (cs, ConstantExpr c) = (if ConstantExpr_isTrue c then VTrue else VFalse)"
    by (simp add: validity_of_def v r)
qed

lemma isConstantExpr_as_const: "isConstantExpr e \<longleftrightarrow> as_const e \<noteq> None"
  by (simp add: as_const_def isConstantExpr_def split: expr.split)

section \<open>Binary search\<close>

declare bsearch.simps [simp del]

lemma bsearch_ok:
  assumes "lo \<le> hi" "\<And>m. lo \<le> m \<Longrightarrow> m < hi \<Longrightarrow> test m = Some (P m)"
    and "\<And>m n. m \<le> n \<Longrightarrow> P m \<Longrightarrow> P n"
  shows "ok (bsearch test lo hi) (\<lambda>r. lo \<le> r \<and> r \<le> hi \<and> (\<forall>m. lo \<le> m \<longrightarrow> m < r \<longrightarrow> \<not> P m) \<and> (r < hi \<longrightarrow> P r))"
  using assms
proof (induction test lo hi rule: bsearch.induct)
  case (1 test lo hi)
  show ?case
  proof (cases "lo < hi")
    case True
    define mid where "mid = lo + (hi - lo) div 2"
    have mid: "lo \<le> mid" "mid < hi" using True by (auto simp: mid_def)
    then have t: "test mid = Some (P mid)" using "1.prems"(2) by simp
    show ?thesis
    proof (cases "P mid")
      case p: True
      have "ok (bsearch test lo mid) (\<lambda>r. lo \<le> r \<and> r \<le> mid \<and> (\<forall>m. lo \<le> m \<longrightarrow> m < r \<longrightarrow> \<not> P m) \<and> (r < mid \<longrightarrow> P r))"
        by (rule "1.IH"(1)) (use True mid t p "1.prems" in \<open>auto simp: mid_def\<close>)
      then show ?thesis using True t p mid
        by (subst bsearch.simps) (auto simp: mid_def [symmetric] Let_def elim!: ok_mono)
    next
      case p: False
      have "ok (bsearch test (mid + 1) hi)
          (\<lambda>r. mid + 1 \<le> r \<and> r \<le> hi \<and> (\<forall>m. mid + 1 \<le> m \<longrightarrow> m < r \<longrightarrow> \<not> P m) \<and> (r < hi \<longrightarrow> P r))"
        by (rule "1.IH"(2)) (use True mid t p "1.prems" in \<open>auto simp: mid_def\<close>)
      then have "ok (bsearch test (mid + 1) hi)
          (\<lambda>r. lo \<le> r \<and> r \<le> hi \<and> (\<forall>m. lo \<le> m \<longrightarrow> m < r \<longrightarrow> \<not> P m) \<and> (r < hi \<longrightarrow> P r))"
      proof (rule ok_mono)
        fix r
        assume r: "mid + 1 \<le> r \<and> r \<le> hi \<and> (\<forall>m. mid + 1 \<le> m \<longrightarrow> m < r \<longrightarrow> \<not> P m) \<and> (r < hi \<longrightarrow> P r)"
        have "\<not> P m" if "m < r" for m
        proof (cases "m \<le> mid")
          case True
          then show ?thesis using "1.prems"(3) [of m mid] p by blast
        next
          case False
          then show ?thesis using r that by simp
        qed
        then show "lo \<le> r \<and> r \<le> hi \<and> (\<forall>m. lo \<le> m \<longrightarrow> m < r \<longrightarrow> \<not> P m) \<and> (r < hi \<longrightarrow> P r)"
          using r mid by simp
      qed
      then show ?thesis using True t p
        by (subst bsearch.simps) (simp add: mid_def [symmetric] Let_def)
    qed
  next
    case False
    then show ?thesis using "1.prems"(1) by (subst bsearch.simps) simp
  qed
qed

lemma const_of_ok:
  assumes "v < 2 ^ w" "0 < w" "w \<le> 64"
  shows "const_of v w = Some (ConstantExpr (APInt w (int v)))"
proof -
  have "v < 2 ^ 64" using assms(1,3) power_increasing [of w 64 "2::nat"] by simp
  then have u: "uint (of_nat v :: u64) = int v" by (simp add: uint_word_of_int take_bit_nat_eq_self unsigned_of_nat)
  have "take_bit w (int v) = int v" using assms(1) by (simp add: take_bit_int_eq_self)
  then show ?thesis using assms(2) by (simp add: const_of_def ConstantExpr_create_def ConstantExpr_alloc_def u ap_mk_def)
qed

lemma const_denotes: "v < 2 ^ w \<Longrightarrow> 0 < w \<Longrightarrow> denotes A (ConstantExpr (APInt w (int v))) w (\<lambda>_. int v)"
  by (simp add: in_width_def)

section \<open>The methods of Solver\<close>

context sound_solver
begin

lemma mustBeTrue_sound:
  assumes "wf_query q" "getWidth (snd q) = 1"
  shows "replies (Solver_mustBeTrue I q) (\<lambda>b. b = valid q)"
proof (cases "as_const (snd q)")
  case None
  then show ?thesis using truth [of q] assms by (simp add: Solver_mustBeTrue_def bool_query_def isConstantExpr_as_const)
next
  case (Some c)
  then show ?thesis using const_query(1) [of "fst q" c] assms by (cases q) (auto simp: Solver_mustBeTrue_def)
qed

lemma evaluate_sound:
  assumes "wf_query q" "getWidth (snd q) = 1"
  shows "replies (Solver_evaluate I q) (\<lambda>v. v = validity_of q)"
proof (cases "as_const (snd q)")
  case None
  then show ?thesis using validity [of q] assms by (simp add: Solver_evaluate_def bool_query_def isConstantExpr_as_const)
next
  case (Some c)
  then show ?thesis using const_query(3) [of "fst q" c] assms by (cases q) (auto simp: Solver_evaluate_def)
qed

lemma mustBeFalse_sound:
  assumes "wf_query q" "getWidth (snd q) = 1"
  shows "replies (Solver_mustBeFalse False I q) (\<lambda>b. b = refuted q)"
  unfolding Solver_mustBeFalse_def
proof (rule replies_bind [OF negateExpr_ok [OF assms]])
  fix n
  assume n: "wf_query n \<and> fst n = fst q \<and> getWidth (snd n) = 1 \<and>
    (\<forall>\<sigma>. wf_env \<sigma> \<longrightarrow> eval \<sigma> (snd n) = of_bool (eval \<sigma> (snd q) = 0))"
  then have "valid n = refuted q" using valid_negated(1) [of n q] by blast
  then show "replies (Solver_mustBeTrue I n) (\<lambda>b. b = refuted q)" using mustBeTrue_sound [of n] n by simp
qed

lemma mayBe_sound:
  assumes "wf_query q" "getWidth (snd q) = 1"
  shows "replies (Solver_mayBeTrue False I q) (\<lambda>b. b = (\<not> refuted q))"
    and "replies (Solver_mayBeFalse I q) (\<lambda>b. b = (\<not> valid q))"
  unfolding Solver_mayBeTrue_def Solver_mayBeFalse_def
  by (rule replies_andThen [OF mustBeFalse_sound [OF assms]], simp)
    (rule replies_andThen [OF mustBeTrue_sound [OF assms]], simp)

lemma getValue_sound:
  assumes "wf_query q"
  shows "replies (Solver_getValue I q) (\<lambda>c. wf_ap c \<and> bitWidth c = getWidth (snd q) \<and> possible_value q (apval c))"
proof (cases "as_const (snd q)")
  case None
  then show ?thesis
    using value_of [of q] assms by (auto simp: Solver_getValue_def isConstantExpr_as_const elim!: replies_andThen)
next
  case (Some c)
  moreover obtain \<sigma> where "wf_env \<sigma>" "holds (fst q) \<sigma>" using assms by (auto simp: wf_query_def feasible_def)
  ultimately show ?thesis using assms by (auto simp: Solver_getValue_def wf_query_def possible_value_def)
qed

lemma getInitialValues_sound:
  assumes "wf_query q" "getWidth (snd q) = 1"
  shows "replies (Solver_getInitialValues I q objects) (\<lambda>values. counterexample q objects values)"
  unfolding Solver_getInitialValues_def
  by (rule replies_andThen [OF initial [OF assms]]) (auto simp: replies_def)

end

context complete_solver
begin

lemma mustBeTrue_exact:
  assumes "wf_query q" "getWidth (snd q) = 1"
  shows "Solver_mustBeTrue I q = Some (Some (valid q))"
proof (rule replies_exact [OF mustBeTrue_sound [OF assms]])
  show "Solver_mustBeTrue I q \<noteq> Some None"
    using truth_answered [of q] assms
    by (cases "as_const (snd q)") (auto simp: Solver_mustBeTrue_def bool_query_def isConstantExpr_as_const)
qed

lemma evaluate_exact:
  assumes "wf_query q" "getWidth (snd q) = 1"
  shows "Solver_evaluate I q = Some (Some (validity_of q))"
proof (rule replies_exact [OF evaluate_sound [OF assms]])
  show "Solver_evaluate I q \<noteq> Some None"
    using validity_answered [of q] assms
    by (cases "as_const (snd q)") (auto simp: Solver_evaluate_def bool_query_def isConstantExpr_as_const)
qed

lemma mustBeFalse_exact:
  assumes "wf_query q" "getWidth (snd q) = 1"
  shows "Solver_mustBeFalse False I q = Some (Some (refuted q))"
proof -
  obtain n where n: "negateExpr False q = Some n" "wf_query n" "fst n = fst q" "getWidth (snd n) = 1"
    "\<forall>\<sigma>. wf_env \<sigma> \<longrightarrow> eval \<sigma> (snd n) = of_bool (eval \<sigma> (snd q) = 0)"
    using negateExpr_ok [OF assms] by (auto simp: ok_iff)
  then show ?thesis using mustBeTrue_exact [OF n(2,4)] valid_negated(1) [OF n(3,5)] by (simp add: Solver_mustBeFalse_def)
qed

lemma mayBeTrue_exact:
  assumes "wf_query q" "getWidth (snd q) = 1"
  shows "Solver_mayBeTrue False I q = Some (Some (\<not> refuted q))"
  using mustBeFalse_exact [OF assms] by (simp add: Solver_mayBeTrue_def)

lemma mayBeFalse_exact:
  assumes "wf_query q" "getWidth (snd q) = 1"
  shows "Solver_mayBeFalse I q = Some (Some (\<not> valid q))"
  using mustBeTrue_exact [OF assms] by (simp add: Solver_mayBeFalse_def)

end

section \<open>Ranges\<close>

lemma not_valid_iff: "\<not> valid q \<longleftrightarrow> (\<exists>\<sigma>. wf_env \<sigma> \<and> holds (fst q) \<sigma> \<and> eval \<sigma> (snd q) = 0)"
  by (auto simp: valid_def)

lemma drop_bit_zero_iff: "0 \<le> v \<Longrightarrow> drop_bit n v = 0 \<longleftrightarrow> v < 2 ^ n" for v :: int
  using zero_less_power [of "2::int" n] by (auto simp: drop_bit_eq_div zdiv_eq_0_iff simp del: zero_less_power)

lemma unat_mask64: "b \<le> 64 \<Longrightarrow> unat (mask b :: u64) = 2 ^ b - 1"
proof -
  assume "b \<le> 64"
  moreover have "(mask b :: u64) = of_nat (mask b)" by (simp add: of_nat_mask_eq)
  ultimately show ?thesis by (simp add: unsigned_of_nat min_def) (simp add: mask_eq_exp_minus_1)
qed

text \<open>The smallest and the largest possible value.\<close>

definition least_greatest :: "query \<Rightarrow> nat \<times> nat \<Rightarrow> bool" where
  "least_greatest q r \<longleftrightarrow> possible_value q (int (fst r)) \<and> possible_value q (int (snd r)) \<and>
     (\<forall>v. possible_value q v \<longrightarrow> int (fst r) \<le> v \<and> v \<le> int (snd r))"

lemma possible_value_width:
  assumes "wf_query q" "possible_value q v"
  shows "0 \<le> v" "v < 2 ^ getWidth (snd q)"
  using assms eval_in_width(1) [of "snd q"] by (auto simp: possible_value_def wf_query_def in_width_def)

context complete_solver
begin

lemma shifts_to_zero_exact:
  assumes "wf_query q" "getWidth (snd q) \<le> 64" "m < getWidth (snd q)"
  shows "shifts_to_zero False I q m = Some (\<forall>v. possible_value q v \<longrightarrow> v < 2 ^ m)"
proof -
  let ?w = "getWidth (snd q)"
  have m: "m < 2 ^ ?w" using assms(3) less_exp less_trans by blast
  have e: "denotes (\<lambda>_. True) (snd q) ?w (\<lambda>\<sigma>. eval \<sigma> (snd q))" using assms(1) by (simp add: denotes_def wf_query_def)
  have w: "0 < ?w" using assms(3) by simp
  obtain s where s: "LShrExpr_create False (snd q) (ConstantExpr (APInt ?w (int m))) = Some s"
    "denotes (\<lambda>_. True) s ?w (\<lambda>\<sigma>. bop_sem LShr ?w (eval \<sigma> (snd q)) (int m))"
    using LShrExpr_create_ok [OF e const_denotes [OF m w]] by (auto simp: ok_iff)
  obtain z where z: "EqExpr_create False s (ConstantExpr (APInt ?w 0)) = Some z"
    "denotes (\<lambda>_. True) z 1 (\<lambda>\<sigma>. of_bool (bop_sem LShr ?w (eval \<sigma> (snd q)) (int m) = 0))"
    using EqExpr_create_ok [OF s(2), of "ConstantExpr (APInt ?w 0)" "\<lambda>_. 0" False] w by (auto simp: ok_iff)
  have wf: "wf_query (withExpr q z)" "getWidth z = 1" using z(2) assms(1) by (simp_all add: wf_query_withExpr denotes_def)
  have "eval \<sigma> z \<noteq> 0 \<longleftrightarrow> eval \<sigma> (snd q) < 2 ^ m" if "wf_env \<sigma>" for \<sigma>
  proof -
    have i: "in_width ?w (eval \<sigma> (snd q))" using eval_in_width(1) [OF denotesD(1) [OF e] that] .
    then have "in_width ?w (drop_bit m (eval \<sigma> (snd q)))" by (simp add: drop_bit_eq_div in_width_div)
    then show ?thesis using i z(2) that by (simp add: denotes_def drop_bit_zero_iff in_width_def)
  qed
  then have "valid (withExpr q z) \<longleftrightarrow> (\<forall>v. possible_value q v \<longrightarrow> v < 2 ^ m)"
    by (auto simp: valid_def possible_value_def)
  then show ?thesis
    using mustBeTrue_exact [of "withExpr q z"] wf s(1) z(1) const_of_ok [OF m w assms(2)] const_of_ok [of 0 ?w] w assms(2)
    by (simp add: shifts_to_zero_def Let_def)
qed

lemma at_most_exact:
  assumes "wf_query q" "getWidth (snd q) \<le> 64" "m < 2 ^ getWidth (snd q)"
  shows "may_be_at_most False I q m = Some (\<exists>v. possible_value q v \<and> v \<le> int m)"
    and "must_be_at_most False I q m = Some (\<forall>v. possible_value q v \<longrightarrow> v \<le> int m)"
proof -
  let ?w = "getWidth (snd q)"
  have e: "denotes (\<lambda>_. True) (snd q) ?w (\<lambda>\<sigma>. eval \<sigma> (snd q))" using assms(1) by (simp add: denotes_def wf_query_def)
  have w: "0 < ?w" by (rule denotesD(4) [OF e])
  obtain z where z: "UleExpr_create False (snd q) (ConstantExpr (APInt ?w (int m))) = Some z"
    "denotes (\<lambda>_. True) z 1 (\<lambda>\<sigma>. of_bool (eval \<sigma> (snd q) \<le> int m))"
    using UleExpr_create_ok [OF e const_denotes [OF assms(3) w]] by (auto simp: ok_iff)
  have wf: "wf_query (withExpr q z)" "getWidth z = 1" using z(2) assms(1) by (simp_all add: wf_query_withExpr denotes_def)
  have ev: "eval \<sigma> z = of_bool (eval \<sigma> (snd q) \<le> int m)" if "wf_env \<sigma>" for \<sigma> using z(2) that by (simp add: denotes_def)
  have "\<not> refuted (withExpr q z) \<longleftrightarrow> (\<exists>v. possible_value q v \<and> v \<le> int m)"
    using ev by (auto simp: refuted_def possible_value_def)
  then show "may_be_at_most False I q m = Some (\<exists>v. possible_value q v \<and> v \<le> int m)"
    using mayBeTrue_exact [of "withExpr q z"] wf z(1) const_of_ok [OF assms(3) w assms(2)]
    by (simp add: may_be_at_most_def Let_def)
  have "valid (withExpr q z) \<longleftrightarrow> (\<forall>v. possible_value q v \<longrightarrow> v \<le> int m)"
    using ev by (auto simp: valid_def possible_value_def)
  then show "must_be_at_most False I q m = Some (\<forall>v. possible_value q v \<longrightarrow> v \<le> int m)"
    using mustBeTrue_exact [of "withExpr q z"] wf z(1) const_of_ok [OF assms(3) w assms(2)]
    by (simp add: must_be_at_most_def Let_def)
qed

lemma may_be_zero_exact:
  assumes "wf_query q" "getWidth (snd q) \<le> 64"
  shows "may_be_zero False I q = Some (possible_value q 0)"
proof -
  let ?w = "getWidth (snd q)"
  have e: "denotes (\<lambda>_. True) (snd q) ?w (\<lambda>\<sigma>. eval \<sigma> (snd q))" using assms(1) by (simp add: denotes_def wf_query_def)
  have w: "0 < ?w" by (rule denotesD(4) [OF e])
  obtain z where z: "EqExpr_create False (snd q) (ConstantExpr (APInt ?w 0)) = Some z"
    "denotes (\<lambda>_. True) z 1 (\<lambda>\<sigma>. of_bool (eval \<sigma> (snd q) = 0))"
    using EqExpr_create_ok [OF e, of "ConstantExpr (APInt ?w 0)" "\<lambda>_. 0" False] w by (auto simp: ok_iff)
  have wf: "wf_query (withExpr q z)" "getWidth z = 1" using z(2) assms(1) by (simp_all add: wf_query_withExpr denotes_def)
  have "\<not> refuted (withExpr q z) \<longleftrightarrow> possible_value q 0"
    using z(2) by (auto simp: refuted_def possible_value_def denotes_def)
  then show ?thesis
    using mayBeTrue_exact [of "withExpr q z"] wf z(1) const_of_ok [of 0 ?w] w assms(2)
    by (simp add: may_be_zero_def Let_def)
qed

lemma search_min:
  assumes q: "wf_query q" "getWidth (snd q) \<le> 64" and b: "b \<le> getWidth (snd q)" "\<forall>v. possible_value q v \<longrightarrow> v < 2 ^ b"
    and nz: "\<not> possible_value q 0"
  shows "ok (bsearch (may_be_at_most False I q) 0 (2 ^ b - 1))
    (\<lambda>r. possible_value q (int r) \<and> (\<forall>v. possible_value q v \<longrightarrow> int r \<le> v) \<and> r \<le> 2 ^ b - 1)"
proof -
  have le: "(2::nat) ^ b \<le> 2 ^ getWidth (snd q)" using b(1) by (simp add: power_increasing)
  have "ok (bsearch (may_be_at_most False I q) 0 (2 ^ b - 1)) (\<lambda>r. 0 \<le> r \<and> r \<le> 2 ^ b - 1 \<and>
      (\<forall>m. 0 \<le> m \<longrightarrow> m < r \<longrightarrow> \<not> (\<exists>v. possible_value q v \<and> v \<le> int m)) \<and>
      (r < 2 ^ b - 1 \<longrightarrow> (\<exists>v. possible_value q v \<and> v \<le> int r)))"
  proof (rule bsearch_ok)
    fix m :: nat assume "m < 2 ^ b - 1"
    then have "m < 2 ^ getWidth (snd q)" using le by linarith
    then show "may_be_at_most False I q m = Some (\<exists>v. possible_value q v \<and> v \<le> int m)"
      by (rule at_most_exact(1) [OF q])
  next
    fix m n :: nat assume "m \<le> n" "\<exists>v. possible_value q v \<and> v \<le> int m"
    then show "\<exists>v. possible_value q v \<and> v \<le> int n" by (meson of_nat_le_iff order_trans)
  qed simp
  then show ?thesis
  proof (rule ok_mono, elim conjE)
    fix r assume r: "r \<le> 2 ^ b - 1" and least: "\<forall>m. 0 \<le> m \<longrightarrow> m < r \<longrightarrow> \<not> (\<exists>v. possible_value q v \<and> v \<le> int m)"
      and here: "r < 2 ^ b - 1 \<longrightarrow> (\<exists>v. possible_value q v \<and> v \<le> int r)"
    obtain \<sigma> where "wf_env \<sigma>" "holds (fst q) \<sigma>" using q(1) by (auto simp: wf_query_def feasible_def)
    then have ex: "possible_value q (eval \<sigma> (snd q))" by (auto simp: possible_value_def)
    have "\<exists>v. possible_value q v \<and> v \<le> int r"
    proof (cases "r = 2 ^ b - 1")
      case True
      then have "int r = 2 ^ b - 1" by (simp add: of_nat_diff)
      then show ?thesis using ex b(2) by force
    qed (use r here in simp)
    then obtain v where v: "possible_value q v" "v \<le> int r" by blast
    have lower: "int r \<le> u" if "possible_value q u" for u
      using least that possible_value_width(1) [OF q(1) that] by (metis int_nat_eq le0 linorder_not_le nat_less_iff order_refl)
    then have "v = int r" using v by force
    then show "possible_value q (int r) \<and> (\<forall>v. possible_value q v \<longrightarrow> int r \<le> v) \<and> r \<le> 2 ^ b - 1"
      using v lower r by blast
  qed
qed

lemma search_max:
  assumes q: "wf_query q" "getWidth (snd q) \<le> 64" and b: "b \<le> getWidth (snd q)" "\<forall>v. possible_value q v \<longrightarrow> v < 2 ^ b"
    and mn: "possible_value q (int mn)" "\<forall>v. possible_value q v \<longrightarrow> int mn \<le> v" "mn \<le> 2 ^ b - 1"
  shows "ok (bsearch (must_be_at_most False I q) mn (2 ^ b - 1)) (\<lambda>r. least_greatest q (mn, r) \<and> r \<le> 2 ^ b - 1)"
proof -
  have le: "(2::nat) ^ b \<le> 2 ^ getWidth (snd q)" using b(1) by (simp add: power_increasing)
  have "ok (bsearch (must_be_at_most False I q) mn (2 ^ b - 1)) (\<lambda>r. mn \<le> r \<and> r \<le> 2 ^ b - 1 \<and>
      (\<forall>m. mn \<le> m \<longrightarrow> m < r \<longrightarrow> \<not> (\<forall>v. possible_value q v \<longrightarrow> v \<le> int m)) \<and>
      (r < 2 ^ b - 1 \<longrightarrow> (\<forall>v. possible_value q v \<longrightarrow> v \<le> int r)))"
  proof (rule bsearch_ok)
    fix m :: nat assume "m < 2 ^ b - 1"
    then have "m < 2 ^ getWidth (snd q)" using le by linarith
    then show "must_be_at_most False I q m = Some (\<forall>v. possible_value q v \<longrightarrow> v \<le> int m)"
      by (rule at_most_exact(2) [OF q])
  qed (use mn(3) in force)+
  then show ?thesis
  proof (rule ok_mono, elim conjE)
    fix r assume r: "mn \<le> r" "r \<le> 2 ^ b - 1"
      and least: "\<forall>m. mn \<le> m \<longrightarrow> m < r \<longrightarrow> \<not> (\<forall>v. possible_value q v \<longrightarrow> v \<le> int m)"
      and here: "r < 2 ^ b - 1 \<longrightarrow> (\<forall>v. possible_value q v \<longrightarrow> v \<le> int r)"
    have upper: "u \<le> int r" if "possible_value q u" for u
    proof (cases "r = 2 ^ b - 1")
      case True
      then have "int r = 2 ^ b - 1" by (simp add: of_nat_diff)
      then show ?thesis using that b(2) by force
    qed (use r(2) here that in simp)
    have "possible_value q (int r)"
    proof (cases "r = mn")
      case False
      then have "\<exists>v. possible_value q v \<and> int (r - 1) < v" 
        using least r(1) by (metis linorder_not_le nat_less_le not_less_eq_eq Suc_pred' bot_nat_0.not_eq_extremum)
      then obtain v where v: "possible_value q v" "int (r - 1) < v" by blast
      then have "v = int r" using upper [OF v(1)] False r(1) by simp
      then show ?thesis using v by simp
    qed (use mn(1) in simp)
    then show "least_greatest q (mn, r) \<and> r \<le> 2 ^ b - 1" using mn(1,2) upper r by (simp add: least_greatest_def)
  qed
qed

lemma range_search_exact:
  assumes q: "wf_query q" "getWidth (snd q) \<le> 64"
  shows "ok (range_search False I q) (\<lambda>r. least_greatest q r \<and> snd r < 2 ^ getWidth (snd q))"
proof -
  let ?w = "getWidth (snd q)"
  have "ok (bsearch (shifts_to_zero False I q) 0 ?w) (\<lambda>b. 0 \<le> b \<and> b \<le> ?w \<and>
      (\<forall>m. 0 \<le> m \<longrightarrow> m < b \<longrightarrow> \<not> (\<forall>v. possible_value q v \<longrightarrow> v < 2 ^ m)) \<and> (b < ?w \<longrightarrow> (\<forall>v. possible_value q v \<longrightarrow> v < 2 ^ b)))"
  proof (rule bsearch_ok)
    fix m n :: nat assume "m \<le> n" "\<forall>v. possible_value q v \<longrightarrow> v < 2 ^ m"
    then show "\<forall>v. possible_value q v \<longrightarrow> v < 2 ^ n" by (meson order_less_le_trans one_le_numeral power_increasing)
  qed (use shifts_to_zero_exact [OF q] in auto)
  then obtain b where b: "bsearch (shifts_to_zero False I q) 0 ?w = Some b" "b \<le> ?w" "b < ?w \<longrightarrow> (\<forall>v. possible_value q v \<longrightarrow> v < 2 ^ b)"
    by (auto simp: ok_iff)
  have bound: "\<forall>v. possible_value q v \<longrightarrow> v < 2 ^ b"
    using b(2,3) possible_value_width(2) [OF q(1)] by (cases "b = ?w") auto
  have mx: "maxValueOfNBits64 b = Some (mask b)" "unat (mask b :: u64) = 2 ^ b - 1"
    using b(2) q(2) by (simp_all add: maxValueOfNBits64_mask unat_mask64)
  have "ok (if possible_value q 0 then Some 0 else bsearch (may_be_at_most False I q) 0 (2 ^ b - 1))
    (\<lambda>r. possible_value q (int r) \<and> (\<forall>v. possible_value q v \<longrightarrow> int r \<le> v) \<and> r \<le> 2 ^ b - 1)"
    using search_min [OF q b(2) bound] possible_value_width(1) [OF q(1)] by simp
  then have "ok (do { mn \<leftarrow> (if possible_value q 0 then Some 0 else bsearch (may_be_at_most False I q) 0 (2 ^ b - 1));
      hi \<leftarrow> bsearch (must_be_at_most False I q) mn (2 ^ b - 1); Some (mn, hi) })
    (\<lambda>r. least_greatest q r \<and> snd r < 2 ^ ?w)"
  proof (rule ok_bind, elim conjE)
    fix mn assume "possible_value q (int mn)" "\<forall>v. possible_value q v \<longrightarrow> int mn \<le> v" "mn \<le> 2 ^ b - 1"
    from search_max [OF q b(2) bound this]
    show "ok (do { hi \<leftarrow> bsearch (must_be_at_most False I q) mn (2 ^ b - 1); Some (mn, hi) }) (\<lambda>r. least_greatest q r \<and> snd r < 2 ^ ?w)"
    proof (rule ok_bind)
      fix r assume r: "least_greatest q (mn, r) \<and> r \<le> 2 ^ b - 1"
      moreover have "(2::nat) ^ b \<le> 2 ^ ?w" using b(2) by (simp add: power_increasing)
      moreover have "(0::nat) < 2 ^ b" by simp
      ultimately have "r < 2 ^ ?w" by linarith
      then show "ok (Some (mn, r)) (\<lambda>r. least_greatest q r \<and> snd r < 2 ^ ?w)" using r by simp
    qed
  qed
  then show ?thesis using b(1) may_be_zero_exact [OF q] mx by (simp add: range_search_def split: if_splits)
qed

lemma evaluate_range:
  assumes q: "wf_query q" "getWidth (snd q) = 1"
  shows "least_greatest q (case validity_of q of VTrue \<Rightarrow> (1, 1) | VFalse \<Rightarrow> (0, 0) | VUnknown \<Rightarrow> (0, 1))"
proof -
  obtain \<sigma> where \<sigma>: "wf_env \<sigma>" "holds (fst q) \<sigma>" using q(1) by (auto simp: wf_query_def feasible_def)
  have bool: "v = 0 \<or> v = 1" if "possible_value q v" for v using possible_value_width [OF q(1) that] q(2) by auto
  have ev: "possible_value q (eval \<sigma> (snd q))" using \<sigma> by (auto simp: possible_value_def)
  have v: "valid q \<longleftrightarrow> \<not> possible_value q 0" "refuted q \<longleftrightarrow> (\<forall>v. possible_value q v \<longrightarrow> v = 0)"
    by (auto simp: valid_def refuted_def possible_value_def)
  consider "valid q" | "\<not> valid q" "refuted q" | "\<not> valid q" "\<not> refuted q" by blast
  then show ?thesis
  proof cases
    case 1
    then have "\<forall>v. possible_value q v \<longrightarrow> v = 1" using bool v(1) by blast
    then show ?thesis using 1 ev by (auto simp: least_greatest_def validity_of_def)
  next
    case 2
    then have "\<forall>v. possible_value q v \<longrightarrow> v = 0" "possible_value q 0" using v by simp_all
    then show ?thesis using 2 by (auto simp: least_greatest_def validity_of_def)
  next
    case 3
    then have "possible_value q 0" "possible_value q 1" using v bool by (simp, metis)
    then show ?thesis using 3 by (auto simp: least_greatest_def validity_of_def dest!: bool)
  qed
qed

lemma const_range:
  assumes q: "wf_query q" "getWidth (snd q) \<le> 64" and c: "snd q = ConstantExpr c"
  shows "ConstantExpr_getZExtValue c 64 = Some (word_of_int (apval c))"
    "least_greatest q (unat (word_of_int (apval c) :: u64), unat (word_of_int (apval c) :: u64))"
proof -
  obtain \<sigma> where \<sigma>: "wf_env \<sigma>" "holds (fst q) \<sigma>" using q(1) by (auto simp: wf_query_def feasible_def)
  have wf: "in_width (bitWidth c) (apval c)" "bitWidth c \<le> 64" using q c by (simp_all add: wf_query_def wf_ap_def)
  then show "ConstantExpr_getZExtValue c 64 = Some (word_of_int (apval c))" by (simp add: ConstantExpr_getZExtValue_def)
  have "apval c < 2 ^ 64" using wf power_increasing [of "bitWidth c" 64 "2::int"] by (simp add: in_width_def)
  then have u: "int (unat (word_of_int (apval c) :: u64)) = apval c"
    using wf(1) by (simp add: in_width_def uint_word_of_int take_bit_int_eq_self flip: uint_nat)
  have "possible_value q v \<longleftrightarrow> v = apval c" for v using \<sigma> c by (auto simp: possible_value_def)
  then show "least_greatest q (unat (word_of_int (apval c) :: u64), unat (word_of_int (apval c) :: u64))"
    using u by (simp add: least_greatest_def)
qed

lemma least_greatest_const:
  assumes q: "wf_query q" "getWidth (snd q) \<le> 64" and r: "least_greatest q r"
  shows "const_of (fst r) (getWidth (snd q)) = Some (ConstantExpr (APInt (getWidth (snd q)) (int (fst r))))"
    "const_of (snd r) (getWidth (snd q)) = Some (ConstantExpr (APInt (getWidth (snd q)) (int (snd r))))"
proof -
  have w: "0 < getWidth (snd q)" using q(1) wt_width_pos by (auto simp: wf_query_def)
  have "fst r < 2 ^ getWidth (snd q)" "snd r < 2 ^ getWidth (snd q)"
    using r possible_value_width(2) [OF q(1), of "int (fst r)"] possible_value_width(2) [OF q(1), of "int (snd r)"]
    by (simp_all add: least_greatest_def)
  then show "const_of (fst r) (getWidth (snd q)) = Some (ConstantExpr (APInt (getWidth (snd q)) (int (fst r))))"
    "const_of (snd r) (getWidth (snd q)) = Some (ConstantExpr (APInt (getWidth (snd q)) (int (snd r))))"
    using const_of_ok [OF _ w q(2)] by blast+
qed

lemma getRange_exact:
  assumes q: "wf_query q" "getWidth (snd q) \<le> 64"
  shows "\<exists>mn mx. least_greatest q (mn, mx) \<and> Solver_getRange False I q =
    Some (ConstantExpr (APInt (getWidth (snd q)) (int mn)), ConstantExpr (APInt (getWidth (snd q)) (int mx)))"
proof -
  have "\<exists>r. least_greatest q r \<and> Solver_getRange False I q =
      do { lo \<leftarrow> const_of (fst r) (getWidth (snd q)); hi \<leftarrow> const_of (snd r) (getWidth (snd q)); Some (lo, hi) }"
  proof (cases "getWidth (snd q) = 1")
    case True
    then show ?thesis using evaluate_range [OF q(1)] evaluate_exact [OF q(1)]
      by (intro exI [of _ "case validity_of q of VTrue \<Rightarrow> (1, 1) | VFalse \<Rightarrow> (0, 0) | VUnknown \<Rightarrow> (0, 1)"])
        (simp add: Solver_getRange_def Let_def case_prod_beta)
  next
    case w: False
    show ?thesis
    proof (cases "as_const (snd q)")
      case None
      obtain r where "range_search False I q = Some r" "least_greatest q r"
        using range_search_exact [OF q] by (auto simp: ok_iff)
      then show ?thesis using w None by (intro exI [of _ r]) (simp add: Solver_getRange_def Let_def case_prod_beta)
    next
      case (Some c)
      then have c: "snd q = ConstantExpr c" by simp
      show ?thesis using w c const_range [OF q c]
        by (intro exI [of _ "(unat (word_of_int (apval c) :: u64), unat (word_of_int (apval c) :: u64))"])
          (simp add: Solver_getRange_def Let_def)
    qed
  qed
  then show ?thesis using least_greatest_const [OF q] by (metis Option.bind_lunit prod.collapse)
qed

end

end
