(* ===== verification/Solver_Chain.thy ===== *)
theory Solver_Chain
  imports Solver_Correct
begin

text \<open>
  Solvers built from other solvers: an incomplete solver staged before a complete one
  (\<^verbatim>\<open>lib/Solver/IncompleteSolver.cpp\<close>), the cache of query results (\<^verbatim>\<open>lib/Solver/CachingSolver.cpp\<close>)
  and the solver that checks another one against an oracle (\<^verbatim>\<open>lib/Solver/ValidatingSolver.cpp\<close>).
  Each keeps the contract of \<^verbatim>\<open>SolverImpl\<close> if its parts do.
\<close>

section \<open>Incomplete solvers\<close>

datatype PartialValidity = MustBeTrue | MustBeFalse | MayBeTrue | MayBeFalse | TrueOrFalse | NoneKnown

definition negatePartialValidity :: "PartialValidity \<Rightarrow> PartialValidity option" where
  "negatePartialValidity pv = (case pv of
     MustBeTrue \<Rightarrow> Some MustBeFalse
   | MustBeFalse \<Rightarrow> Some MustBeTrue
   | MayBeTrue \<Rightarrow> Some MayBeFalse
   | MayBeFalse \<Rightarrow> Some MayBeTrue
   | TrueOrFalse \<Rightarrow> Some TrueOrFalse
   | NoneKnown \<Rightarrow> None)"

definition IncompleteSolver_computeValidity ::
  "bool \<Rightarrow> (query \<Rightarrow> PartialValidity option) \<Rightarrow> query \<Rightarrow> PartialValidity option" where
  "IncompleteSolver_computeValidity cao truth query = do {
     trueResult \<leftarrow> truth query;
     (if trueResult = MustBeTrue then Some MustBeTrue
      else do {
        q \<leftarrow> negateExpr cao query;
        falseResult \<leftarrow> truth q;
        Some (if falseResult = MustBeTrue then MustBeFalse
          else
            (let trueCorrect = (trueResult \<noteq> NoneKnown); falseCorrect = (falseResult \<noteq> NoneKnown)
             in if trueCorrect \<and> falseCorrect then TrueOrFalse
                else if trueCorrect then MayBeFalse
                else if falseCorrect then MayBeTrue
                else NoneKnown))
      })
   }"

text \<open>The abstract class \<^verbatim>\<open>IncompleteSolver\<close>: its virtual methods.\<close>

record incomplete =
  inc_computeTruth :: "query \<Rightarrow> PartialValidity option"
  inc_computeValidity :: "query \<Rightarrow> PartialValidity option"
  inc_computeValue :: "query \<Rightarrow> expr reply"
  inc_computeInitialValues :: "query \<Rightarrow> array list \<Rightarrow> (u8 list list \<times> bool) reply"

text \<open>\<^verbatim>\<open>if (call) return true; return other;\<close>\<close>

definition orElse :: "'a reply \<Rightarrow> 'a reply \<Rightarrow> 'a reply" where
  "orElse r s = (case r of None \<Rightarrow> None | Some None \<Rightarrow> s | Some (Some x) \<Rightarrow> Some (Some x))"

definition Staged_computeTruth :: "incomplete \<Rightarrow> impl \<Rightarrow> query \<Rightarrow> bool reply" where
  "Staged_computeTruth primary secondary query = do {
     trueResult \<leftarrow> inc_computeTruth primary query;
     (if trueResult \<noteq> NoneKnown then Some (Some (trueResult = MustBeTrue))
      else computeTruth secondary query)
   }"

definition Staged_computeValidity :: "bool \<Rightarrow> incomplete \<Rightarrow> impl \<Rightarrow> query \<Rightarrow> Validity reply" where
  "Staged_computeValidity cao primary secondary query = do {
     pv \<leftarrow> inc_computeValidity primary query;
     (case pv of
        MustBeTrue \<Rightarrow> Some (Some VTrue)
      | MustBeFalse \<Rightarrow> Some (Some VFalse)
      | TrueOrFalse \<Rightarrow> Some (Some VUnknown)
      | MayBeTrue \<Rightarrow> andThen (computeTruth secondary query) (\<lambda>tmp. Some (Some (if tmp then VTrue else VUnknown)))
      | MayBeFalse \<Rightarrow> do {
          q \<leftarrow> negateExpr cao query;
          andThen (computeTruth secondary q) (\<lambda>tmp. Some (Some (if tmp then VFalse else VUnknown)))
        }
      | NoneKnown \<Rightarrow> computeValidity secondary query)
   }"

definition StagedSolverImpl :: "bool \<Rightarrow> incomplete \<Rightarrow> impl \<Rightarrow> impl" where
  "StagedSolverImpl cao primary secondary =
     \<lparr>computeTruth = Staged_computeTruth primary secondary,
      computeValidity = Staged_computeValidity cao primary secondary,
      computeValue = (\<lambda>q. orElse (inc_computeValue primary q) (computeValue secondary q)),
      computeInitialValues = (\<lambda>q objects. orElse (inc_computeInitialValues primary q objects)
        (computeInitialValues secondary q objects))\<rparr>"

section \<open>Caching\<close>

type_synonym cache = "(query \<times> PartialValidity) list"

text \<open>
  The constraints of a query are a set in the source and two entries are equal if their constraint
  sets and their expressions are.
\<close>

definition entry_eq :: "query \<Rightarrow> query \<Rightarrow> bool" where
  "entry_eq a b \<longleftrightarrow> set (fst a) = set (fst b) \<and> snd a = snd b"

definition cache_find :: "query \<Rightarrow> cache \<Rightarrow> PartialValidity option" where
  "cache_find k c = map_option snd (find (\<lambda>e. entry_eq (fst e) k) c)"

definition canonicalizeQuery :: "(apint \<Rightarrow> u32) \<Rightarrow> bool \<Rightarrow> expr \<Rightarrow> (expr \<times> bool) option" where
  "canonicalizeQuery hv cao originalQuery = do {
     negatedQuery \<leftarrow> createIsZero cao originalQuery;
     Some (if Expr_compare hv originalQuery negatedQuery < 0 then (originalQuery, False) else (negatedQuery, True))
   }"

definition cacheLookup :: "(apint \<Rightarrow> u32) \<Rightarrow> bool \<Rightarrow> cache \<Rightarrow> query \<Rightarrow> PartialValidity reply" where
  "cacheLookup hv cao c query = do {
     (canonicalQuery, negationUsed) \<leftarrow> canonicalizeQuery hv cao (snd query);
     (case cache_find (withExpr query canonicalQuery) c of
        Some pv \<Rightarrow> map_option Some (if negationUsed then negatePartialValidity pv else Some pv)
      | None \<Rightarrow> Some None)
   }"

text \<open>The \<^verbatim>\<open>insert\<close> of a C++ map keeps an existing entry.\<close>

definition cacheInsert :: "(apint \<Rightarrow> u32) \<Rightarrow> bool \<Rightarrow> query \<Rightarrow> PartialValidity \<Rightarrow> cache \<Rightarrow> cache option" where
  "cacheInsert hv cao query result c = do {
     (canonicalQuery, negationUsed) \<leftarrow> canonicalizeQuery hv cao (snd query);
     cachedResult \<leftarrow> (if negationUsed then negatePartialValidity result else Some result);
     let ce = withExpr query canonicalQuery;
     Some (if cache_find ce c = None then (ce, cachedResult) # c else c)
   }"

text \<open>The state of a caching solver: its cache and the two counters of hits and misses.\<close>

record caching =
  cache_map :: cache
  queryCacheHits :: nat
  queryCacheMisses :: nat

definition hit :: "caching \<Rightarrow> caching" where
  "hit s = s\<lparr>queryCacheHits := Suc (queryCacheHits s)\<rparr>"

definition miss :: "caching \<Rightarrow> caching" where
  "miss s = s\<lparr>queryCacheMisses := Suc (queryCacheMisses s)\<rparr>"

definition insert_result ::
  "(apint \<Rightarrow> u32) \<Rightarrow> bool \<Rightarrow> query \<Rightarrow> PartialValidity \<Rightarrow> 'a \<Rightarrow> caching \<Rightarrow> ('a option \<times> caching) option" where
  "insert_result hv cao query pv result s = do {
     c \<leftarrow> cacheInsert hv cao query pv (cache_map s);
     Some (Some result, s\<lparr>cache_map := c\<rparr>)
   }"

definition Caching_computeValidity ::
  "(apint \<Rightarrow> u32) \<Rightarrow> bool \<Rightarrow> impl \<Rightarrow> query \<Rightarrow> caching \<Rightarrow> (Validity option \<times> caching) option" where
  "Caching_computeValidity hv cao solver query s = do {
     cached \<leftarrow> cacheLookup hv cao (cache_map s) query;
     (case cached of
        Some MustBeTrue \<Rightarrow> Some (Some VTrue, hit s)
      | Some MustBeFalse \<Rightarrow> Some (Some VFalse, hit s)
      | Some TrueOrFalse \<Rightarrow> Some (Some VUnknown, hit s)
      | Some MayBeTrue \<Rightarrow> do {
          tmp \<leftarrow> computeTruth solver query;
          (case tmp of None \<Rightarrow> Some (None, miss s)
           | Some True \<Rightarrow> insert_result hv cao query MustBeTrue VTrue (miss s)
           | Some False \<Rightarrow> insert_result hv cao query TrueOrFalse VUnknown (miss s))
        }
      | Some MayBeFalse \<Rightarrow> do {
          q \<leftarrow> negateExpr cao query;
          tmp \<leftarrow> computeTruth solver q;
          (case tmp of None \<Rightarrow> Some (None, miss s)
           | Some True \<Rightarrow> insert_result hv cao query MustBeFalse VFalse (miss s)
           | Some False \<Rightarrow> insert_result hv cao query TrueOrFalse VUnknown (miss s))
        }
      | Some NoneKnown \<Rightarrow> None
      | None \<Rightarrow> do {
          result \<leftarrow> computeValidity solver query;
          (case result of None \<Rightarrow> Some (None, miss s)
           | Some v \<Rightarrow> insert_result hv cao query
               (case v of VTrue \<Rightarrow> MustBeTrue | VFalse \<Rightarrow> MustBeFalse | VUnknown \<Rightarrow> TrueOrFalse) v (miss s))
        })
   }"

definition Caching_computeTruth ::
  "(apint \<Rightarrow> u32) \<Rightarrow> bool \<Rightarrow> impl \<Rightarrow> query \<Rightarrow> caching \<Rightarrow> (bool option \<times> caching) option" where
  "Caching_computeTruth hv cao solver query s = do {
     cached \<leftarrow> cacheLookup hv cao (cache_map s) query;
     (if cached \<noteq> None \<and> cached \<noteq> Some MayBeTrue then Some (Some (cached = Some MustBeTrue), hit s)
      else do {
        isValid \<leftarrow> computeTruth solver query;
        (case isValid of None \<Rightarrow> Some (None, miss s)
         | Some v \<Rightarrow> insert_result hv cao query
             (if v then MustBeTrue else if cached \<noteq> None then TrueOrFalse else MayBeFalse) v (miss s))
      })
   }"

definition Caching_computeValue :: "impl \<Rightarrow> query \<Rightarrow> caching \<Rightarrow> (expr option \<times> caching) option" where
  "Caching_computeValue solver query s = map_option (\<lambda>r. (r, miss s)) (computeValue solver query)"

definition Caching_computeInitialValues ::
  "impl \<Rightarrow> query \<Rightarrow> array list \<Rightarrow> caching \<Rightarrow> ((u8 list list \<times> bool) option \<times> caching) option" where
  "Caching_computeInitialValues solver query objects s =
     map_option (\<lambda>r. (r, miss s)) (computeInitialValues solver query objects)"

section \<open>Validation\<close>

definition Validating_computeTruth :: "impl \<Rightarrow> impl \<Rightarrow> query \<Rightarrow> bool reply" where
  "Validating_computeTruth solver oracle query =
     andThen (computeTruth solver query) (\<lambda>isValid.
       andThen (computeTruth oracle query) (\<lambda>answer. do {
         assert_that (isValid = answer);
         Some (Some isValid)
       }))"

definition Validating_computeValidity :: "impl \<Rightarrow> impl \<Rightarrow> query \<Rightarrow> Validity reply" where
  "Validating_computeValidity solver oracle query =
     andThen (computeValidity solver query) (\<lambda>result.
       andThen (computeValidity oracle query) (\<lambda>answer. do {
         assert_that (result = answer);
         Some (Some result)
       }))"

definition Validating_computeValue :: "bool \<Rightarrow> impl \<Rightarrow> impl \<Rightarrow> query \<Rightarrow> expr reply" where
  "Validating_computeValue cao solver oracle query =
     andThen (computeValue solver query) (\<lambda>result. do {
       ne \<leftarrow> cop_create cao Ne (snd query) result;
       andThen (computeTruth oracle (withExpr query ne)) (\<lambda>answer. do {
         assert_that (\<not> answer);
         Some (Some result)
       })
     })"

definition array_bindings :: "bool \<Rightarrow> array \<Rightarrow> u8 list \<Rightarrow> expr list \<Rightarrow> expr list option" where
  "array_bindings cao a bytes = foldM (\<lambda>j bindings. do {
       assert_that (j < length bytes);
       rd \<leftarrow> ReadExpr_create cao (a, NullNode) (ConstantExpr (ConstantExpr_alloc (of_nat j) (arr_domain a)));
       eq \<leftarrow> EqExpr_create cao rd (ConstantExpr (ConstantExpr_alloc (ucast (bytes ! j)) (arr_range a)));
       Some (bindings @ [eq])
     }) [0..<arr_size a]"

definition Validating_computeInitialValues ::
  "bool \<Rightarrow> impl \<Rightarrow> impl \<Rightarrow> query \<Rightarrow> array list \<Rightarrow> (u8 list list \<times> bool) reply" where
  "Validating_computeInitialValues cao solver oracle query objects =
     andThen (computeInitialValues solver query objects) (\<lambda>(values, hasSolution).
       if hasSolution then do {
         assert_that (length values \<le> length objects);
         bindings \<leftarrow> foldM (\<lambda>(a, bytes). array_bindings cao a bytes) (zip objects values) [];
         z \<leftarrow> createIsZero cao (snd query);
         constraints \<leftarrow> foldM (\<lambda>c acc. AndExpr_create acc c) (fst query) z;
         andThen (computeTruth oracle (remdups bindings, constraints)) (\<lambda>answer. do {
           assert_that answer;
           Some (Some (values, hasSolution))
         })
       }
       else
         andThen (computeTruth oracle query) (\<lambda>answer. do {
           assert_that answer;
           Some (Some (values, hasSolution))
         }))"

definition ValidatingSolver :: "bool \<Rightarrow> impl \<Rightarrow> impl \<Rightarrow> impl" where
  "ValidatingSolver cao solver oracle =
     \<lparr>computeTruth = Validating_computeTruth solver oracle,
      computeValidity = Validating_computeValidity solver oracle,
      computeValue = Validating_computeValue cao solver oracle,
      computeInitialValues = Validating_computeInitialValues cao solver oracle\<rparr>"

end
