(* ===== verification/Chain_Correct.thy ===== *)
theory Chain_Correct
  imports Solver_Chain
begin

text \<open>
  The solvers of \<open>Solver_Chain\<close> keep the contract of \<^verbatim>\<open>SolverImpl\<close>.  What is known of a query is a
  \<open>PartialValidity\<close>; \<open>pv_ok\<close> says that it is true of the query, and everything a cache holds is.
\<close>

section \<open>Partial validities\<close>

definition pv_ok :: "query \<Rightarrow> PartialValidity \<Rightarrow> bool" where
  "pv_ok q pv \<longleftrightarrow> (case pv of
     MustBeTrue \<Rightarrow> valid q
   | MustBeFalse \<Rightarrow> refuted q
   | MayBeTrue \<Rightarrow> \<not> refuted q
   | MayBeFalse \<Rightarrow> \<not> valid q
   | TrueOrFalse \<Rightarrow> \<not> valid q \<and> \<not> refuted q
   | NoneKnown \<Rightarrow> False)"

lemma pv_ok_simps [simp]:
  "pv_ok q MustBeTrue \<longleftrightarrow> valid q" "pv_ok q MustBeFalse \<longleftrightarrow> refuted q" "pv_ok q MayBeTrue \<longleftrightarrow> \<not> refuted q"
  "pv_ok q MayBeFalse \<longleftrightarrow> \<not> valid q" "pv_ok q TrueOrFalse \<longleftrightarrow> \<not> valid q \<and> \<not> refuted q" "\<not> pv_ok q NoneKnown"
  by (simp_all add: pv_ok_def)

lemma negate_pv_ok:
  assumes "valid n \<longleftrightarrow> refuted q" "refuted n \<longleftrightarrow> valid q" "pv_ok q pv"
  shows "ok (negatePartialValidity pv) (pv_ok n)"
  using assms by (cases pv) (simp_all add: negatePartialValidity_def)

lemma validity_of_cases:
  assumes "wf_query q"
  shows "validity_of q = VTrue \<longleftrightarrow> valid q" "validity_of q = VFalse \<longleftrightarrow> refuted q"
    "validity_of q = VUnknown \<longleftrightarrow> \<not> valid q \<and> \<not> refuted q"
  using valid_refuted [OF assms] by (auto simp: validity_of_def)

section \<open>The default method of SolverImpl\<close>

lemma default_validity_sound:
  assumes truth: "\<And>q. wf_query q \<Longrightarrow> getWidth (snd q) = 1 \<Longrightarrow> replies (truth q) (\<lambda>b. b = valid q)"
    and q: "wf_query q" "getWidth (snd q) = 1"
  shows "replies (SolverImpl_computeValidity False truth q) (\<lambda>v. v = validity_of q)"
  unfolding SolverImpl_computeValidity_def
proof (rule replies_andThen [OF truth [OF q]])
  fix b assume b: "b = valid q"
  show "replies (if b then Some (Some VTrue) else do { n \<leftarrow> negateExpr False q;
      andThen (truth n) (\<lambda>isFalse. Some (Some (if isFalse then VFalse else VUnknown))) }) (\<lambda>v. v = validity_of q)"
  proof (cases b)
    case True
    then show ?thesis using b by (simp add: validity_of_def)
  next
    case False
    have "replies (do { n \<leftarrow> negateExpr False q; andThen (truth n) (\<lambda>isFalse. Some (Some (if isFalse then VFalse else VUnknown))) })
      (\<lambda>v. v = validity_of q)"
    proof (rule replies_bind [OF negateExpr_ok [OF q]])
      fix n
      assume n: "wf_query n \<and> fst n = fst q \<and> getWidth (snd n) = 1 \<and>
        (\<forall>\<sigma>. wf_env \<sigma> \<longrightarrow> eval \<sigma> (snd n) = of_bool (eval \<sigma> (snd q) = 0))"
      have "valid n = refuted q" using valid_negated(1) [of n q] n by blast
      then show "replies (andThen (truth n) (\<lambda>isFalse. Some (Some (if isFalse then VFalse else VUnknown)))) (\<lambda>v. v = validity_of q)"
        using n False b by (intro replies_andThen [OF truth [of n]]) (simp_all add: validity_of_def)
    qed
    then show ?thesis using False by simp
  qed
qed

section \<open>Staged solvers\<close>

definition sound_incomplete :: "incomplete \<Rightarrow> bool" where
  "sound_incomplete P \<longleftrightarrow>
     (\<forall>q. bool_query q \<longrightarrow> ok (inc_computeTruth P q) (\<lambda>pv. pv = NoneKnown \<or> pv \<noteq> MayBeTrue \<and> pv_ok q pv)) \<and>
     (\<forall>q. bool_query q \<longrightarrow> ok (inc_computeValidity P q) (\<lambda>pv. pv = NoneKnown \<or> pv_ok q pv)) \<and>
     (\<forall>q. wf_query q \<longrightarrow> \<not> isConstantExpr (snd q) \<longrightarrow> replies (inc_computeValue P q)
       (\<lambda>e. \<exists>c. e = ConstantExpr c \<and> wf_ap c \<and> bitWidth c = getWidth (snd q) \<and> possible_value q (apval c))) \<and>
     (\<forall>q objects. wf_query q \<longrightarrow> getWidth (snd q) = 1 \<longrightarrow> replies (inc_computeInitialValues P q objects)
       (\<lambda>(values, hasSolution). hasSolution = (\<not> valid q) \<and> (hasSolution \<longrightarrow> counterexample q objects values)))"

lemma replies_orElse: "replies r P \<Longrightarrow> replies s P \<Longrightarrow> replies (orElse r s) P"
  by (auto simp: replies_def ok_iff orElse_def split: option.splits)

lemma incomplete_validity_ok:
  assumes truth: "\<And>q. wf_query q \<Longrightarrow> getWidth (snd q) = 1 \<Longrightarrow>
      ok (truth q) (\<lambda>pv. pv = NoneKnown \<or> pv \<noteq> MayBeTrue \<and> pv_ok q pv)"
    and q: "wf_query q" "getWidth (snd q) = 1"
  shows "ok (IncompleteSolver_computeValidity False truth q) (\<lambda>pv. pv = NoneKnown \<or> pv_ok q pv)"
proof -
  obtain t where t: "truth q = Some t" "t = NoneKnown \<or> t \<noteq> MayBeTrue \<and> pv_ok q t" using truth [OF q] by (auto simp: ok_iff)
  obtain n where n: "negateExpr False q = Some n" "wf_query n" "fst n = fst q" "getWidth (snd n) = 1"
    "\<forall>\<sigma>. wf_env \<sigma> \<longrightarrow> eval \<sigma> (snd n) = of_bool (eval \<sigma> (snd q) = 0)"
    using negateExpr_ok [OF q] by (auto simp: ok_iff)
  obtain f where f: "truth n = Some f" "f = NoneKnown \<or> f \<noteq> MayBeTrue \<and> pv_ok n f" using truth [OF n(2,4)] by (auto simp: ok_iff)
  have v: "valid n \<longleftrightarrow> refuted q" "refuted n \<longleftrightarrow> valid q" using valid_negated [OF n(3,5)] by simp_all
  have "t \<noteq> NoneKnown \<Longrightarrow> t \<noteq> MustBeTrue \<Longrightarrow> \<not> valid q" using t(2) valid_refuted [OF q(1)] by (cases t) auto
  moreover have "f \<noteq> NoneKnown \<Longrightarrow> f \<noteq> MustBeTrue \<Longrightarrow> \<not> refuted q" using f(2) v valid_refuted [OF n(2)] by (cases f) auto
  ultimately show ?thesis using t f n(1) v by (auto simp: IncompleteSolver_computeValidity_def Let_def)
qed

lemma sound_incompleteD:
  assumes "sound_incomplete P"
  shows "bool_query q \<Longrightarrow> ok (inc_computeTruth P q) (\<lambda>pv. pv = NoneKnown \<or> pv \<noteq> MayBeTrue \<and> pv_ok q pv)"
    "bool_query q \<Longrightarrow> ok (inc_computeValidity P q) (\<lambda>pv. pv = NoneKnown \<or> pv_ok q pv)"
    "wf_query q \<Longrightarrow> \<not> isConstantExpr (snd q) \<Longrightarrow> replies (inc_computeValue P q)
       (\<lambda>e. \<exists>c. e = ConstantExpr c \<and> wf_ap c \<and> bitWidth c = getWidth (snd q) \<and> possible_value q (apval c))"
    "wf_query q \<Longrightarrow> getWidth (snd q) = 1 \<Longrightarrow> replies (inc_computeInitialValues P q objects)
       (\<lambda>(values, hasSolution). hasSolution = (\<not> valid q) \<and> (hasSolution \<longrightarrow> counterexample q objects values))"
  using assms unfolding sound_incomplete_def by blast+

lemma negate_bool_query:
  assumes "bool_query q"
  obtains n where "negateExpr False q = Some n" "bool_query n" "valid n \<longleftrightarrow> refuted q" "refuted n \<longleftrightarrow> valid q"
proof -
  obtain n where n: "negateExpr False q = Some n" "wf_query n" "fst n = fst q" "getWidth (snd n) = 1"
    "\<forall>\<sigma>. wf_env \<sigma> \<longrightarrow> eval \<sigma> (snd n) = of_bool (eval \<sigma> (snd q) = 0)"
    using negateExpr_ok [of q] assms by (auto simp: ok_iff bool_query_def)
  then show ?thesis using that [of n] valid_negated [OF n(3,5)] by (simp add: bool_query_def)
qed

context sound_solver
begin

lemma staged_truth:
  assumes "sound_incomplete P" "bool_query q"
  shows "replies (Staged_computeTruth P I q) (\<lambda>b. b = valid q)"
proof -
  obtain t where t: "inc_computeTruth P q = Some t" "t = NoneKnown \<or> t \<noteq> MayBeTrue \<and> pv_ok q t"
    using sound_incompleteD(1) [OF assms] by (auto simp: ok_iff)
  then show ?thesis using truth [OF assms(2)] valid_refuted [of q] assms(2)
    by (cases t) (auto simp: Staged_computeTruth_def bool_query_def)
qed

lemma staged_validity:
  assumes "sound_incomplete P" "bool_query q"
  shows "replies (Staged_computeValidity False P I q) (\<lambda>v. v = validity_of q)"
proof -
  obtain t where t: "inc_computeValidity P q = Some t" "t = NoneKnown \<or> pv_ok q t"
    using sound_incompleteD(2) [OF assms] by (auto simp: ok_iff)
  obtain n where n: "negateExpr False q = Some n" "bool_query n" "valid n \<longleftrightarrow> refuted q" "refuted n \<longleftrightarrow> valid q"
    by (rule negate_bool_query [OF assms(2)])
  have "replies (andThen (computeTruth I q) (\<lambda>tmp. Some (Some (if tmp then VTrue else VUnknown)))) (\<lambda>v. v = validity_of q)" if "\<not> refuted q"
    by (rule replies_andThen [OF truth [OF assms(2)]]) (use that in \<open>simp add: validity_of_def\<close>)
  moreover have "replies (andThen (computeTruth I n) (\<lambda>tmp. Some (Some (if tmp then VFalse else VUnknown)))) (\<lambda>v. v = validity_of q)" if "\<not> valid q"
    by (rule replies_andThen [OF truth [OF n(2)]]) (use that n(3) in \<open>simp add: validity_of_def\<close>)
  moreover note validity [OF assms(2)]
  moreover have "wf_query q" using assms(2) by (simp add: bool_query_def)
  ultimately show ?thesis using t n(1) by (cases t) (auto simp: Staged_computeValidity_def validity_of_def dest: valid_refuted)
qed

lemma staged_sound:
  assumes "sound_incomplete P"
  shows "sound_solver (StagedSolverImpl False P I)"
  using staged_truth [OF assms] staged_validity [OF assms] sound_incompleteD(3,4) [OF assms] value_of initial
  by unfold_locales (simp_all add: StagedSolverImpl_def replies_orElse)

end

section \<open>Caching\<close>

lemma entry_eq_pv:
  assumes "entry_eq a b"
  shows "valid a = valid b" "refuted a = refuted b" "pv_ok a pv = pv_ok b pv"
proof -
  have "holds (fst a) = holds (fst b)" "snd a = snd b" using assms by (auto simp: entry_eq_def holds_def)
  then show v: "valid a = valid b" "refuted a = refuted b" by (simp_all add: valid_def refuted_def)
  show "pv_ok a pv = pv_ok b pv" by (cases pv) (simp_all add: v)
qed

definition cache_ok :: "cache \<Rightarrow> bool" where
  "cache_ok c \<longleftrightarrow> (\<forall>e \<in> set c. pv_ok (fst e) (snd e))"

lemma cache_find_ok:
  assumes "cache_ok c" "cache_find k c = Some pv"
  shows "pv_ok k pv"
proof -
  obtain e where e: "find (\<lambda>e. entry_eq (fst e) k) c = Some e" "pv = snd e" using assms(2) by (auto simp: cache_find_def)
  then have "e \<in> set c" "entry_eq (fst e) k" by (auto simp: find_Some_iff)
  then show ?thesis using assms(1) e(2) entry_eq_pv(3) [of "fst e" k pv] by (simp add: cache_ok_def)
qed

lemma canonicalizeQuery_cases:
  assumes "bool_query q"
  obtains e where "canonicalizeQuery hv False (snd q) = Some (e, False)" "withExpr q e = q"
  | e where "canonicalizeQuery hv False (snd q) = Some (e, True)"
      "valid (withExpr q e) \<longleftrightarrow> refuted q" "refuted (withExpr q e) \<longleftrightarrow> valid q"
proof -
  obtain n where n: "negateExpr False q = Some n" "valid n \<longleftrightarrow> refuted q" "refuted n \<longleftrightarrow> valid q"
    by (rule negate_bool_query [OF assms])
  then obtain e where e: "createIsZero False (snd q) = Some e" "n = withExpr q e"
    by (auto simp: negateExpr_def split: bind_splits)
  then show ?thesis
    using that(1) [of "snd q"] that(2) [of e] n(2,3)
    by (cases "Expr_compare hv (snd q) e < 0") (simp_all add: canonicalizeQuery_def withExpr_def)
qed

lemma cacheLookup_ok:
  assumes "cache_ok c" "bool_query q"
  shows "ok (cacheLookup hv False c q) (\<lambda>r. \<forall>pv. r = Some pv \<longrightarrow> pv_ok q pv)"
proof (rule canonicalizeQuery_cases [OF assms(2), of hv])
  fix e assume e: "canonicalizeQuery hv False (snd q) = Some (e, False)" "withExpr q e = q"
  then show ?thesis using cache_find_ok [OF assms(1), of q] by (auto simp: cacheLookup_def split: option.split)
next
  fix e assume e: "canonicalizeQuery hv False (snd q) = Some (e, True)"
    "valid (withExpr q e) \<longleftrightarrow> refuted q" "refuted (withExpr q e) \<longleftrightarrow> valid q"
  show ?thesis
  proof (cases "cache_find (withExpr q e) c")
    case None
    then show ?thesis using e by (simp add: cacheLookup_def)
  next
    case (Some pv)
    then show ?thesis using e negate_pv_ok [of q "withExpr q e" pv] cache_find_ok [OF assms(1) Some]
      by (auto simp: cacheLookup_def elim!: ok_mono)
  qed
qed

lemma cacheInsert_ok:
  assumes "cache_ok c" "bool_query q" "pv_ok q pv"
  shows "ok (cacheInsert hv False q pv c) cache_ok"
proof (rule canonicalizeQuery_cases [OF assms(2), of hv])
  fix e assume "canonicalizeQuery hv False (snd q) = Some (e, False)" "withExpr q e = q"
  then show ?thesis using assms by (simp add: cacheInsert_def cache_ok_def Let_def)
next
  fix e assume e: "canonicalizeQuery hv False (snd q) = Some (e, True)"
    "valid (withExpr q e) \<longleftrightarrow> refuted q" "refuted (withExpr q e) \<longleftrightarrow> valid q"
  from negate_pv_ok [OF e(2,3) assms(3)] obtain pv' where "negatePartialValidity pv = Some pv'" "pv_ok (withExpr q e) pv'"
    by (auto simp: ok_iff)
  then show ?thesis using e(1) assms(1) by (simp add: cacheInsert_def cache_ok_def Let_def)
qed

lemma insert_result_ok:
  assumes "cache_ok (cache_map s)" "bool_query q" "pv_ok q pv"
  shows "ok (insert_result hv False q pv r s) (\<lambda>(r', s'). r' = Some r \<and> cache_ok (cache_map s'))"
  unfolding insert_result_def by (rule ok_bind [OF cacheInsert_ok [OF assms]]) simp

lemma cache_map_counters [simp]: "cache_map (hit s) = cache_map s" "cache_map (miss s) = cache_map s"
  by (simp_all add: hit_def miss_def)

text \<open>Some query that the solver does not answer.\<close>

definition unanswered :: "impl \<Rightarrow> bool" where
  "unanswered I \<longleftrightarrow> (\<exists>q. bool_query q \<and> (computeTruth I q = Some None \<or> computeValidity I q = Some None))"

lemma unansweredI:
  "bool_query q \<Longrightarrow> computeTruth I q = Some None \<Longrightarrow> unanswered I"
  "bool_query q \<Longrightarrow> computeValidity I q = Some None \<Longrightarrow> unanswered I"
  unfolding unanswered_def by blast+

context sound_solver
begin

lemma caching_truth:
  assumes c: "cache_ok (cache_map s)" and q: "bool_query q"
  shows "ok (Caching_computeTruth hv False I q s) (\<lambda>(r, s'). cache_ok (cache_map s') \<and>
    (\<forall>b. r = Some b \<longrightarrow> b = valid q) \<and> (r = None \<longrightarrow> computeTruth I q = Some None))"
proof -
  obtain p where p: "cacheLookup hv False (cache_map s) q = Some p" "\<And>pv. p = Some pv \<Longrightarrow> pv_ok q pv"
    using cacheLookup_ok [OF c q, of hv] by (auto simp: ok_iff)
  have vr: "valid q \<Longrightarrow> \<not> refuted q" using valid_refuted q by (simp add: bool_query_def)
  show ?thesis
  proof (cases "p \<noteq> None \<and> p \<noteq> Some MayBeTrue")
    case True
    then obtain pv where pv: "p = Some pv" "pv \<noteq> MayBeTrue" "pv_ok q pv" using p(2) by blast
    then have "(pv = MustBeTrue) = valid q" using vr by (cases pv) auto
    then show ?thesis using True p(1) pv c by (simp add: Caching_computeTruth_def)
  next
    case False
    obtain r where r: "computeTruth I q = Some r" "\<forall>b. r = Some b \<longrightarrow> b = valid q"
      using truth [OF q] by (auto simp: replies_def ok_iff)
    show ?thesis
    proof (cases r)
      case None
      then show ?thesis using False p(1) r c by (auto simp: Caching_computeTruth_def)
    next
      case (Some v)
      let ?pv = "if v then MustBeTrue else if p \<noteq> None then TrueOrFalse else MayBeFalse"
      have "pv_ok q ?pv" using Some r(2) False p(2) [of MayBeTrue] by auto
      from insert_result_ok [OF _ q this, of "miss s" hv v] c
      show ?thesis using Some False p(1) r by (auto simp: Caching_computeTruth_def elim!: ok_mono)
    qed
  qed
qed

lemma caching_validity:
  assumes c: "cache_ok (cache_map s)" and q: "bool_query q"
  shows "ok (Caching_computeValidity hv False I q s) (\<lambda>(r, s'). cache_ok (cache_map s') \<and>
    (\<forall>v. r = Some v \<longrightarrow> v = validity_of q) \<and> (r = None \<longrightarrow> unanswered I))"
proof -
  obtain p where p: "cacheLookup hv False (cache_map s) q = Some p" "\<And>pv. p = Some pv \<Longrightarrow> pv_ok q pv"
    using cacheLookup_ok [OF c q, of hv] by (auto simp: ok_iff)
  have wf: "wf_query q" using q by (simp add: bool_query_def)
  note cases = validity_of_cases [OF wf]
  obtain n where n: "negateExpr False q = Some n" "bool_query n" "valid n \<longleftrightarrow> refuted q"
    by (rule negate_bool_query [OF q])
  obtain r where r: "computeTruth I q = Some r" "\<forall>b. r = Some b \<longrightarrow> b = valid q"
    using truth [OF q] by (auto simp: replies_def ok_iff)
  obtain f where f: "computeTruth I n = Some f" "\<forall>b. f = Some b \<longrightarrow> b = refuted q"
    using truth [OF n(2)] n(3) by (auto simp: replies_def ok_iff)
  obtain v where v: "computeValidity I q = Some v" "\<forall>x. v = Some x \<longrightarrow> x = validity_of q"
    using validity [OF q] by (auto simp: replies_def ok_iff)
  have ins: "ok (insert_result hv False q pv x (miss s)) (\<lambda>(r, s'). cache_ok (cache_map s') \<and>
      (\<forall>v. r = Some v \<longrightarrow> v = validity_of q) \<and> (r = None \<longrightarrow> unanswered I))"
    if "pv_ok q pv" "x = validity_of q" for pv x
    using insert_result_ok [OF _ q that(1), of "miss s" hv x] c that(2) by (auto elim!: ok_mono)
  consider (miss) "p = None" | (must) pv where "p = Some pv" "pv \<in> {MustBeTrue, MustBeFalse, TrueOrFalse}"
    | (mayT) "p = Some MayBeTrue" | (mayF) "p = Some MayBeFalse"
    using p(2) [of NoneKnown] by (cases p) (auto, metis PartialValidity.exhaust)
  then show ?thesis
  proof cases
    case miss
    show ?thesis
    proof (cases v)
      case None
      then show ?thesis using miss p(1) v(1) c q unansweredI(2) [OF q] by (simp add: Caching_computeValidity_def)
    next
      case (Some x)
      have "pv_ok q (case x of VTrue \<Rightarrow> MustBeTrue | VFalse \<Rightarrow> MustBeFalse | VUnknown \<Rightarrow> TrueOrFalse)"
        using v(2) Some cases by (auto split: Validity.split)
      from ins [OF this] show ?thesis using Some miss p(1) v by (simp add: Caching_computeValidity_def)
    qed
  next
    case must
    then show ?thesis using p c cases by (auto simp: Caching_computeValidity_def)
  next
    case mayT
    then have nr: "\<not> refuted q" using p(2) by force
    show ?thesis
    proof (cases r)
      case None
      then show ?thesis using mayT p(1) r(1) c unansweredI(1) [OF q] by (simp add: Caching_computeValidity_def)
    next
      case (Some b)
      then have "b = valid q" using r(2) by simp
      then show ?thesis using Some mayT p(1) r(1) nr ins [of MustBeTrue VTrue] ins [of TrueOrFalse VUnknown]
        by (cases b) (simp_all add: Caching_computeValidity_def validity_of_def)
    qed
  next
    case mayF
    then have nv: "\<not> valid q" using p(2) by force
    show ?thesis
    proof (cases f)
      case None
      then show ?thesis using mayF p(1) n(1) f(1) c unansweredI(1) [OF n(2)] by (simp add: Caching_computeValidity_def)
    next
      case (Some b)
      then have "b = refuted q" using f(2) by simp
      then show ?thesis using Some mayF p(1) n(1) f(1) nv ins [of MustBeFalse VFalse] ins [of TrueOrFalse VUnknown]
        by (cases b) (simp_all add: Caching_computeValidity_def validity_of_def)
    qed
  qed
qed

end

end
