(* ===== verification/Timing_Solver.thy ===== *)
theory Timing_Solver
  imports Constraints Chain_Correct
begin

text \<open>
  \<^verbatim>\<open>TimingSolver\<close> of \<^verbatim>\<open>lib/Core/TimingSolver.cpp\<close>: how the executor asks the solver about an
  execution state.  The query is simplified with the path condition first, if that option is on;
  the accounting of the time spent is left out.
\<close>

record tsolver =
  ts_impl :: impl
  simplifyExprs :: bool
  ts_config :: cm_config

definition ts_simplify :: "tsolver \<Rightarrow> expr list \<Rightarrow> expr \<Rightarrow> expr option" where
  "ts_simplify ts cs e = (if simplifyExprs ts then simplifyExpr (ts_config ts) cs e else Some e)"

definition TimingSolver_evaluate :: "tsolver \<Rightarrow> expr list \<Rightarrow> expr \<Rightarrow> Validity reply" where
  "TimingSolver_evaluate ts cs e =
     (case as_const e of
        Some CE \<Rightarrow> Some (Some (if ConstantExpr_isTrue CE then VTrue else VFalse))
      | None \<Rightarrow> do { e \<leftarrow> ts_simplify ts cs e; Solver_evaluate (ts_impl ts) (cs, e) })"

definition TimingSolver_mustBeTrue :: "tsolver \<Rightarrow> expr list \<Rightarrow> expr \<Rightarrow> bool reply" where
  "TimingSolver_mustBeTrue ts cs e =
     (case as_const e of
        Some CE \<Rightarrow> Some (Some (ConstantExpr_isTrue CE))
      | None \<Rightarrow> do { e \<leftarrow> ts_simplify ts cs e; Solver_mustBeTrue (ts_impl ts) (cs, e) })"

definition TimingSolver_mustBeFalse :: "tsolver \<Rightarrow> expr list \<Rightarrow> expr \<Rightarrow> bool reply" where
  "TimingSolver_mustBeFalse ts cs e = do {
     z \<leftarrow> createIsZero (cm_cao (ts_config ts)) e;
     TimingSolver_mustBeTrue ts cs z
   }"

definition TimingSolver_mayBeTrue :: "tsolver \<Rightarrow> expr list \<Rightarrow> expr \<Rightarrow> bool reply" where
  "TimingSolver_mayBeTrue ts cs e = andThen (TimingSolver_mustBeFalse ts cs e) (\<lambda>res. Some (Some (\<not> res)))"

definition TimingSolver_mayBeFalse :: "tsolver \<Rightarrow> expr list \<Rightarrow> expr \<Rightarrow> bool reply" where
  "TimingSolver_mayBeFalse ts cs e = andThen (TimingSolver_mustBeTrue ts cs e) (\<lambda>res. Some (Some (\<not> res)))"

definition TimingSolver_getValue :: "tsolver \<Rightarrow> expr list \<Rightarrow> expr \<Rightarrow> apint reply" where
  "TimingSolver_getValue ts cs e =
     (case as_const e of
        Some CE \<Rightarrow> Some (Some CE)
      | None \<Rightarrow> do { e \<leftarrow> ts_simplify ts cs e; Solver_getValue (ts_impl ts) (cs, e) })"

definition TimingSolver_getInitialValues :: "tsolver \<Rightarrow> expr list \<Rightarrow> array list \<Rightarrow> u8 list list reply" where
  "TimingSolver_getInitialValues ts cs objects =
     (if objects = [] then Some (Some [])
      else Solver_getInitialValues (ts_impl ts) (cs, ConstantExpr (APInt 1 0)) objects)"

definition TimingSolver_getRange :: "tsolver \<Rightarrow> expr list \<Rightarrow> expr \<Rightarrow> (expr \<times> expr) option" where
  "TimingSolver_getRange ts cs e = Solver_getRange (cm_cao (ts_config ts)) (ts_impl ts) (cs, e)"

section \<open>Exact answers\<close>

text \<open>
  The timing solver answers every query about the state with constraints \<open>cs\<close>: the solver behind it
  is complete, and the simplifier, if used, returns.
\<close>

definition answering :: "tsolver \<Rightarrow> expr list \<Rightarrow> bool" where
  "answering ts cs \<longleftrightarrow> complete_solver (ts_impl ts) \<and> \<not> cm_cao (ts_config ts) \<and> wf_constraints cs \<and> feasible cs \<and>
     (simplifyExprs ts \<longrightarrow> (\<forall>e. wt e \<longrightarrow> simplifyExpr (ts_config ts) cs e \<noteq> None))"

lemma wf_query_constraints: "wf_query (cs, e) \<longleftrightarrow> wf_constraints cs \<and> wt e \<and> feasible cs"
  by (auto simp: wf_query_def wf_constraints_def)

lemma ts_simplify_same:
  assumes "answering ts cs" "wt e"
  shows "ok (ts_simplify ts cs e) (\<lambda>r. wf_query (cs, r) \<and> getWidth r = getWidth e \<and>
    valid (cs, r) = valid (cs, e) \<and> refuted (cs, r) = refuted (cs, e) \<and> possible_value (cs, r) = possible_value (cs, e))"
proof -
  obtain r where r: "ts_simplify ts cs e = Some r" "same_value (holds cs) e r"
    using assms simplifyExpr_sound [of cs e "ts_config ts"] same_value_refl [OF assms(2)]
    by (cases "simplifyExprs ts") (fastforce simp: ts_simplify_def answering_def)+
  then show ?thesis using assms same_value_wt [OF r(2)]
    by (auto simp: wf_query_constraints answering_def valid_def refuted_def possible_value_def same_value_def denotes_def fun_eq_iff)
qed

lemma ts_const:
  assumes "answering ts cs" "wt (ConstantExpr c)" "bitWidth c = 1"
  shows "valid (cs, ConstantExpr c) \<longleftrightarrow> ConstantExpr_isTrue c"
    "validity_of (cs, ConstantExpr c) = (if ConstantExpr_isTrue c then VTrue else VFalse)"
  using const_query [of cs c] assms by (simp_all add: wf_query_constraints answering_def)

lemma ts_mustBeTrue_exact:
  assumes "answering ts cs" "wt e" "getWidth e = 1"
  shows "TimingSolver_mustBeTrue ts cs e = Some (Some (valid (cs, e)))"
proof (cases "as_const e")
  case (Some c)
  then show ?thesis using ts_const(1) [OF assms(1), of c] assms by (simp add: TimingSolver_mustBeTrue_def)
next
  case None
  obtain r where "ts_simplify ts cs e = Some r" "wf_query (cs, r)" "getWidth r = 1" "valid (cs, r) = valid (cs, e)"
    using ts_simplify_same [OF assms(1,2)] assms(3) by (auto simp: ok_iff)
  then show ?thesis using None complete_solver.mustBeTrue_exact [of "ts_impl ts" "(cs, r)"] assms(1)
    by (simp add: TimingSolver_mustBeTrue_def answering_def)
qed

lemma ts_evaluate_exact:
  assumes "answering ts cs" "wt e" "getWidth e = 1"
  shows "TimingSolver_evaluate ts cs e = Some (Some (validity_of (cs, e)))"
proof (cases "as_const e")
  case (Some c)
  then show ?thesis using ts_const(2) [OF assms(1), of c] assms by (simp add: TimingSolver_evaluate_def)
next
  case None
  obtain r where "ts_simplify ts cs e = Some r" "wf_query (cs, r)" "getWidth r = 1" "validity_of (cs, r) = validity_of (cs, e)"
    using ts_simplify_same [OF assms(1,2)] assms(3) by (auto simp: ok_iff validity_of_def)
  then show ?thesis using None complete_solver.evaluate_exact [of "ts_impl ts" "(cs, r)"] assms(1)
    by (simp add: TimingSolver_evaluate_def answering_def)
qed

lemma ts_mustBeFalse_exact:
  assumes "answering ts cs" "wt e" "getWidth e = 1"
  shows "TimingSolver_mustBeFalse ts cs e = Some (Some (refuted (cs, e)))"
proof -
  have "denotes (\<lambda>_. True) e 1 (\<lambda>\<sigma>. eval \<sigma> e)" using assms(2,3) by (simp add: denotes_def)
  from createIsZero_ok [OF this, of False]
  obtain z where z: "createIsZero False e = Some z" "denotes (\<lambda>_. True) z 1 (\<lambda>\<sigma>. of_bool (eval \<sigma> e = 0))" by (auto simp: ok_iff)
  then have "valid (cs, z) = refuted (cs, e)" by (auto simp: valid_def refuted_def denotes_def)
  then show ?thesis using ts_mustBeTrue_exact [OF assms(1), of z] z assms(1)
    by (simp add: TimingSolver_mustBeFalse_def answering_def denotes_def)
qed

lemma ts_mayBe_exact:
  assumes "answering ts cs" "wt e" "getWidth e = 1"
  shows "TimingSolver_mayBeTrue ts cs e = Some (Some (\<not> refuted (cs, e)))"
    "TimingSolver_mayBeFalse ts cs e = Some (Some (\<not> valid (cs, e)))"
  using ts_mustBeFalse_exact [OF assms] ts_mustBeTrue_exact [OF assms]
  by (simp_all add: TimingSolver_mayBeTrue_def TimingSolver_mayBeFalse_def)

lemma ts_getRange_exact:
  assumes "answering ts cs" "wt e" "getWidth e \<le> 64"
  shows "\<exists>mn mx. least_greatest (cs, e) (mn, mx) \<and> TimingSolver_getRange ts cs e =
    Some (ConstantExpr (APInt (getWidth e) (int mn)), ConstantExpr (APInt (getWidth e) (int mx)))"
  using complete_solver.getRange_exact [of "ts_impl ts" "(cs, e)"] assms
  by (simp add: TimingSolver_getRange_def answering_def wf_query_constraints)

end
