(* ===== verification/Solver_Props.thy ===== *)
theory Solver_Props
  imports Chain_Correct Expr_Props
begin

text \<open>
  The properties of the solver layer, with a reference solver that answers every query by the
  documented formula as the instance for the witnesses.
\<close>

section \<open>A reference solver\<close>

definition reference_solver :: impl where
  "reference_solver = \<lparr>computeTruth = (\<lambda>q. Some (Some (valid q))), computeValidity = (\<lambda>q. Some (Some (validity_of q))),
     computeValue = (\<lambda>_. Some None), computeInitialValues = (\<lambda>_ _. Some None)\<rparr>"

text \<open>An incomplete solver that decides only queries whose expression is a constraint.\<close>

definition syntactic_truth :: "query \<Rightarrow> PartialValidity option" where
  "syntactic_truth q = Some (if snd q \<in> set (fst q) then MustBeTrue else NoneKnown)"

definition syntactic_solver :: incomplete where
  "syntactic_solver = \<lparr>inc_computeTruth = syntactic_truth,
     inc_computeValidity = IncompleteSolver_computeValidity False syntactic_truth,
     inc_computeValue = (\<lambda>_. Some None), inc_computeInitialValues = (\<lambda>_ _. Some None)\<rparr>"

lemma syntactic_truth_ok: "ok (syntactic_truth q) (\<lambda>pv. pv = NoneKnown \<or> pv \<noteq> MayBeTrue \<and> pv_ok q pv)"
  by (simp add: syntactic_truth_def valid_def holds_def)

lemma syntactic_solver_sound: "sound_incomplete syntactic_solver"
  using incomplete_validity_ok [of syntactic_truth, OF syntactic_truth_ok] syntactic_truth_ok
  by (simp add: sound_incomplete_def syntactic_solver_def bool_query_def)

interpretation ref: complete_solver reference_solver
  by unfold_locales (simp_all add: reference_solver_def)

interpretation staged_dummy: sound_solver "StagedSolverImpl False syntactic_solver DummySolverImpl"
  by (rule dummy.staged_sound [OF syntactic_solver_sound])

lemma staged_complete:
  assumes "complete_solver S" "sound_incomplete P"
  shows "complete_solver (StagedSolverImpl False P S)"
proof -
  have S: "sound_solver S" using assms(1) by (simp add: complete_solver_def)
  have t: "computeTruth S q \<noteq> Some None" "computeValidity S q \<noteq> Some None" if "bool_query q" for q
    using complete_solver.truth_answered [OF assms(1) that] complete_solver.validity_answered [OF assms(1) that] .
  have "Staged_computeTruth P S q \<noteq> Some None" if "bool_query q" for q
    using t(1) [OF that] by (auto simp: Staged_computeTruth_def split: bind_splits)
  moreover have "Staged_computeValidity False P S q \<noteq> Some None" if q: "bool_query q" for q
  proof -
    have "andThen (computeTruth S n) (\<lambda>x. Some (Some (g x))) \<noteq> Some None" if "bool_query n" for n and g :: "bool \<Rightarrow> Validity"
      using t(1) [OF that] by (auto simp: andThen_def split: option.splits)
    moreover obtain n where "negateExpr False q = Some n" "bool_query n" by (rule negate_bool_query [OF q])
    ultimately show ?thesis using t(2) [OF q] q
      by (auto simp: Staged_computeValidity_def split: bind_splits PartialValidity.splits)
  qed
  ultimately show ?thesis using sound_solver.staged_sound [OF S assms(2)]
    by (simp add: complete_solver_def complete_solver_axioms_def StagedSolverImpl_def)
qed

interpretation staged: complete_solver "StagedSolverImpl False syntactic_solver reference_solver"
  by (rule staged_complete [OF ref.complete_solver_axioms syntactic_solver_sound])

lemma demo_query: "wf_query ([], demo_read)" "getWidth demo_read = 8"
  using wf_env_exists by (auto simp: wf_query_def feasible_def holds_def)

definition demo_less :: expr where
  "demo_less = CmpExpr Ult demo_read (demo_const 3)"

lemma demo_less_query: "bool_query ([], demo_less)" "bool_query ([demo_less], demo_less)"
proof -
  have "wf_env (\<lambda>a i. 0)" "eval (\<lambda>a i. 0) demo_less \<noteq> 0"
    by (simp_all add: wf_env_exists demo_less_def demo_read_def demo_array_def init_val_def isConstantArray_def isSymbolicArray_def)
  moreover have "wt demo_less" "getWidth demo_less = 1" by (simp_all add: demo_less_def in_width_def)
  ultimately show "bool_query ([], demo_less)" "bool_query ([demo_less], demo_less)"
    by (auto simp: bool_query_def wf_query_def feasible_def holds_def)
qed

section \<open>Properties\<close>

text \<open>
  C6. \<^verbatim>\<open>Solver::getRange\<close> returns, for every expression of at most 64 bits and every solver that
  keeps its contract and answers truth queries, the smallest and the largest value the expression
  can have under the constraints: both are attained and bound all others.  In particular its three
  binary searches end.
\<close>
theorem get_range_exact:
  assumes "complete_solver I" "wf_query q" "getWidth (snd q) \<le> 64"
  shows "\<exists>mn mx. Solver_getRange False I q = Some (ConstantExpr (APInt (getWidth (snd q)) (int mn)),
      ConstantExpr (APInt (getWidth (snd q)) (int mx))) \<and>
    possible_value q (int mn) \<and> possible_value q (int mx) \<and> (\<forall>v. possible_value q v \<longrightarrow> int mn \<le> v \<and> v \<le> int mx)"
  using complete_solver.getRange_exact [OF assms] unfolding least_greatest_def fst_conv snd_conv by blast

theorem get_range_exact_witness:
  "complete_solver (StagedSolverImpl False syntactic_solver reference_solver) \<and> wf_query ([], demo_read) \<and>
   (\<exists>mn mx. Solver_getRange False (StagedSolverImpl False syntactic_solver reference_solver) ([], demo_read) =
      Some (ConstantExpr (APInt 8 (int mn)), ConstantExpr (APInt 8 (int mx))))"
  using get_range_exact [OF staged.complete_solver_axioms demo_query(1)] demo_query staged.complete_solver_axioms
  by auto

text \<open>
  C25. On a boolean query the methods of \<^verbatim>\<open>Solver\<close> never fail an assertion, and whatever they
  answer is the documented formula: \<^verbatim>\<open>mustBeTrue\<close> validity, \<^verbatim>\<open>mustBeFalse\<close> refutation, the two
  \<^verbatim>\<open>mayBe\<close> methods their negations, \<^verbatim>\<open>evaluate\<close> the three-way result; \<^verbatim>\<open>getValue\<close> returns a value
  the expression can have and \<^verbatim>\<open>getInitialValues\<close> the bytes of a counterexample.
\<close>
theorem solver_answers:
  assumes "sound_solver I" "wf_query q" "getWidth (snd q) = 1"
  shows "replies (Solver_mustBeTrue I q) (\<lambda>b. b = valid q) \<and>
    replies (Solver_mustBeFalse False I q) (\<lambda>b. b = refuted q) \<and>
    replies (Solver_mayBeTrue False I q) (\<lambda>b. b = (\<not> refuted q)) \<and>
    replies (Solver_mayBeFalse I q) (\<lambda>b. b = (\<not> valid q)) \<and>
    replies (Solver_evaluate I q) (\<lambda>v. v = validity_of q) \<and>
    replies (Solver_getValue I q) (\<lambda>c. possible_value q (apval c)) \<and>
    replies (Solver_getInitialValues I q objects) (\<lambda>values. counterexample q objects values)"
proof -
  have v: "replies (Solver_getValue I q) (\<lambda>c. possible_value q (apval c))"
    by (rule replies_mono [OF sound_solver.getValue_sound [OF assms(1,2)]]) simp
  show ?thesis
  using sound_solver.mustBeTrue_sound [OF assms] sound_solver.mustBeFalse_sound [OF assms] sound_solver.mayBe_sound [OF assms]
    sound_solver.evaluate_sound [OF assms] sound_solver.getInitialValues_sound [OF assms] v by blast
qed

theorem solver_answers_witness:
  "sound_solver (StagedSolverImpl False syntactic_solver DummySolverImpl) \<and> bool_query ([demo_less], demo_less) \<and>
   replies (Solver_mustBeTrue (StagedSolverImpl False syntactic_solver DummySolverImpl) ([demo_less], demo_less))
     (\<lambda>b. b = valid ([demo_less], demo_less))"
  using solver_answers [OF staged_dummy.sound_solver_axioms, of "([demo_less], demo_less)"] demo_less_query(2)
    staged_dummy.sound_solver_axioms by (auto simp: bool_query_def)

text \<open>
  C24. A staged solver keeps the contract of its secondary solver, and answers whenever that does:
  asking a sound incomplete solver first changes no answer.
\<close>
theorem staged_keeps_contract:
  assumes "complete_solver S" "sound_incomplete P" "bool_query q"
  shows "computeTruth (StagedSolverImpl False P S) q = Some (Some (valid q)) \<and>
    computeValidity (StagedSolverImpl False P S) q = Some (Some (validity_of q))"
proof -
  have c: "complete_solver (StagedSolverImpl False P S)" by (rule staged_complete [OF assms(1,2)])
  then have s: "sound_solver (StagedSolverImpl False P S)" by (simp add: complete_solver_def)
  show ?thesis
    using replies_exact [OF sound_solver.truth [OF s assms(3)] complete_solver.truth_answered [OF c assms(3)]]
      replies_exact [OF sound_solver.validity [OF s assms(3)] complete_solver.validity_answered [OF c assms(3)]] by simp
qed

theorem staged_keeps_contract_witness:
  "sound_incomplete syntactic_solver \<and> bool_query ([], demo_less) \<and>
   computeTruth (StagedSolverImpl False syntactic_solver reference_solver) ([], demo_less) = Some (Some (valid ([], demo_less)))"
  using staged_keeps_contract [OF ref.complete_solver_axioms syntactic_solver_sound demo_less_query(1)]
    syntactic_solver_sound demo_less_query(1) by simp

subsection \<open>Sequences of queries to a caching solver\<close>

datatype request = AskTruth query | AskValidity query
datatype response = Truth "bool option" | Validity "Validity option"

primrec query_of :: "request \<Rightarrow> query" where
  "query_of (AskTruth q) = q"
| "query_of (AskValidity q) = q"

primrec cached_ask :: "(apint \<Rightarrow> u32) \<Rightarrow> impl \<Rightarrow> request \<Rightarrow> caching \<Rightarrow> (response \<times> caching) option" where
  "cached_ask hv I (AskTruth q) s = map_option (apfst Truth) (Caching_computeTruth hv False I q s)"
| "cached_ask hv I (AskValidity q) s = map_option (apfst Validity) (Caching_computeValidity hv False I q s)"

primrec direct_ask :: "impl \<Rightarrow> request \<Rightarrow> response option" where
  "direct_ask I (AskTruth q) = map_option Truth (computeTruth I q)"
| "direct_ask I (AskValidity q) = map_option Validity (computeValidity I q)"

definition cached_run :: "(apint \<Rightarrow> u32) \<Rightarrow> impl \<Rightarrow> request list \<Rightarrow> response list \<times> caching \<Rightarrow> (response list \<times> caching) option" where
  "cached_run hv I = foldM (\<lambda>r (out, s). do { (a, s') \<leftarrow> cached_ask hv I r s; Some (out @ [a], s') })"

definition direct_run :: "impl \<Rightarrow> request list \<Rightarrow> response list \<Rightarrow> response list option" where
  "direct_run I = foldM (\<lambda>r out. do { a \<leftarrow> direct_ask I r; Some (out @ [a]) })"

definition empty_caching :: caching where
  "empty_caching = \<lparr>cache_map = [], queryCacheHits = 0, queryCacheMisses = 0\<rparr>"

lemma cached_ask_direct:
  assumes I: "complete_solver I" and s: "cache_ok (cache_map s)" and q: "bool_query (query_of r)"
  shows "\<exists>a s'. cached_ask hv I r s = Some (a, s') \<and> cache_ok (cache_map s') \<and> direct_ask I r = Some a"
proof -
  have S: "sound_solver I" using I by (simp add: complete_solver_def)
  have t: "computeTruth I q = Some (Some (valid q))" "computeValidity I q = Some (Some (validity_of q))" if "bool_query q" for q
    using replies_exact [OF sound_solver.truth [OF S that] complete_solver.truth_answered [OF I that]]
      replies_exact [OF sound_solver.validity [OF S that] complete_solver.validity_answered [OF I that]] by simp_all
  show ?thesis
  proof (cases r)
    case (AskTruth q')
    with q have q': "bool_query q'" by simp
    from sound_solver.caching_truth [OF S s q', of hv]
    obtain x s' where x: "Caching_computeTruth hv False I q' s = Some (x, s')" "cache_ok (cache_map s')"
      "\<forall>b. x = Some b \<longrightarrow> b = valid q'" "x = None \<longrightarrow> computeTruth I q' = Some None" by (auto simp: ok_iff)
    then have "x = Some (valid q')" using t(1) [OF q'] by (cases x) auto
    then show ?thesis using AskTruth x(1,2) t(1) [OF q'] by simp
  next
    case (AskValidity q')
    with q have q': "bool_query q'" by simp
    from sound_solver.caching_validity [OF S s q', of hv]
    obtain x s' where x: "Caching_computeValidity hv False I q' s = Some (x, s')" "cache_ok (cache_map s')"
      "\<forall>b. x = Some b \<longrightarrow> b = validity_of q'"
      "x = None \<longrightarrow> unanswered I" by (auto simp: ok_iff)
    moreover have "\<not> unanswered I" using t by (auto simp: unanswered_def)
    ultimately have "x = Some (validity_of q')" by (cases x) auto
    then show ?thesis using AskValidity x(1,2) t(2) [OF q'] by simp
  qed
qed

text \<open>
  C23. A cache changes no answer: any sequence of truth and validity queries with satisfiable
  constraints, put to a caching solver with an empty cache, gets exactly the answers that the
  solver behind the cache gives to the same sequence.
\<close>
theorem caching_transparent:
  assumes "complete_solver I" "\<forall>r \<in> set rs. bool_query (query_of r)"
  shows "map_option fst (cached_run hv I rs ([], empty_caching)) = direct_run I rs [] \<and> direct_run I rs [] \<noteq> None"
proof -
  have run: "\<exists>out' s'. cached_run hv I rs (out, s) = Some (out', s') \<and> direct_run I rs out = Some out'"
    if "cache_ok (cache_map s)" for out s
    using assms(2) that
  proof (induction rs arbitrary: out s)
    case Nil
    then show ?case by (simp add: cached_run_def direct_run_def)
  next
    case (Cons r rs)
    then have q: "bool_query (query_of r)" by simp
    obtain a s1 where a: "cached_ask hv I r s = Some (a, s1)" "cache_ok (cache_map s1)" "direct_ask I r = Some a"
      using cached_ask_direct [OF assms(1) Cons.prems(2) q, of hv] by blast
    then show ?case using Cons.IH [of s1 "out @ [a]"] Cons.prems(1) by (simp add: cached_run_def direct_run_def)
  qed
  have "cache_ok (cache_map empty_caching)" by (simp add: cache_ok_def empty_caching_def)
  from run [OF this, of "[]"] show ?thesis by auto
qed

theorem caching_transparent_witness:
  "bool_query ([], demo_less) \<and>
   map_option fst (cached_run (\<lambda>_. 0) reference_solver [AskTruth ([], demo_less), AskValidity ([], demo_less)] ([], empty_caching)) =
   direct_run reference_solver [AskTruth ([], demo_less), AskValidity ([], demo_less)] []"
  using caching_transparent [OF ref.complete_solver_axioms, of "[AskTruth ([], demo_less), AskValidity ([], demo_less)]" "\<lambda>_. 0"]
    demo_less_query(1) by simp


lemma partial_entry:
  assumes "bool_query q"
  obtains c c' where "cacheLookup hv False c q = Some (Some MayBeFalse)" "cacheInsert hv False q TrueOrFalse c = Some c'"
proof (rule canonicalizeQuery_cases [OF assms, of hv])
  fix e assume e: "canonicalizeQuery hv False (snd q) = Some (e, False)"
  show thesis
    by (rule that [of "[(withExpr q e, MayBeFalse)]"])
      (simp_all add: cacheLookup_def cacheInsert_def e cache_find_def entry_eq_def Let_def)
next
  fix e assume e: "canonicalizeQuery hv False (snd q) = Some (e, True)"
  show thesis
    by (rule that [of "[(withExpr q e, MayBeTrue)]"])
      (simp_all add: cacheLookup_def cacheInsert_def e cache_find_def entry_eq_def Let_def negatePartialValidity_def)
qed




end
