(* ===== verification/Constraint_Props.thy ===== *)
theory Constraint_Props
  imports Timing_Solver Solver_Props
begin

text \<open>
  The properties of path conditions and of the timing solver: what a constraint manager promises to
  an execution state, and what the executor learns from a query about a state.
\<close>

section \<open>Constraints on new variables\<close>

text \<open>The expression shares only constants with the constraints.\<close>

definition new_for :: "expr list \<Rightarrow> expr \<Rightarrow> bool" where
  "new_for cs e \<longleftrightarrow> (\<forall>d \<in> nodes e. \<forall>c \<in> set cs. d \<in> nodes c \<longrightarrow> isConstantExpr d)"

lemma replace_inert:
  assumes "new_for cs (CmpExpr Eq l r)" "c \<in> set cs"
  shows "inert (ExprReplaceVisitor r l) c"
proof -
  have "r \<in> nodes (CmpExpr Eq l r)" using node_self by simp
  then have "d \<noteq> r \<or> isConstantExpr d" if "d \<in> nodes c" for d using assms that by (auto simp: new_for_def)
  then show ?thesis by (force simp: inert_def ExprReplaceVisitor_def)
qed

lemma rewrite_inert:
  assumes "\<forall>c \<in> set old. inert v c \<and> height c < visit_fuel cfg c" "distinct (done @ old)" "identity_visited vs"
  shows "\<exists>vs'. foldM (rewrite_one cfg add v) old (done, vs, ch) = Some (done @ old, vs', ch)"
  using assms
proof (induction old arbitrary: "done" vs)
  case (Cons c old)
  obtain vs1 where v: "visit (cm_cao cfg) (UseVisitorHash cfg) v (visit_fuel cfg c) c vs = Some (c, vs1)" "identity_visited vs1"
    using visit_inert [of v c "visit_fuel cfg c" vs "cm_cao cfg" "UseVisitorHash cfg"] Cons.prems(1,3) by auto
  have "rewrite_one cfg add v c (done, vs, ch) = Some (done @ [c], vs1, ch)"
    using v(1) Cons.prems(2) by (simp add: rewrite_one_def cs_insert_def)
  then show ?case using Cons.IH [of "done @ [c]" vs1] Cons.prems v(2) by simp
qed simp

lemma addConstraint_new:
  assumes new: "new_for cs e" and e: "\<not> isConstantExpr e" "\<And>l r. e \<noteq> BinaryExpr And l r"
    and fuel: "height e < visit_fuel cfg e" "\<forall>c \<in> set cs. height c < visit_fuel cfg c" "0 < add_fuel cfg"
    and d: "distinct cs"
  shows "addConstraint cfg e cs = Some (cs @ [e])"
proof -
  have "simplifyExpr cfg cs e = Some e"
    by (rule simplifyExpr_new [OF _ fuel(1)]) (use new in \<open>auto simp: new_for_def\<close>)
  moreover have n: "e \<notin> set cs" using new e(1) node_self by (auto simp: new_for_def)
  moreover have "addConstraintInternal cfg (add_fuel cfg) e cs = Some (cs @ [e])"
  proof (cases "\<exists>l r. e = CmpExpr Eq l r")
    case True
    then obtain l r where eq: "e = CmpExpr Eq l r" by blast
    have "\<exists>vs'. foldM (rewrite_one cfg (addConstraintInternal cfg (add_fuel cfg - 1)) (ExprReplaceVisitor r l)) cs ([], [], False)
        = Some ([] @ cs, vs', False)"
      by (rule rewrite_inert) (use replace_inert new eq fuel(2) d in \<open>auto simp: identity_visited_def\<close>)
    then have "rewriteConstraints cfg (addConstraintInternal cfg (add_fuel cfg - 1)) (ExprReplaceVisitor r l) cs = Some (cs, False)"
      by (auto simp: rewriteConstraints_def)
    then show ?thesis using fuel(3) n by (cases "add_fuel cfg") (simp_all add: eq cs_insert_def)
  next
    case False
    obtain k where k: "add_fuel cfg = Suc k" using fuel(3) by (cases "add_fuel cfg") simp_all
    show ?thesis unfolding k using addConstraintInternal_insert [OF e] False n by (simp add: cs_insert_def)
  qed
  ultimately show ?thesis by (simp add: addConstraint_def assert_that_def)
qed

section \<open>Properties\<close>

definition demo_cfg :: cm_config where
  "demo_cfg = \<lparr>cm_cao = False, UseVisitorHash = True, RewriteEqualities = True, visit_fuel = (\<lambda>e. Suc (height e)), add_fuel = 8\<rparr>"

definition demo_ts :: tsolver where
  "demo_ts = \<lparr>ts_impl = reference_solver, simplifyExprs = True, ts_config = demo_cfg\<rparr>"

lemma demo_cfg [simp]: "cm_cao demo_cfg = False" "visit_fuel demo_cfg e = Suc (height e)" "add_fuel demo_cfg = 8"
  by (simp_all add: demo_cfg_def)

lemma demo_answering: "answering demo_ts []"
proof -
  have "simplifyExpr demo_cfg [] e = Some e" for e by (rule simplifyExpr_new) simp_all
  then show ?thesis using ref.complete_solver_axioms wf_env_exists
    by (auto simp: answering_def demo_ts_def wf_constraints_def feasible_def holds_def)
qed







end
