(* ===== verification/Memory_Manager.thy ===== *)
theory Memory_Manager
  imports Expr_Props Bits
begin

unbundle bit_operations_syntax

text \<open>
  Memory objects (\<^verbatim>\<open>lib/Core/Memory.h\<close>) and their allocation (\<^verbatim>\<open>lib/Core/MemoryManager.cpp\<close>).
  Addresses and sizes are natural numbers; where the source computes on \<^verbatim>\<open>uint64_t\<close> or on
  pointers the reduction modulo \<open>2 ^ 64\<close> is written out.  The allocator of the C library is a
  parameter that returns an address, or 0 on failure; the options of the program are a record.
  \<open>pw\<close> is the pointer width of the program under test.
\<close>

section \<open>Memory objects\<close>

record mobj =
  mo_id :: nat
  address :: nat
  mo_size :: nat
  mo_name :: string
  isLocal :: bool
  isGlobal :: bool
  isFixed :: bool
  isUserSpecified :: bool
  alloc_site :: nat

definition wrap64 :: "nat \<Rightarrow> nat" where
  "wrap64 n = n mod 2 ^ 64"

text \<open>The size field is 32 bits wide.\<close>

definition MemoryObject :: "nat \<Rightarrow> nat \<Rightarrow> nat \<Rightarrow> bool \<Rightarrow> bool \<Rightarrow> bool \<Rightarrow> nat \<Rightarrow> mobj" where
  "MemoryObject counter addr sz loc glob fixed site =
     \<lparr>mo_id = counter mod 2 ^ 32, address = addr, mo_size = sz mod 2 ^ 32, mo_name = ''unnamed'', isLocal = loc, isGlobal = glob,
      isFixed = fixed, isUserSpecified = False, alloc_site = site\<rparr>"

definition setName :: "string \<Rightarrow> mobj \<Rightarrow> mobj" where
  "setName nm mo = mo\<lparr>mo_name := nm\<rparr>"

definition getBaseExpr :: "width \<Rightarrow> mobj \<Rightarrow> expr option" where
  "getBaseExpr pw mo = map_option ConstantExpr (ConstantExpr_create (of_nat (address mo)) pw)"

definition getSizeExpr :: "width \<Rightarrow> mobj \<Rightarrow> expr option" where
  "getSizeExpr pw mo = map_option ConstantExpr (ConstantExpr_create (of_nat (mo_size mo)) pw)"

definition getOffsetExpr :: "bool \<Rightarrow> width \<Rightarrow> mobj \<Rightarrow> expr \<Rightarrow> expr option" where
  "getOffsetExpr cao pw mo pointer = do { b \<leftarrow> getBaseExpr pw mo; SubExpr_create cao pointer b }"

definition getBoundsCheckOffset :: "bool \<Rightarrow> width \<Rightarrow> mobj \<Rightarrow> expr \<Rightarrow> expr option" where
  "getBoundsCheckOffset cao pw mo offset =
     (if mo_size mo = 0 then EqExpr_create cao offset (ConstantExpr (ConstantExpr_alloc 0 pw))
      else do { s \<leftarrow> getSizeExpr pw mo; UltExpr_create cao offset s })"

definition getBoundsCheckOffset_bytes :: "bool \<Rightarrow> width \<Rightarrow> mobj \<Rightarrow> expr \<Rightarrow> nat \<Rightarrow> expr option" where
  "getBoundsCheckOffset_bytes cao pw mo offset bytes =
     (if bytes \<le> mo_size mo
      then UltExpr_create cao offset (ConstantExpr (ConstantExpr_alloc (of_nat ((mo_size mo - bytes + 1) mod 2 ^ 32)) pw))
      else Some (ConstantExpr (APInt 1 0)))"

definition getBoundsCheckPointer :: "bool \<Rightarrow> width \<Rightarrow> mobj \<Rightarrow> expr \<Rightarrow> expr option" where
  "getBoundsCheckPointer cao pw mo pointer = do {
     offset \<leftarrow> getOffsetExpr cao pw mo pointer;
     getBoundsCheckOffset cao pw mo offset
   }"

definition getBoundsCheckPointer_bytes :: "bool \<Rightarrow> width \<Rightarrow> mobj \<Rightarrow> expr \<Rightarrow> nat \<Rightarrow> expr option" where
  "getBoundsCheckPointer_bytes cao pw mo pointer bytes = do {
     offset \<leftarrow> getOffsetExpr cao pw mo pointer;
     getBoundsCheckOffset_bytes cao pw mo offset bytes
   }"

section \<open>The memory manager\<close>

record mm_options =
  NullOnZeroMalloc :: bool
  DeterministicAllocation :: bool
  RedzoneSize :: nat
  pagesize :: nat

record memmgr =
  mm_objects :: "mobj list"
  mm_counter :: nat
  deterministicSpace :: nat
  nextFreeSlot :: nat
  spaceSize :: nat
  cacheAlignment :: nat
  allocations :: nat

text \<open>
  The constructor maps the space of deterministic allocation; \<^verbatim>\<open>mmap\<close> is a parameter that returns the
  address of the new mapping, or none.
\<close>

definition MemoryManager ::
  "mm_options \<Rightarrow> (nat \<Rightarrow> nat \<Rightarrow> nat option) \<Rightarrow> nat \<Rightarrow> nat \<Rightarrow> nat \<Rightarrow> memmgr option" where
  "MemoryManager opt mmap StartAddress AllocationSize cacheAlign = do {
     let spaceSz = AllocationSize * 1024 * 1024 mod 2 ^ 32;
     let m = \<lparr>mm_objects = [], mm_counter = 0, deterministicSpace = 0, nextFreeSlot = 0, spaceSize = spaceSz,
       cacheAlignment = cacheAlign, allocations = 0\<rparr>;
     (if DeterministicAllocation opt then do {
        newSpace \<leftarrow> mmap StartAddress spaceSz;
        assert_that (\<not> (StartAddress \<noteq> newSpace \<and> StartAddress \<noteq> 0));
        Some (m\<lparr>deterministicSpace := newSpace, nextFreeSlot := newSpace\<rparr>)
      } else Some m)
   }"

definition alignTo :: "nat \<Rightarrow> nat \<Rightarrow> nat" where
  "alignTo v a = wrap64 (v + a - 1) div a * a"

text \<open>The space from which deterministic allocation takes its memory.\<close>

definition take_space :: "mm_options \<Rightarrow> nat \<Rightarrow> nat \<Rightarrow> memmgr \<Rightarrow> nat \<times> memmgr" where
  "take_space opt alignment alloc_size m =
     (let addr = alignTo (wrap64 (nextFreeSlot m + alignment - 1)) alignment
      in if wrap64 (addr + alloc_size) < deterministicSpace m + spaceSize m
         then (addr, m\<lparr>nextFreeSlot := wrap64 (addr + alloc_size + RedzoneSize opt)\<rparr>)
         else (0, m))"

definition new_object :: "nat \<Rightarrow> nat \<Rightarrow> bool \<Rightarrow> bool \<Rightarrow> bool \<Rightarrow> nat \<Rightarrow> memmgr \<Rightarrow> mobj \<times> memmgr" where
  "new_object addr sz loc glob fixed site m =
     (let mo = MemoryObject (mm_counter m) addr sz loc glob fixed site
      in (mo, m\<lparr>mm_objects := mo # mm_objects m, mm_counter := Suc (mm_counter m), allocations := Suc (allocations m)\<rparr>))"

definition allocate ::
  "mm_options \<Rightarrow> (nat \<Rightarrow> nat \<Rightarrow> nat) \<Rightarrow> nat \<Rightarrow> bool \<Rightarrow> bool \<Rightarrow> nat \<Rightarrow> nat \<Rightarrow> memmgr \<Rightarrow> mobj option \<times> memmgr" where
  "allocate opt sys_alloc sz loc glob site alignment m =
     (if NullOnZeroMalloc opt \<and> sz = 0 \<or> \<not> isPowerOfTwo64 (of_nat alignment) then (None, m)
      else
        (let (addr, m) = (if DeterministicAllocation opt then take_space opt alignment (max sz 1) m
                          else (sys_alloc alignment sz, m))
         in if addr = 0 then (None, m)
            else (let (mo, m) = new_object addr sz loc glob False site m in (Some mo, m))))"

definition allocateFixed :: "nat \<Rightarrow> nat \<Rightarrow> nat \<Rightarrow> memmgr \<Rightarrow> mobj \<times> memmgr" where
  "allocateFixed addr sz site m = new_object addr sz False True True site m"

text \<open>
  The rounded size is computed in floating point in the source, which is exact below \<open>2 ^ 53\<close>.
\<close>

definition alloc_pages :: "nat \<Rightarrow> nat \<Rightarrow> nat" where
  "alloc_pages alignment totalSize = (totalSize + alignment - 1) div alignment * alignment"

definition place :: "nat \<Rightarrow> nat \<Rightarrow> bool \<Rightarrow> bool \<Rightarrow> nat \<Rightarrow> nat \<Rightarrow> mobj list \<times> memmgr \<Rightarrow> mobj list \<times> memmgr" where
  "place addr individualSz loc glob site objNo = (\<lambda>(objs, m).
     let (mo, m) = new_object (wrap64 (addr + objNo * individualSz)) individualSz loc glob (objNo > 0) site m
     in (objs @ [mo], m))"

definition allocateContiguous ::
  "mm_options \<Rightarrow> (nat \<Rightarrow> nat \<Rightarrow> nat) \<Rightarrow> nat \<Rightarrow> nat \<Rightarrow> bool \<Rightarrow> bool \<Rightarrow> nat \<Rightarrow> memmgr \<Rightarrow> (mobj list \<times> memmgr) option" where
  "allocateContiguous opt sys_alloc individualSz nObj loc glob site m = do {
     assert_that (nObj \<noteq> 0);
     assert_that (individualSz \<noteq> 0);
     let alignment = pagesize opt;
     let totalSize = wrap64 (individualSz * nObj);
     (if NullOnZeroMalloc opt \<and> totalSize = 0 then Some ([], m)
      else do {
        assert_that (DeterministicAllocation opt \<longrightarrow> totalSize \<le> alloc_pages alignment totalSize);
        let (addr, m) = (if DeterministicAllocation opt
                         then take_space opt alignment (alloc_pages alignment totalSize) m
                         else (sys_alloc alignment totalSize, m));
        Some (if addr = 0 then ([], m)
              else fold (place addr individualSz loc glob site) [0..<nObj] ([], m))
      })
   }"

definition markFreed :: "mobj \<Rightarrow> memmgr \<Rightarrow> memmgr" where
  "markFreed mo m = m\<lparr>mm_objects := removeAll mo (mm_objects m)\<rparr>"

definition getUsedDeterministicSize :: "memmgr \<Rightarrow> nat" where
  "getUsedDeterministicSize m = nextFreeSlot m - deterministicSpace m"

section \<open>Cache lines\<close>

definition getCacheAlignmentExpr :: "memmgr \<Rightarrow> width \<Rightarrow> expr option" where
  "getCacheAlignmentExpr m w = map_option ConstantExpr (ConstantExpr_create (of_nat (cacheAlignment m)) w)"

definition alignToCache :: "memmgr \<Rightarrow> u64 \<Rightarrow> u64" where
  "alignToCache m addr = addr AND NOT (of_nat (cacheAlignment m) - 1)"

definition alignToCache_expr :: "bool \<Rightarrow> memmgr \<Rightarrow> expr \<Rightarrow> expr option" where
  "alignToCache_expr cao m addr = do {
     let w = getWidth addr;
     alignment \<leftarrow> getCacheAlignmentExpr m w;
     one \<leftarrow> map_option ConstantExpr (ConstantExpr_create 1 w);
     d \<leftarrow> SubExpr_create cao alignment one;
     AndExpr_create addr (NotExpr_create d)
   }"

definition getSizeInCacheLines :: "memmgr \<Rightarrow> nat \<Rightarrow> nat" where
  "getSizeInCacheLines m sizeInBytes =
     (if sizeInBytes mod cacheAlignment m = 0 then sizeInBytes div cacheAlignment m
      else sizeInBytes div cacheAlignment m + 1)"

section \<open>Bounds checks\<close>

lemma unat_of_nat64: "n < 2 ^ 64 \<Longrightarrow> uint (of_nat n :: u64) = int n"
  by (simp add: uint_word_of_int take_bit_nat_eq_self unsigned_of_nat)

lemma const_create_ok:
  assumes "0 < w" "w \<le> 64" "n < 2 ^ w"
  shows "ConstantExpr_create (of_nat n) w = Some (APInt w (int n))" "ConstantExpr_alloc (of_nat n) w = APInt w (int n)"
proof -
  have "n < 2 ^ 64" using assms(2,3) power_increasing [of w 64 "2::nat"] by simp
  then show "ConstantExpr_create (of_nat n) w = Some (APInt w (int n))" "ConstantExpr_alloc (of_nat n) w = APInt w (int n)"
    using assms unat_of_nat64 [of n] by (simp_all add: ConstantExpr_create_def ConstantExpr_alloc_def ap_mk_def take_bit_int_eq_self)
qed

text \<open>An object as the allocator makes it: a 32-bit size and an address of the pointer width.\<close>

definition wf_mobj :: "width \<Rightarrow> mobj \<Rightarrow> bool" where
  "wf_mobj pw mo \<longleftrightarrow> 32 \<le> pw \<and> pw \<le> 64 \<and> mo_size mo < 2 ^ 32 \<and> address mo < 2 ^ pw"

lemma wf_mobjD:
  assumes "wf_mobj pw mo"
  shows "0 < pw" "pw \<le> 64" "mo_size mo < 2 ^ pw" "address mo < 2 ^ pw"
proof -
  have "(2::nat) ^ 32 \<le> 2 ^ pw" using assms power_increasing [of 32 pw "2::nat"] by (simp add: wf_mobj_def)
  then show "0 < pw" "pw \<le> 64" "mo_size mo < 2 ^ pw" "address mo < 2 ^ pw" using assms by (auto simp: wf_mobj_def)
qed

lemma getBoundsCheckOffset_ok:
  assumes "wf_mobj pw mo" "denotes A offset pw f"
  shows "ok (getBoundsCheckOffset False pw mo offset)
    (\<lambda>e. denotes A e 1 (\<lambda>\<sigma>. of_bool (f \<sigma> < int (max 1 (mo_size mo)))))"
proof (cases "mo_size mo = 0")
  case True
  note w = wf_mobjD [OF assms(1)]
  have nn: "0 \<le> f \<sigma>" if "wf_env \<sigma>" "A \<sigma>" for \<sigma> using denotesD(5) [OF assms(2), of \<sigma>] that by (simp add: in_width_def)
  have "ok (EqExpr_create False offset (ConstantExpr (APInt pw 0))) (\<lambda>e. denotes A e 1 (\<lambda>\<sigma>. of_bool (f \<sigma> = 0)))"
    using EqExpr_create_ok [OF assms(2), of "ConstantExpr (APInt pw 0)" "\<lambda>_. 0" False] w(1) by simp
  then have "ok (EqExpr_create False offset (ConstantExpr (APInt pw 0))) (\<lambda>e. denotes A e 1 (\<lambda>\<sigma>. of_bool (f \<sigma> < 1)))"
    by (rule ok_denotes_cong) (use nn in force)
  then show ?thesis using True const_create_ok(2) [of pw 0] w by (simp add: getBoundsCheckOffset_def)
next
  case False
  note w = wf_mobjD [OF assms(1)]
  have "denotes A (ConstantExpr (APInt pw (int (mo_size mo)))) pw (\<lambda>_. int (mo_size mo))"
    using w by (simp add: in_width_def)
  from UltExpr_create_ok [OF assms(2) this] show ?thesis
    using False const_create_ok(1) [OF w(1-3)] by (simp add: getBoundsCheckOffset_def getSizeExpr_def max_def)
qed

lemma getBoundsCheckOffset_bytes_ok:
  assumes "wf_mobj pw mo" "denotes A offset pw f" "0 < bytes"
  shows "ok (getBoundsCheckOffset_bytes False pw mo offset bytes)
    (\<lambda>e. denotes A e 1 (\<lambda>\<sigma>. of_bool (f \<sigma> + int bytes \<le> int (mo_size mo))))"
proof (cases "bytes \<le> mo_size mo")
  case True
  note w = wf_mobjD [OF assms(1)]
  have s: "mo_size mo < 2 ^ 32" using assms(1) by (simp add: wf_mobj_def)
  have b: "mo_size mo - bytes + 1 < 2 ^ pw" "(mo_size mo - bytes + 1) mod 2 ^ 32 = mo_size mo - bytes + 1"
    using w(3) s assms(3) True by simp_all
  have "denotes A (ConstantExpr (APInt pw (int (mo_size mo - bytes + 1)))) pw (\<lambda>_. int (mo_size mo - bytes + 1))"
    using w(1) b(1) by (simp add: in_width_def del: of_nat_add of_nat_Suc)
  from UltExpr_create_ok [OF assms(2) this]
  have "ok (UltExpr_create False offset (ConstantExpr (APInt pw (int (mo_size mo - bytes + 1)))))
      (\<lambda>e. denotes A e 1 (\<lambda>\<sigma>. of_bool (f \<sigma> + int bytes \<le> int (mo_size mo))))"
    by (rule ok_denotes_cong) (use True in \<open>auto simp: of_nat_diff\<close>)
  then show ?thesis using True const_create_ok(2) [OF w(1,2) b(1)] b(2) by (simp add: getBoundsCheckOffset_bytes_def)
next
  case False
  have nn: "0 \<le> f \<sigma>" if "wf_env \<sigma>" "A \<sigma>" for \<sigma> using denotesD(5) [OF assms(2), of \<sigma>] that by (simp add: in_width_def)
  show ?thesis using False nn by (force simp: getBoundsCheckOffset_bytes_def)
qed

lemma getOffsetExpr_ok:
  assumes "wf_mobj pw mo" "denotes A pointer pw f"
  shows "ok (getOffsetExpr False pw mo pointer) (\<lambda>e. denotes A e pw (\<lambda>\<sigma>. take_bit pw (f \<sigma> - int (address mo))))"
proof -
  note w = wf_mobjD [OF assms(1)]
  have "denotes A (ConstantExpr (APInt pw (int (address mo)))) pw (\<lambda>_. int (address mo))"
    using w by (simp add: in_width_def)
  from SubExpr_create_ok [OF assms(2) this] show ?thesis
    using const_create_ok(1) [OF w(1,2,4)] by (simp add: getOffsetExpr_def getBaseExpr_def)
qed

text \<open>An access of \<open>n\<close> bytes through a pointer is inside the object.\<close>

lemma pointer_in_object:
  assumes "0 \<le> p" "p < 2 ^ w" "a < 2 ^ w" "a + s \<le> 2 ^ w" "0 < n"
  shows "take_bit w (p - int a) + int n \<le> int s \<longleftrightarrow> int a \<le> p \<and> p + int n \<le> int (a + s)"
proof (cases "int a \<le> p")
  case True
  then have "take_bit w (p - int a) = p - int a" using assms by (simp add: take_bit_int_eq_self)
  then show ?thesis using True by auto
next
  case False
  have a: "int a < 2 ^ w" "int a + int s \<le> 2 ^ w" using assms(3,4) by (simp_all flip: of_nat_add)
  have "take_bit w (p - int a) = take_bit w (p - int a + 2 ^ w)" by (simp add: take_bit_eq_mod)
  also have "\<dots> = p - int a + 2 ^ w" using False assms(1) a(1) by (intro take_bit_int_eq_self) linarith+
  finally show ?thesis using False assms(1,5) a(2) by auto
qed

section \<open>Deterministic allocation\<close>

definition region :: "mobj \<Rightarrow> nat set" where
  "region mo = {address mo ..< address mo + max 1 (mo_size mo)}"

definition mm_inv :: "mm_options \<Rightarrow> memmgr \<Rightarrow> bool" where
  "mm_inv opt m \<longleftrightarrow> 0 < deterministicSpace m \<and> deterministicSpace m \<le> nextFreeSlot m \<and>
     nextFreeSlot m < deterministicSpace m + spaceSize m + RedzoneSize opt + 1 \<and>
     deterministicSpace m + spaceSize m + 2 * RedzoneSize opt + 2 ^ 34 \<le> 2 ^ 64 \<and>
     (\<forall>mo \<in> set (mm_objects m). deterministicSpace m \<le> address mo \<and>
        address mo + max 1 (mo_size mo) + RedzoneSize opt \<le> nextFreeSlot m \<and>
        address mo + max 1 (mo_size mo) < deterministicSpace m + spaceSize m) \<and>
     pairwise (\<lambda>a b. region a \<inter> region b = {}) (set (mm_objects m))"

lemma align_up:
  fixes v a :: nat
  assumes "0 < a"
  shows "v \<le> (v + a - 1) div a * a" "(v + a - 1) div a * a < v + a" "a dvd (v + a - 1) div a * a"
proof -
  have "(v + a - 1) div a * a + (v + a - 1) mod a = v + a - 1" "(v + a - 1) mod a < a" using assms by simp_all
  then show "v \<le> (v + a - 1) div a * a" "(v + a - 1) div a * a < v + a" using assms by linarith+
qed simp

lemma take_space_ok:
  assumes inv: "mm_inv opt m" and a: "0 < alignment" "alignment \<le> 2 ^ 32" and sz: "0 < sz" "sz \<le> 2 ^ 33"
    and r: "take_space opt alignment sz m = (addr, m')"
  shows "addr = 0 \<and> m' = m \<or>
    alignment dvd addr \<and> 0 < addr \<and> nextFreeSlot m \<le> addr \<and> addr + sz < deterministicSpace m + spaceSize m \<and>
    m' = m\<lparr>nextFreeSlot := addr + sz + RedzoneSize opt\<rparr>"
proof -
  let ?v = "nextFreeSlot m + alignment - 1"
  have b: "?v + alignment + sz + RedzoneSize opt < 2 ^ 64" "0 < nextFreeSlot m"
    using inv a sz by (auto simp: mm_inv_def)
  have w: "wrap64 ?v = ?v" "wrap64 (?v + alignment - 1) = ?v + alignment - 1" using b by (simp_all add: wrap64_def)
  have al: "alignTo (wrap64 ?v) alignment = (?v + alignment - 1) div alignment * alignment" unfolding alignTo_def w ..
  note up = align_up [OF a(1), of ?v]
  define addr' where "addr' = alignTo (wrap64 ?v) alignment"
  have ad: "alignment dvd addr'" "nextFreeSlot m \<le> addr'" "addr' < ?v + alignment"
    unfolding addr'_def al using up a(1) by auto
  then have "wrap64 (addr' + sz) = addr' + sz" "wrap64 (addr' + sz + RedzoneSize opt) = addr' + sz + RedzoneSize opt"
    using b by (simp_all add: wrap64_def)
  moreover have "(addr, m') = (if wrap64 (addr' + sz) < deterministicSpace m + spaceSize m
      then (addr', m\<lparr>nextFreeSlot := wrap64 (addr' + sz + RedzoneSize opt)\<rparr>) else (0, m))"
    unfolding r(1) [symmetric] take_space_def addr'_def Let_def ..
  ultimately show ?thesis using b(2) ad by (auto split: if_splits)
qed

lemma mm_inv_grow:
  assumes "mm_inv opt m" "nextFreeSlot m \<le> n" "n \<le> deterministicSpace m + spaceSize m + RedzoneSize opt"
  shows "mm_inv opt (m\<lparr>nextFreeSlot := n\<rparr>)"
  using assms by (auto simp: mm_inv_def)

lemma new_object_fields:
  assumes "new_object addr sz loc glob fixed site m = (mo, m')" "sz < 2 ^ 32"
  shows "address mo = addr" "mo_size mo = sz" "isFixed mo = fixed" "mm_objects m' = mo # mm_objects m"
    "nextFreeSlot m' = nextFreeSlot m" "deterministicSpace m' = deterministicSpace m" "spaceSize m' = spaceSize m"
  using assms by (auto simp: new_object_def MemoryObject_def Let_def)

text \<open>An object above all the others, below the next free slot, keeps the invariant.\<close>

lemma new_object_inv:
  assumes inv: "mm_inv opt m" and sz: "sz < 2 ^ 32" and addr: "deterministicSpace m \<le> addr"
    "\<And>x. x \<in> set (mm_objects m) \<Longrightarrow> address x + max 1 (mo_size x) \<le> addr"
    "addr + max 1 sz + RedzoneSize opt \<le> nextFreeSlot m" "addr + max 1 sz < deterministicSpace m + spaceSize m"
    and r: "new_object addr sz loc glob fixed site m = (mo, m')"
  shows "mm_inv opt m'"
proof -
  note f = new_object_fields [OF r sz]
  have "region x \<inter> region mo = {}" if "x \<in> set (mm_objects m)" for x
    using addr(2) [OF that] by (auto simp: region_def f)
  then have "pairwise (\<lambda>a b. region a \<inter> region b = {}) (set (mm_objects m'))"
    using inv by (auto simp: mm_inv_def pairwise_insert Int_commute f)
  then show ?thesis using inv addr by (auto simp: mm_inv_def f)
qed

lemma allocate_inv:
  assumes inv: "mm_inv opt m" and opt: "DeterministicAllocation opt" and b: "sz < 2 ^ 32" "alignment \<le> 2 ^ 32"
    and r: "allocate opt sys sz loc glob site alignment m = (res, m')"
  shows "mm_inv opt m' \<and> (case res of None \<Rightarrow> mm_objects m' = mm_objects m
    | Some mo \<Rightarrow> mm_objects m' = mo # mm_objects m \<and> mo_size mo = sz \<and> alignment dvd address mo)"
proof (cases "NullOnZeroMalloc opt \<and> sz = 0 \<or> \<not> isPowerOfTwo64 (of_nat alignment)")
  case True
  then show ?thesis using r inv by (auto simp: allocate_def)
next
  case False
  then have a: "0 < alignment" by (cases "alignment = 0") (auto simp: isPowerOfTwo64_def)
  obtain addr m1 where t: "take_space opt alignment (max sz 1) m = (addr, m1)" by force
  obtain mo m2 where n: "new_object addr sz loc glob False site m1 = (mo, m2)" by force
  have e: "(res, m') = (if addr = 0 then (None, m1) else (Some mo, m2))"
    using r False opt t n by (auto simp: allocate_def Let_def)
  note f = new_object_fields [OF n b(1)]
  have "0 < max sz 1" "max sz 1 \<le> 2 ^ 33" using b(1) by simp_all
  from take_space_ok [OF inv a b(2) this t] show ?thesis
  proof (elim disjE conjE)
    assume "addr = 0" "m1 = m"
    then show ?thesis using e inv by simp
  next
    assume h: "alignment dvd addr" "0 < addr" "nextFreeSlot m \<le> addr"
      "addr + max sz 1 < deterministicSpace m + spaceSize m" "m1 = m\<lparr>nextFreeSlot := addr + max sz 1 + RedzoneSize opt\<rparr>"
    have "mm_inv opt m1" using h mm_inv_grow [OF inv] by simp
    then have "mm_inv opt m2" by (rule new_object_inv [OF _ b(1) _ _ _ _ n]) (use h inv in \<open>auto simp: mm_inv_def max.commute\<close>)
    then show ?thesis using e h f by simp
  qed
qed

lemma place_objects:
  assumes inv: "mm_inv opt m" and sz: "0 < sz" "sz < 2 ^ 32" and addr: "deterministicSpace m \<le> addr"
    "\<And>x. x \<in> set (mm_objects m) \<Longrightarrow> address x + max 1 (mo_size x) \<le> addr"
  shows "addr + n * sz + RedzoneSize opt \<le> nextFreeSlot m \<Longrightarrow> addr + n * sz < deterministicSpace m + spaceSize m \<Longrightarrow>
    fold (place addr sz loc glob site) [0..<n] ([], m) = (objs, m') \<Longrightarrow>
    mm_inv opt m' \<and> mm_objects m' = rev objs @ mm_objects m \<and> map address objs = map (\<lambda>i. addr + i * sz) [0..<n] \<and>
    (\<forall>x \<in> set objs. mo_size x = sz) \<and> map isFixed objs = map (\<lambda>i. 0 < i) [0..<n] \<and>
    (\<forall>x \<in> set (mm_objects m'). address x + max 1 (mo_size x) \<le> addr + n * sz) \<and>
    nextFreeSlot m' = nextFreeSlot m \<and> deterministicSpace m' = deterministicSpace m \<and> spaceSize m' = spaceSize m"
proof (induction n arbitrary: objs m')
  case 0
  then show ?case using inv addr by simp
next
  case (Suc n)
  obtain objs1 m1 where f: "fold (place addr sz loc glob site) [0..<n] ([], m) = (objs1, m1)" by force
  note IH = Suc.IH [OF _ _ f]
  have small: "addr + n * sz < 2 ^ 64" using Suc.prems(2) inv by (auto simp: mm_inv_def)
  obtain mo m2 where n: "new_object (addr + n * sz) sz loc glob (0 < n) site m1 = (mo, m2)" by force
  have "place addr sz loc glob site n (objs1, m1) = (objs1 @ [mo], m2)"
    using n small by (simp add: place_def wrap64_def)
  then have e: "objs = objs1 @ [mo]" "m' = m2" using Suc.prems(3) f by simp_all
  have i: "mm_inv opt m1 \<and> mm_objects m1 = rev objs1 @ mm_objects m \<and> map address objs1 = map (\<lambda>i. addr + i * sz) [0..<n] \<and>
    (\<forall>x \<in> set objs1. mo_size x = sz) \<and> map isFixed objs1 = map (\<lambda>i. 0 < i) [0..<n] \<and>
    (\<forall>x \<in> set (mm_objects m1). address x + max 1 (mo_size x) \<le> addr + n * sz) \<and>
    nextFreeSlot m1 = nextFreeSlot m \<and> deterministicSpace m1 = deterministicSpace m \<and> spaceSize m1 = spaceSize m"
    by (rule IH) (use Suc.prems(1,2) in simp_all)
  have "mm_inv opt m2"
    by (rule new_object_inv [OF _ sz(2) _ _ _ _ n]) (use i addr(1) Suc.prems(1,2) sz in auto)
  moreover have "address x + max 1 (mo_size x) \<le> addr + Suc n * sz" if "x \<in> set (mm_objects m1)" for x
  proof -
    have "address x + max 1 (mo_size x) \<le> addr + n * sz" using i that by blast
    then show ?thesis by (simp add: trans_le_add2 add.left_commute)
  qed
  ultimately show ?case using i new_object_fields [OF n sz(2)] e sz(1) by auto
qed

lemma allocateContiguous_inv:
  assumes inv: "mm_inv opt m" and opt: "DeterministicAllocation opt" and sz: "0 < sz" "sz < 2 ^ 32" "0 < n" "n * sz \<le> 2 ^ 32"
    and pg: "0 < pagesize opt" "pagesize opt \<le> 2 ^ 32"
  shows "ok (allocateContiguous opt sys sz n loc glob site m) (\<lambda>(objs, m').
    mm_inv opt m' \<and> mm_objects m' = rev objs @ mm_objects m \<and>
    (objs \<noteq> [] \<longrightarrow> (\<exists>base. pagesize opt dvd base \<and> map address objs = map (\<lambda>i. base + i * sz) [0..<n] \<and>
       (\<forall>x \<in> set objs. mo_size x = sz))))"
proof -
  let ?sz = "alloc_pages (pagesize opt) (sz * n)"
  have t: "wrap64 (sz * n) = sz * n" using sz(4) by (simp add: wrap64_def mult.commute)
  have al: "sz * n \<le> ?sz" "?sz < sz * n + pagesize opt" unfolding alloc_pages_def using align_up [OF pg(1)] by auto
  moreover have "0 < sz * n" using sz by simp
  ultimately have b: "0 < ?sz" "?sz \<le> 2 ^ 33" using sz(4) pg(2) by (linarith, simp add: mult.commute)
  obtain addr m1 where ts: "take_space opt (pagesize opt) ?sz m = (addr, m1)" by force
  have e: "allocateContiguous opt sys sz n loc glob site m =
      Some (if addr = 0 then ([], m1) else fold (place addr sz loc glob site) [0..<n] ([], m1))"
    using sz opt ts t al(1) by (simp add: allocateContiguous_def assert_that_def Let_def)
  from take_space_ok [OF inv pg b ts] show ?thesis
  proof (elim disjE conjE)
    assume "addr = 0" "m1 = m"
    then show ?thesis using e inv by simp
  next
    assume h: "pagesize opt dvd addr" "0 < addr" "nextFreeSlot m \<le> addr"
      "addr + ?sz < deterministicSpace m + spaceSize m" "m1 = m\<lparr>nextFreeSlot := addr + ?sz + RedzoneSize opt\<rparr>"
    have i: "mm_inv opt m1" using h mm_inv_grow [OF inv] by simp
    obtain objs m2 where f: "fold (place addr sz loc glob site) [0..<n] ([], m1) = (objs, m2)" by force
    have old: "address x + max 1 (mo_size x) \<le> addr" if "x \<in> set (mm_objects m1)" for x
      using that inv h(3,5) by (auto simp: mm_inv_def)
    have le: "n * sz \<le> ?sz" using al(1) by (simp add: mult.commute)
    have bd: "deterministicSpace m1 \<le> addr" "addr + n * sz + RedzoneSize opt \<le> nextFreeSlot m1"
      "addr + n * sz < deterministicSpace m1 + spaceSize m1"
      using h(3-5) inv le by (simp_all add: mm_inv_def)
    from place_objects [OF i sz(1,2) bd(1) old bd(2,3) f] show ?thesis using e f h(1,2,5) by auto
  qed
qed

lemma markFreed_inv: "mm_inv opt m \<Longrightarrow> mm_inv opt (markFreed mo m)"
  by (auto simp: mm_inv_def markFreed_def pairwise_def)

section \<open>Cache lines\<close>

lemma getSizeInCacheLines_least:
  assumes "0 < cacheAlignment m"
  shows "getSizeInCacheLines m n = (LEAST k. n \<le> k * cacheAlignment m)"
proof (rule Least_equality [symmetric])
  have d: "n div cacheAlignment m * cacheAlignment m + n mod cacheAlignment m = n" "n mod cacheAlignment m < cacheAlignment m"
    using assms by simp_all
  then have "n \<le> cacheAlignment m + n div cacheAlignment m * cacheAlignment m" by linarith
  then show "n \<le> getSizeInCacheLines m n * cacheAlignment m" by (auto simp: getSizeInCacheLines_def)
  fix k assume k: "n \<le> k * cacheAlignment m"
  show "getSizeInCacheLines m n \<le> k"
  proof (cases "n mod cacheAlignment m = 0")
    case True
    then show ?thesis using d k assms by (auto simp: getSizeInCacheLines_def)
  next
    case False
    then have "n div cacheAlignment m * cacheAlignment m < k * cacheAlignment m" using d k by linarith
    then show ?thesis using False by (auto simp: getSizeInCacheLines_def)
  qed
qed

lemma offset_in_lines:
  assumes "0 < cacheAlignment m" "off < n"
  shows "off div cacheAlignment m < getSizeInCacheLines m n"
proof -
  have "n \<le> getSizeInCacheLines m n * cacheAlignment m"
    unfolding getSizeInCacheLines_least [OF assms(1)] by (rule LeastI [of _ n]) (use assms(1) in \<open>cases "cacheAlignment m"; simp\<close>)
  then show ?thesis using assms by (simp add: div_less_iff_less_mult)
qed

lemma not_mask_bit: "k < 64 \<Longrightarrow> bit (NOT (2 ^ k - 1) :: u64) i \<longleftrightarrow> k \<le> i \<and> i < 64"
  by (auto simp: bit_simps simp flip: mask_eq_exp_minus_1)

lemma alignToCache_floor:
  assumes "cacheAlignment m = 2 ^ k" "k < 64"
  shows "unat (alignToCache m addr) = unat addr div cacheAlignment m * cacheAlignment m"
proof -
  have c: "(of_nat (cacheAlignment m) :: u64) = 2 ^ k" by (simp add: assms(1))
  have "alignToCache m addr = push_bit k (drop_bit k addr)"
    by (rule bit_eqI) (auto simp: alignToCache_def c bit_simps simp flip: mask_eq_exp_minus_1)
  moreover have "unat addr div 2 ^ k * 2 ^ k < 2 ^ 64"
    by (rule le_less_trans [OF div_times_less_eq_dividend]) (use unsigned_less [of addr] in simp)
  ultimately show ?thesis
    by (simp add: assms(1) unat_drop_bit_eq unsigned_push_bit_eq push_bit_nat_def drop_bit_nat_def take_bit_nat_eq_self)
qed

lemma and_not_word:
  fixes x y :: int
  assumes "0 \<le> x" "x < 2 ^ 64"
  shows "x AND take_bit 64 (NOT (take_bit 64 y)) = uint (word_of_int x AND NOT (word_of_int y) :: u64)"
  by (rule bit_eqI) (auto simp: bit_simps)

lemma alignToCache_expr_ok:
  assumes "cacheAlignment m < 2 ^ 64" "denotes A addr 64 f"
  shows "ok (alignToCache_expr False m addr) (\<lambda>e. denotes A e 64 (\<lambda>\<sigma>. uint (alignToCache m (word_of_int (f \<sigma>)))))"
proof -
  let ?c = "ConstantExpr (APInt 64 (int (cacheAlignment m)))" and ?one = "ConstantExpr (APInt 64 1)"
  have w: "getWidth addr = 64" using assms(2) by (simp add: denotes_def)
  have cr: "getCacheAlignmentExpr m 64 = Some ?c" "ConstantExpr_create 1 64 = Some (APInt 64 1)"
    using const_create_ok(1) [of 64 "cacheAlignment m"] const_create_ok(1) [of 64 1] assms(1)
    by (simp_all add: getCacheAlignmentExpr_def)
  have d: "denotes A ?c 64 (\<lambda>_. int (cacheAlignment m))" "denotes A ?one 64 (\<lambda>_. 1)"
    using assms(1) by (simp_all add: in_width_def)
  from SubExpr_create_ok [OF d] obtain d where d: "SubExpr_create False ?c ?one = Some d"
    "denotes A d 64 (\<lambda>_. take_bit 64 (int (cacheAlignment m) - 1))" by (auto simp: ok_iff)
  have "denotes A (NotExpr_create d) 64 (\<lambda>_. take_bit 64 (NOT (take_bit 64 (int (cacheAlignment m) - 1))))"
    by (rule NotExpr_create_ok [OF d(2)])
  note nd = this
  have u: "x AND take_bit 64 (NOT (take_bit 64 (int (cacheAlignment m) - 1))) = uint (alignToCache m (word_of_int x))"
    if "0 \<le> x" "x < 2 ^ 64" for x
  proof -
    have c: "(of_nat (cacheAlignment m) - 1 :: u64) = word_of_int (int (cacheAlignment m) - 1)" by simp
    show ?thesis unfolding alignToCache_def c by (rule and_not_word [OF that])
  qed
  from AndExpr_create_ok [OF assms(2) nd]
  have "ok (AndExpr_create addr (NotExpr_create d))
      (\<lambda>e. denotes A e 64 (\<lambda>\<sigma>. f \<sigma> AND take_bit 64 (NOT (take_bit 64 (int (cacheAlignment m) - 1)))))" .
  then have "ok (AndExpr_create addr (NotExpr_create d)) (\<lambda>e. denotes A e 64 (\<lambda>\<sigma>. uint (alignToCache m (word_of_int (f \<sigma>)))))"
    by (rule ok_denotes_cong) (use u denotesD(5) [OF assms(2)] in \<open>simp add: in_width_def\<close>)
  then show ?thesis using w cr d(1) by (simp add: alignToCache_expr_def)
qed

section \<open>Sequences of operations\<close>

text \<open>
  One operation of the manager under deterministic allocation, with the requests that its clients
  make: the sizes fit the size field of an object, and alignments are at most \<open>2 ^ 32\<close>.
\<close>

inductive mm_step :: "mm_options \<Rightarrow> memmgr \<Rightarrow> memmgr \<Rightarrow> bool" for opt where
  allocate: "sz < 2 ^ 32 \<Longrightarrow> alignment \<le> 2 ^ 32 \<Longrightarrow> allocate opt sys sz loc glob site alignment m = (res, m') \<Longrightarrow>
    mm_step opt m m'"
| contiguous: "0 < sz \<Longrightarrow> sz < 2 ^ 32 \<Longrightarrow> 0 < n \<Longrightarrow> n * sz \<le> 2 ^ 32 \<Longrightarrow>
    allocateContiguous opt sys sz n loc glob site m = Some (objs, m') \<Longrightarrow> mm_step opt m m'"
| free: "mm_step opt m (markFreed mo m)"

lemma mm_step_inv:
  assumes "mm_step opt m m'" "mm_inv opt m" "DeterministicAllocation opt" "0 < pagesize opt" "pagesize opt \<le> 2 ^ 32"
  shows "mm_inv opt m'"
  using assms(1)
proof cases
  case (allocate sz alignment sys loc glob site res)
  from allocate_inv [OF assms(2,3) this] show ?thesis by simp
next
  case (contiguous sz n sys loc glob site objs)
  from allocateContiguous_inv [OF assms(2,3) contiguous(1-4) assms(4,5), of sys loc glob site] show ?thesis
    unfolding contiguous(5) by simp
next
  case (free mo)
  show ?thesis unfolding free by (rule markFreed_inv [OF assms(2)])
qed

lemma mm_steps_inv:
  assumes "(mm_step opt)\<^sup>*\<^sup>* m m'" "mm_inv opt m" "DeterministicAllocation opt" "0 < pagesize opt" "pagesize opt \<le> 2 ^ 32"
  shows "mm_inv opt m'"
  using assms(1)
proof induction
  case (step m1 m2)
  show ?case by (rule mm_step_inv [OF step.hyps(2) step.IH assms(3-5)])
qed (rule assms(2))

lemma mm_init_inv:
  assumes "MemoryManager opt mmap start mb line = Some m" "DeterministicAllocation opt"
    "\<And>a n sp. mmap a n = Some sp \<Longrightarrow> 0 < sp \<and> sp \<le> 2 ^ 63" "RedzoneSize opt < 2 ^ 32"
  shows "mm_inv opt m"
proof -
  define sz where "sz = mb * 1024 * 1024 mod (2::nat) ^ 32"
  obtain sp where sp: "mmap start sz = Some sp"
    "m = \<lparr>mm_objects = [], mm_counter = 0, deterministicSpace = sp, nextFreeSlot = sp, spaceSize = sz,
       cacheAlignment = line, allocations = 0\<rparr>"
    using assms(1,2) unfolding MemoryManager_def Let_def sz_def [symmetric] by (auto split: bind_splits)
  have "sz < 2 ^ 32" by (simp add: sz_def)
  then have "sp + sz + 2 * RedzoneSize opt + 2 ^ 34 \<le> 2 ^ 64" "0 < sp"
    using assms(3) [OF sp(1)] assms(4) by simp_all
  then show ?thesis unfolding sp(2) by (simp add: mm_inv_def)
qed

section \<open>Properties\<close>

definition demo_opt :: mm_options where
  "demo_opt = \<lparr>NullOnZeroMalloc = False, DeterministicAllocation = True, RedzoneSize = 10, pagesize = 4096\<rparr>"

definition demo_mm :: memmgr where
  "demo_mm = \<lparr>mm_objects = [], mm_counter = 0, deterministicSpace = 8192, nextFreeSlot = 8192, spaceSize = 104857600,
     cacheAlignment = 64, allocations = 0\<rparr>"

definition demo_mo :: mobj where
  "demo_mo = MemoryObject 0 8192 16 False False False 0"

definition demo_pointer :: expr where
  "demo_pointer = ZExtExpr demo_read 64"

lemma demo_pointer [simp]: "wt demo_pointer" "getWidth demo_pointer = 64"
  by (simp_all add: demo_pointer_def)

lemmas allocation_defs = allocate_def take_space_def new_object_def MemoryObject_def alignTo_def wrap64_def isPowerOfTwo64_def Let_def

text \<open>
  C14. The bounds check of an access of \<open>bytes\<close> bytes through a pointer never fails an assertion and is
  true in exactly the environments in which all the bytes accessed lie inside the object, also where
  the subtraction of the base address wraps around.
\<close>
theorem bounds_check_exact:
  assumes "wf_mobj pw mo" "address mo + mo_size mo \<le> 2 ^ pw" "0 < bytes" "wt pointer" "getWidth pointer = pw"
  shows "\<exists>e. getBoundsCheckPointer_bytes False pw mo pointer bytes = Some e \<and> wt e \<and> getWidth e = 1 \<and>
    (\<forall>\<sigma>. wf_env \<sigma> \<longrightarrow> eval \<sigma> e = of_bool (int (address mo) \<le> eval \<sigma> pointer \<and>
       eval \<sigma> pointer + int bytes \<le> int (address mo + mo_size mo)))"
proof (rule ok_denotes_ex)
  let ?T = "\<lambda>_ :: env. True"
  note w = wf_mobjD [OF assms(1)]
  have p: "denotes ?T pointer pw (\<lambda>\<sigma>. eval \<sigma> pointer)" using assms(4,5) by (simp add: denotes_def)
  obtain off where off: "getOffsetExpr False pw mo pointer = Some off"
    "denotes ?T off pw (\<lambda>\<sigma>. take_bit pw (eval \<sigma> pointer - int (address mo)))"
    using getOffsetExpr_ok [OF assms(1) p] by (auto simp: ok_iff)
  have "ok (getBoundsCheckOffset_bytes False pw mo off bytes) (\<lambda>e. denotes ?T e 1 (\<lambda>\<sigma>. of_bool
      (int (address mo) \<le> eval \<sigma> pointer \<and> eval \<sigma> pointer + int bytes \<le> int (address mo + mo_size mo))))"
    by (rule ok_denotes_cong [OF getBoundsCheckOffset_bytes_ok [OF assms(1) off(2) assms(3)]])
      (use pointer_in_object [OF _ _ w(4) assms(2,3)] denotesD(5) [OF p] in \<open>simp add: in_width_def\<close>)
  then show "ok (getBoundsCheckPointer_bytes False pw mo pointer bytes) (\<lambda>e. denotes ?T e 1 (\<lambda>\<sigma>. of_bool
      (int (address mo) \<le> eval \<sigma> pointer \<and> eval \<sigma> pointer + int bytes \<le> int (address mo + mo_size mo))))"
    using off(1) by (simp add: getBoundsCheckPointer_bytes_def)
qed

theorem bounds_check_exact_witness:
  "wf_mobj 64 demo_mo \<and> (\<exists>e. getBoundsCheckPointer_bytes False 64 demo_mo demo_pointer 4 = Some e \<and> wt e \<and>
     (\<forall>\<sigma>. wf_env \<sigma> \<longrightarrow> eval \<sigma> e = of_bool (8192 \<le> eval \<sigma> demo_pointer \<and> eval \<sigma> demo_pointer + 4 \<le> 8208)))"
  using bounds_check_exact [of 64 demo_mo 4 demo_pointer]
  by (auto simp: wf_mobj_def demo_mo_def MemoryObject_def)




text \<open>
  C31. The two forms of \<^verbatim>\<open>alignToCache\<close> agree: the expression built for an address has, in every
  environment, the value that the machine operation computes on the value of the address, which is
  the start of the cache line that contains it.
\<close>
theorem align_to_cache_equiv:
  assumes "cacheAlignment m = 2 ^ k" "k < 64" "wt addr" "getWidth addr = 64"
  shows "\<exists>e. alignToCache_expr False m addr = Some e \<and> wt e \<and> getWidth e = 64 \<and>
    (\<forall>\<sigma>. wf_env \<sigma> \<longrightarrow> eval \<sigma> e = uint (alignToCache m (word_of_int (eval \<sigma> addr))) \<and>
       eval \<sigma> e = eval \<sigma> addr div int (cacheAlignment m) * int (cacheAlignment m))"
proof -
  have "denotes (\<lambda>_. True) addr 64 (\<lambda>\<sigma>. eval \<sigma> addr)" using assms(3,4) by (simp add: denotes_def)
  note d = this
  have "cacheAlignment m < 2 ^ 64" using assms(2) power_strict_increasing [of k 64 "2::nat"] unfolding assms(1) by simp
  from ok_denotes_ex [OF alignToCache_expr_ok [OF this d]] obtain e where e: "alignToCache_expr False m addr = Some e"
    "wt e" "getWidth e = 64" "\<forall>\<sigma>. wf_env \<sigma> \<longrightarrow> eval \<sigma> e = uint (alignToCache m (word_of_int (eval \<sigma> addr)))" by blast
  have "uint (alignToCache m (word_of_int (eval \<sigma> addr))) = eval \<sigma> addr div int (cacheAlignment m) * int (cacheAlignment m)"
    if "wf_env \<sigma>" for \<sigma>
  proof -
    have v: "0 \<le> eval \<sigma> addr" "eval \<sigma> addr < 2 ^ 64" using denotesD(5) [OF d, of \<sigma>] that by (simp_all add: in_width_def)
    have "int (unat (alignToCache m (word_of_int (eval \<sigma> addr)))) = int (unat (word_of_int (eval \<sigma> addr) :: u64) div cacheAlignment m * cacheAlignment m)"
      unfolding alignToCache_floor [OF assms(1,2)] ..
    then show ?thesis using v by (simp add: of_nat_div uint_word_of_int_eq take_bit_int_eq_self)
  qed
  then show ?thesis using e by auto
qed

theorem align_to_cache_equiv_witness:
  "\<exists>e. alignToCache_expr False demo_mm demo_pointer = Some e \<and>
    (\<forall>\<sigma>. wf_env \<sigma> \<longrightarrow> eval \<sigma> e = uint (alignToCache demo_mm (word_of_int (eval \<sigma> demo_pointer))))"
  using align_to_cache_equiv [of demo_mm 6 demo_pointer] by (auto simp: demo_mm_def)

end
