(* ===== verification/Persistent_State.thy ===== *)
theory Persistent_State
  imports Object_State Root_Cause Timing_Solver Memory_Manager
begin

text \<open>
  \<^verbatim>\<open>PersistentState\<close> of \<^verbatim>\<open>lib/Core/Memory.cpp\<close>: the contents of an object in persistent memory and, for
  each of its cache lines, whether the last write to it is persisted and which program location
  made it, as update lists over two constant arrays; and the handlers of
  \<^verbatim>\<open>lib/Core/Executor.cpp\<close> for flushes, fences and the final check.  The methods take what they use
  of the executor as a context, and the parts of the execution state that they read or change as a
  second state.
\<close>

section \<open>State\<close>

record pstate =
  ps_os :: objstate
  ps_object :: mobj
  cacheLineUpdates :: ulist
  pendingCacheLineUpdates :: ulist
  idxUnbounded :: expr
  rootCauseWrites :: ulist
  pendingRootCauseWrites :: ulist
  rootCauseFlushes :: ulist
  pendingRootCauseFlushes :: ulist
  rootCauseWidth :: width
  ignoreBytes :: "expr list"

text \<open>The solver, the pointer width of the program, the memory manager and the hash functions of the library.\<close>

record pctx =
  pc_solver :: tsolver
  pc_pointerWidth :: width
  pc_parent :: memmgr
  pc_hash_str :: "string \<Rightarrow> u64"
  pc_hash_int :: "u64 \<Rightarrow> u64"

record xstate =
  x_constraints :: "expr list"
  x_arrayNames :: "string list"
  x_prevPC :: nat
  x_view :: exec_view
  x_rootCauseMgr :: manager

abbreviation pc_cao :: "pctx \<Rightarrow> bool" where
  "pc_cao ctx \<equiv> cm_cao (ts_config (pc_solver ctx))"

definition getPersistedExpr :: apint where
  "getPersistedExpr = APInt 8 1"

definition getDirtyExpr :: apint where
  "getDirtyExpr = APInt 8 0"

definition getNullptr :: apint where
  "getNullptr = APInt 64 0"

definition ptrAsExpr :: "nat \<Rightarrow> apint option" where
  "ptrAsExpr ptr = (if ptr = 0 then Some getNullptr else ConstantExpr_create (of_nat ptr) 64)"

definition cacheLineSize :: "pctx \<Rightarrow> nat" where
  "cacheLineSize ctx = cacheAlignment (pc_parent ctx)"

definition numCacheLines :: "pctx \<Rightarrow> pstate \<Rightarrow> nat" where
  "numCacheLines ctx ps = getSizeInCacheLines (pc_parent ctx) (os_size (ps_os ps))"

definition getCacheLine :: "pctx \<Rightarrow> expr \<Rightarrow> expr option" where
  "getCacheLine ctx offset = do {
     cacheLineSizeExpr \<leftarrow> ConstantExpr_create (of_nat (cacheLineSize ctx)) (getWidth offset);
     cacheLineOffset \<leftarrow> UDivExpr_create offset (ConstantExpr cacheLineSizeExpr);
     ZExtExpr_create cacheLineOffset 32
   }"

section \<open>Construction\<close>

definition getUniqueArrayName :: "mobj \<Rightarrow> string \<Rightarrow> xstate \<Rightarrow> (string \<times> xstate) option" where
  "getUniqueArrayName mo suffix x = do {
     let arrayName = mo_name mo @ suffix;
     assert_that (arrayName \<notin> set (x_arrayNames x));
     Some (arrayName, x\<lparr>x_arrayNames := arrayName # x_arrayNames x\<rparr>)
   }"

text \<open>An array of constants, one for each cache line, as root of an update list.\<close>

definition lineArray :: "mobj \<Rightarrow> string \<Rightarrow> nat \<Rightarrow> apint \<Rightarrow> width \<Rightarrow> heap \<times> xstate \<Rightarrow> (ulist \<times> heap \<times> xstate) option" where
  "lineArray mo suffix sz init ranw s = do {
     let (h, x) = s;
     assert_that (0 < sz);
     (name, x) \<leftarrow> getUniqueArrayName mo suffix x;
     (a, c) \<leftarrow> CreateArray (arrays h) name sz (replicate sz init) 32 ranw;
     Some ((a, NullNode), h\<lparr>arrays := c\<rparr>, x)
   }"

definition PersistentState_new ::
  "pctx \<Rightarrow> mobj \<Rightarrow> objstate \<Rightarrow> heap \<times> xstate \<Rightarrow> (pstate \<times> heap \<times> xstate) option" where
  "PersistentState_new ctx mo os s = do {
     os \<leftarrow> ObjectState_clone os;
     let sz = getSizeInCacheLines (pc_parent ctx) (mo_size mo);
     (cacheLines, s) \<leftarrow> lineArray mo ''_cacheLines'' sz getPersistedExpr 8 s;
     (rootWrites, s) \<leftarrow> lineArray mo ''_rootCauseWrites'' sz getNullptr 64 s;
     (rootFlushes, h, x) \<leftarrow> lineArray mo ''_rootCauseFlushes'' sz getNullptr 64 s;
     (idxArrayName, x) \<leftarrow> getUniqueArrayName mo ''_idx'' x;
     (idxArray, c) \<leftarrow> CreateArray (arrays h) idxArrayName 1 [] 32 32;
     zero \<leftarrow> ConstantExpr_create 0 (arr_range idxArray);
     idx \<leftarrow> ReadExpr_create (pc_cao ctx) (idxArray, NullNode) (ConstantExpr zero);
     Some (\<lparr>ps_os = os, ps_object = mo, cacheLineUpdates = cacheLines, pendingCacheLineUpdates = cacheLines,
       idxUnbounded = idx, rootCauseWrites = rootWrites, pendingRootCauseWrites = rootWrites,
       rootCauseFlushes = rootFlushes, pendingRootCauseFlushes = rootFlushes, rootCauseWidth = 64,
       ignoreBytes = []\<rparr>, h\<lparr>arrays := c\<rparr>, x)
   }"

text \<open>The copy constructor does not copy the list of ignored bytes.\<close>

definition PersistentState_clone :: "pstate \<Rightarrow> pstate option" where
  "PersistentState_clone ps = do {
     os \<leftarrow> ObjectState_clone (ps_os ps);
     Some (ps\<lparr>ps_os := os, ignoreBytes := []\<rparr>)
   }"

section \<open>Ignored bytes\<close>

definition addIgnoreByte :: "expr \<Rightarrow> pstate \<Rightarrow> pstate" where
  "addIgnoreByte offset ps = ps\<lparr>ignoreBytes := ignoreBytes ps @ [offset]\<rparr>"

definition addIgnoreOffset :: "pctx \<Rightarrow> expr \<Rightarrow> nat \<Rightarrow> pstate \<Rightarrow> pstate option" where
  "addIgnoreOffset ctx offset width ps =
     foldM (\<lambda>byte ps. do {
         add \<leftarrow> ConstantExpr_create (of_nat byte) (getWidth offset);
         o' \<leftarrow> AddExpr_create (pc_cao ctx) offset (ConstantExpr add);
         Some (addIgnoreByte o' ps)
       }) [0..<width div 8] ps"

text \<open>The last entry of an empty list is undefined.\<close>

definition removeIgnoreByte :: "pctx \<Rightarrow> xstate \<Rightarrow> expr \<Rightarrow> pstate \<Rightarrow> pstate option" where
  "removeIgnoreByte ctx x offset ps = do {
     assert_that (ignoreBytes ps \<noteq> []);
     let back = last (ignoreBytes ps);
     eq \<leftarrow> EqExpr_create (pc_cao ctx) back offset;
     isEq \<leftarrow> must_succeed (TimingSolver_mustBeTrue (pc_solver ctx) (x_constraints x) eq);
     assert_that isEq;
     Some (ps\<lparr>ignoreBytes := butlast (ignoreBytes ps)\<rparr>)
   }"

text \<open>The condition \<^verbatim>\<open>byte >= 0\<close> of the loop is true of every unsigned number.\<close>

partial_function (option) removeIgnore_loop :: "pctx \<Rightarrow> xstate \<Rightarrow> expr \<Rightarrow> u64 \<Rightarrow> pstate \<Rightarrow> pstate option" where
  "removeIgnore_loop ctx x offset byte ps =
     (if 0 \<le> byte then do {
        add \<leftarrow> ConstantExpr_create byte (getWidth offset);
        o' \<leftarrow> AddExpr_create (pc_cao ctx) offset (ConstantExpr add);
        ps \<leftarrow> removeIgnoreByte ctx x o' ps;
        removeIgnore_loop ctx x offset (byte - 1) ps
      } else Some ps)"

definition removeIgnoreOffset :: "pctx \<Rightarrow> xstate \<Rightarrow> expr \<Rightarrow> nat \<Rightarrow> pstate \<Rightarrow> pstate option" where
  "removeIgnoreOffset ctx x offset width ps = removeIgnore_loop ctx x offset (of_nat (width div 8) - 1) ps"

primrec isIgnored :: "pctx \<Rightarrow> xstate \<Rightarrow> expr \<Rightarrow> expr list \<Rightarrow> bool option" where
  "isIgnored ctx x offset [] = Some False"
| "isIgnored ctx x offset (i # is) = do {
     z \<leftarrow> ZExtExpr_create offset (pc_pointerWidth ctx);
     eq \<leftarrow> EqExpr_create (pc_cao ctx) i z;
     isEq \<leftarrow> must_succeed (TimingSolver_mustBeTrue (pc_solver ctx) (x_constraints x) eq);
     (if isEq then Some True else isIgnored ctx x offset is)
   }"

section \<open>Root causes\<close>

definition createRootCauseIdExpr :: "pctx \<Rightarrow> pstate \<Rightarrow> RootCauseReason \<Rightarrow> xstate \<Rightarrow> (apint \<times> xstate) option" where
  "createRootCauseIdExpr ctx ps r x = do {
     (i, m) \<leftarrow> getRootCauseLocationID (pc_hash_str ctx) (pc_hash_int ctx) (x_view x) (alloc_site (ps_object ps)) (x_prevPC x) r
       (x_rootCauseMgr x);
     c \<leftarrow> ConstantExpr_create i (rootCauseWidth ps);
     Some (c, x\<lparr>x_rootCauseMgr := m\<rparr>)
   }"

definition createRootCauseIdExpr_masking ::
  "pctx \<Rightarrow> pstate \<Rightarrow> RootCauseReason \<Rightarrow> u64 list \<Rightarrow> xstate \<Rightarrow> (apint \<times> xstate) option" where
  "createRootCauseIdExpr_masking ctx ps r prev x = do {
     (i, m) \<leftarrow> getRootCauseLocationID_masking (pc_hash_str ctx) (pc_hash_int ctx) (x_view x) (alloc_site (ps_object ps)) (x_prevPC x) r
       prev (x_rootCauseMgr x);
     c \<leftarrow> ConstantExpr_create i (rootCauseWidth ps);
     Some (c, x\<lparr>x_rootCauseMgr := m\<rparr>)
   }"

definition addIfCause :: "pctx \<Rightarrow> pstate \<Rightarrow> expr list \<Rightarrow> expr \<Rightarrow> nat \<Rightarrow> u64 list \<Rightarrow> u64 list option" where
  "addIfCause ctx ps cs result i causes = do {
     c \<leftarrow> ConstantExpr_create (of_nat i) (rootCauseWidth ps);
     eqId \<leftarrow> EqExpr_create (pc_cao ctx) (ConstantExpr c) result;
     mayBeCause \<leftarrow> must_succeed (TimingSolver_mayBeTrue (pc_solver ctx) cs eqId);
     Some (if mayBeCause then causes @ [of_nat i] else causes)
   }"

text \<open>The loop over the range does not end if its upper bound is the largest number.\<close>

definition causesInRange :: "pctx \<Rightarrow> pstate \<Rightarrow> expr list \<Rightarrow> expr \<Rightarrow> nat \<Rightarrow> nat \<Rightarrow> u64 list option" where
  "causesInRange ctx ps cs result loVal hiVal =
     (if loVal = 0 \<and> hiVal = 0 then Some []
      else do {
        let loVal = (if loVal = 0 then 1 else loVal);
        assert_that (loVal \<le> hiVal);
        (if loVal = hiVal then Some [of_nat loVal]
         else do {
           assert_that (hiVal \<noteq> 2 ^ 64 - 1);
           foldM (addIfCause ctx ps cs result) [loVal..<Suc hiVal] []
         })
      })"

definition getRootCause :: "pctx \<Rightarrow> pstate \<Rightarrow> expr list \<Rightarrow> ulist \<Rightarrow> expr \<Rightarrow> u64 list option" where
  "getRootCause ctx ps cs ul cacheLine = do {
     i \<leftarrow> ZExtExpr_create cacheLine 32;
     result \<leftarrow> ReadExpr_create (pc_cao ctx) ul i;
     (rlo, rhi) \<leftarrow> TimingSolver_getRange (pc_solver ctx) cs result;
     lo \<leftarrow> as_const rlo;
     hi \<leftarrow> as_const rhi;
     loVal \<leftarrow> ConstantExpr_getZExtValue lo 64;
     hiVal \<leftarrow> ConstantExpr_getZExtValue hi 64;
     causesInRange ctx ps cs result (unat loVal) (unat hiVal)
   }"

section \<open>Writes, flushes and fences\<close>

definition getAnyOffsetExpr :: "pctx \<Rightarrow> pstate \<Rightarrow> expr option" where
  "getAnyOffsetExpr ctx ps = ZExtExpr_create (idxUnbounded ps) (pc_pointerWidth ctx)"

definition isUpdateListHeadEqualTo :: "ulist \<Rightarrow> expr \<Rightarrow> expr \<Rightarrow> bool" where
  "isUpdateListHeadEqualTo updates index v =
     (case snd updates of NullNode \<Rightarrow> False | UpdateNode nx i w \<Rightarrow> i = index \<and> w = v)"

text \<open>The locations of the writes that a new write to the line replaces.\<close>

definition previousWrites :: "pctx \<Rightarrow> expr \<Rightarrow> pstate \<times> xstate \<Rightarrow> (u64 list \<times> xstate) option" where
  "previousWrites ctx cacheLine s = do {
     let (ps, x) = s;
     idx \<leftarrow> getAnyOffsetExpr ctx ps;
     inBoundsConstraint \<leftarrow> getBoundsCheckOffset (pc_cao ctx) (pc_pointerWidth ctx) (ps_object ps) idx;
     cs \<leftarrow> addConstraint (ts_config (pc_solver ctx)) inBoundsConstraint (x_constraints x);
     prevWrites \<leftarrow> getRootCause ctx ps cs (pendingRootCauseWrites ps) cacheLine;
     Some (prevWrites, x\<lparr>x_constraints := removeConstraint inBoundsConstraint cs\<rparr>)
   }"

definition recordWrite :: "expr \<Rightarrow> apint \<Rightarrow> pstate \<Rightarrow> pstate option" where
  "recordWrite cacheLine rootCauseExpr ps = do {
     ps \<leftarrow> (if \<not> isUpdateListHeadEqualTo (pendingCacheLineUpdates ps) cacheLine (ConstantExpr getDirtyExpr) then do {
         u \<leftarrow> UpdateList_extend (cacheLineUpdates ps) cacheLine (ConstantExpr getDirtyExpr);
         p \<leftarrow> UpdateList_extend (pendingCacheLineUpdates ps) cacheLine (ConstantExpr getDirtyExpr);
         Some (ps\<lparr>cacheLineUpdates := u, pendingCacheLineUpdates := p\<rparr>)
       } else Some ps);
     w \<leftarrow> UpdateList_extend (rootCauseWrites ps) cacheLine (ConstantExpr rootCauseExpr);
     p \<leftarrow> UpdateList_extend (pendingRootCauseWrites ps) cacheLine (ConstantExpr rootCauseExpr);
     Some (ps\<lparr>rootCauseWrites := w, pendingRootCauseWrites := p\<rparr>)
   }"

definition dirtyCacheLineAtOffset :: "pctx \<Rightarrow> expr \<Rightarrow> pstate \<times> xstate \<Rightarrow> (pstate \<times> xstate) option" where
  "dirtyCacheLineAtOffset ctx offset s = do {
     let (ps, x) = s;
     ignored \<leftarrow> isIgnored ctx x offset (ignoreBytes ps);
     (if ignored then Some (ps, x)
      else do {
        cacheLine \<leftarrow> getCacheLine ctx offset;
        (prevWrites, x) \<leftarrow> previousWrites ctx cacheLine (ps, x);
        (rootCauseExpr, x) \<leftarrow> createRootCauseIdExpr_masking ctx ps PM_Unpersisted prevWrites x;
        ps \<leftarrow> recordWrite cacheLine rootCauseExpr ps;
        Some (ps, x)
      })
   }"

definition recordFlush :: "expr \<Rightarrow> apint \<Rightarrow> pstate \<Rightarrow> pstate option" where
  "recordFlush cacheLine rootCauseExpr ps = do {
     f \<leftarrow> UpdateList_extend (rootCauseFlushes ps) cacheLine (ConstantExpr rootCauseExpr);
     pf \<leftarrow> UpdateList_extend (pendingRootCauseFlushes ps) cacheLine (ConstantExpr rootCauseExpr);
     pw \<leftarrow> UpdateList_extend (pendingRootCauseWrites ps) cacheLine (ConstantExpr getNullptr);
     Some (ps\<lparr>rootCauseFlushes := f, pendingRootCauseFlushes := pf, pendingRootCauseWrites := pw\<rparr>)
   }"

definition persistCacheLineAtOffset :: "pctx \<Rightarrow> expr \<Rightarrow> pstate \<times> xstate \<Rightarrow> (pstate \<times> xstate) option" where
  "persistCacheLineAtOffset ctx offset s = do {
     let (ps, x) = s;
     cacheLine \<leftarrow> getCacheLine ctx offset;
     p \<leftarrow> UpdateList_extend (pendingCacheLineUpdates ps) cacheLine (ConstantExpr getPersistedExpr);
     let ps = ps\<lparr>pendingCacheLineUpdates := p\<rparr>;
     (rootCauseExpr, x) \<leftarrow> createRootCauseIdExpr ctx ps PM_UnnecessaryFlush x;
     ps \<leftarrow> recordFlush cacheLine rootCauseExpr ps;
     Some (ps, x)
   }"

definition commitPendingPersists :: "pstate \<Rightarrow> bool \<times> pstate" where
  "commitPendingPersists ps =
     (let prevSz = UpdateList_getSize (cacheLineUpdates ps);
          ps = ps\<lparr>cacheLineUpdates := pendingCacheLineUpdates ps, rootCauseWrites := pendingRootCauseWrites ps,
                  pendingRootCauseFlushes := (fst (pendingRootCauseFlushes ps), NullNode)\<rparr>
      in (prevSz \<noteq> UpdateList_getSize (cacheLineUpdates ps), ps))"

definition flushAll :: "pstate \<times> xstate \<Rightarrow> pstate \<times> xstate" where
  "flushAll s = (let (ps, x) = s in
     (ps\<lparr>rootCauseWrites := (fst (rootCauseWrites ps), NullNode),
         pendingRootCauseWrites := (fst (pendingRootCauseWrites ps), NullNode),
         cacheLineUpdates := (fst (cacheLineUpdates ps), NullNode)\<rparr>,
      x\<lparr>x_rootCauseMgr := clear (x_rootCauseMgr x)\<rparr>))"

section \<open>Queries\<close>

definition isCacheLinePersisted :: "pctx \<Rightarrow> pstate \<Rightarrow> expr \<Rightarrow> bool \<Rightarrow> expr option" where
  "isCacheLinePersisted ctx ps cacheLine pending =
     (let updateList = (if pending then pendingCacheLineUpdates ps else cacheLineUpdates ps)
      in if snd updateList = NullNode then map_option ConstantExpr (ConstantExpr_create 1 1)
         else do {
           i \<leftarrow> ZExtExpr_create cacheLine 32;
           result \<leftarrow> ReadExpr_create (pc_cao ctx) updateList i;
           EqExpr_create (pc_cao ctx) result (ConstantExpr getPersistedExpr)
         })"

definition getIsOffsetPersistedExpr :: "pctx \<Rightarrow> pstate \<Rightarrow> expr \<Rightarrow> bool \<Rightarrow> expr option" where
  "getIsOffsetPersistedExpr ctx ps offset pending = do {
     cl \<leftarrow> getCacheLine ctx offset;
     isCacheLinePersisted ctx ps cl pending
   }"

definition causesOfLine :: "pctx \<Rightarrow> xstate \<Rightarrow> pstate \<Rightarrow> nat \<Rightarrow> u64 list \<Rightarrow> u64 list option" where
  "causesOfLine ctx x ps cl causes = do {
     e \<leftarrow> isCacheLinePersisted ctx ps (const32 cl) False;
     res \<leftarrow> must_succeed (TimingSolver_mustBeTrue (pc_solver ctx) (x_constraints x) e);
     (if res then Some causes
      else do {
        ids \<leftarrow> getRootCause ctx ps (x_constraints x) (rootCauseWrites ps) (const32 cl);
        foldM (\<lambda>i causes. do { assert_that (i > 0); Some (List.insert i causes) }) ids causes
      })
   }"

definition getRootCauses :: "pctx \<Rightarrow> xstate \<Rightarrow> pstate \<Rightarrow> ulist \<Rightarrow> u64 list option" where
  "getRootCauses ctx x ps ul =
     (if snd ul = NullNode then Some []
      else foldM (causesOfLine ctx x ps) [0..<numCacheLines ctx ps] [])"

definition markNonPersistedWritesAsBugs :: "pctx \<Rightarrow> pstate \<times> xstate \<Rightarrow> (u64 list \<times> xstate) option" where
  "markNonPersistedWritesAsBugs ctx s = do {
     let (ps, x) = s;
     errs \<leftarrow> getRootCauses ctx x ps (rootCauseWrites ps);
     assert_that (errs \<noteq> []);
     m \<leftarrow> foldM markAsBug errs (x_rootCauseMgr x);
     Some (errs, x\<lparr>x_rootCauseMgr := m\<rparr>)
   }"

definition markFlushAsBug :: "pctx \<Rightarrow> expr \<Rightarrow> pstate \<times> xstate \<Rightarrow> (u64 \<times> xstate) option" where
  "markFlushAsBug ctx offset s = do {
     let (ps, x) = s;
     cl \<leftarrow> getCacheLine ctx offset;
     errs \<leftarrow> getRootCause ctx ps (x_constraints x) (rootCauseFlushes ps) cl;
     (i, m) \<leftarrow> getRootCauseLocationID (pc_hash_str ctx) (pc_hash_int ctx) (x_view x) (alloc_site (ps_object ps)) (x_prevPC x)
       (if errs = [] then PM_FlushOnUnmodified else PM_UnnecessaryFlush) (x_rootCauseMgr x);
     m \<leftarrow> markAsBug i m;
     Some (i, x\<lparr>x_rootCauseMgr := m\<rparr>)
   }"

section \<open>Writes of any width\<close>

text \<open>
  The byte operations override those of \<^verbatim>\<open>ObjectState\<close>, and its operations of any width call
  them.  \<^verbatim>\<open>ObjectState::write8\<close> of a constant expression calls the overridden operation on a byte, so
  the line is recorded twice.
\<close>

definition PersistentState_write8_byte :: "pctx \<Rightarrow> nat \<Rightarrow> u8 \<Rightarrow> pstate \<times> xstate \<Rightarrow> (pstate \<times> xstate) option" where
  "PersistentState_write8_byte ctx offset v s = do {
     let (ps, x) = s;
     os \<leftarrow> write8_byte (ps_os ps) offset v;
     dirtyCacheLineAtOffset ctx (const32 offset) (ps\<lparr>ps_os := os\<rparr>, x)
   }"

definition PersistentState_write8 :: "pctx \<Rightarrow> nat \<Rightarrow> expr \<Rightarrow> pstate \<times> xstate \<Rightarrow> (pstate \<times> xstate) option" where
  "PersistentState_write8 ctx offset v s = do {
     s \<leftarrow> (case as_const v of
         Some CE \<Rightarrow> do {
           b \<leftarrow> ConstantExpr_getZExtValue CE 8;
           PersistentState_write8_byte ctx offset (ucast b) s
         }
       | None \<Rightarrow> do {
           let (ps, x) = s;
           os \<leftarrow> write8 (ps_os ps) offset v;
           Some (ps\<lparr>ps_os := os\<rparr>, x)
         });
     dirtyCacheLineAtOffset ctx (const32 offset) s
   }"

definition PersistentState_write8_sym :: "pctx \<Rightarrow> expr \<Rightarrow> expr \<Rightarrow> pstate \<times> xstate \<Rightarrow> (pstate \<times> xstate) option" where
  "PersistentState_write8_sym ctx offset v s = do {
     let (ps, x) = s;
     os \<leftarrow> write8_sym (ps_os ps) offset v;
     dirtyCacheLineAtOffset ctx offset (ps\<lparr>ps_os := os\<rparr>, x)
   }"

section \<open>The executor\<close>

text \<open>
  A flush of an offset of an object: the result is the identifier reported, if the flush is
  unnecessary.
\<close>

definition executePersistentMemoryFlush ::
  "pctx \<Rightarrow> expr \<Rightarrow> pstate \<times> xstate \<Rightarrow> (u64 option \<times> pstate \<times> xstate) option" where
  "executePersistentMemoryFlush ctx offset s = do {
     let (ps, x) = s;
     check \<leftarrow> getIsOffsetPersistedExpr ctx ps offset True;
     isAlreadyPersisted \<leftarrow> must_succeed (TimingSolver_mustBeTrue (pc_solver ctx) (x_constraints x) check);
     (if isAlreadyPersisted then do {
        (i, x) \<leftarrow> markFlushAsBug ctx offset (ps, x);
        Some (Some i, ps, x)
      } else do {
        (ps, x) \<leftarrow> persistCacheLineAtOffset ctx offset (ps, x);
        Some (None, ps, x)
      })
   }"

text \<open>A fence commits every persistent object, and is reported if none had a flush to commit.\<close>

definition executePersistentMemoryFence ::
  "pctx \<Rightarrow> pstate list \<times> xstate \<Rightarrow> (u64 option \<times> pstate list \<times> xstate) option" where
  "executePersistentMemoryFence ctx s = do {
     let (objects, x) = s;
     let (fenceNecessary, objects) = fold (\<lambda>ps (necessary, done).
         let (commitNecessary, ps) = commitPendingPersists ps in (commitNecessary \<or> necessary, done @ [ps])) objects (False, []);
     (if \<not> fenceNecessary then do {
        (i, m) \<leftarrow> getRootCauseLocationID (pc_hash_str ctx) (pc_hash_int ctx) (x_view x) 0 (x_prevPC x) PM_UnnecessaryFence
          (x_rootCauseMgr x);
        m \<leftarrow> markAsBug i m;
        Some (Some i, objects, x\<lparr>x_rootCauseMgr := m\<rparr>)
      } else Some (None, objects, x))
   }"

definition markPersistenceErrors :: "pctx \<Rightarrow> pstate \<times> xstate \<Rightarrow> (u64 list \<times> xstate) option" where
  "markPersistenceErrors ctx s = do {
     let (ps, x) = s;
     anyOffset \<leftarrow> getAnyOffsetExpr ctx ps;
     inBoundsConstraint \<leftarrow> getBoundsCheckOffset (pc_cao ctx) (pc_pointerWidth ctx) (ps_object ps) anyOffset;
     cs \<leftarrow> addConstraint (ts_config (pc_solver ctx)) inBoundsConstraint (x_constraints x);
     e \<leftarrow> getIsOffsetPersistedExpr ctx ps anyOffset False;
     isPersisted \<leftarrow> must_succeed (TimingSolver_mustBeTrue (pc_solver ctx) cs e);
     let x = x\<lparr>x_constraints := removeConstraint inBoundsConstraint cs\<rparr>;
     (if \<not> isPersisted then markNonPersistedWritesAsBugs ctx (ps, x) else Some ([], x))
   }"

end
