(* ===== verification/Line_Lists.thy ===== *)
theory Line_Lists
  imports Persistent_State
begin

text \<open>
  Update lists with one entry for each cache line: what they denote, how an update changes them,
  and that the queries of \<^verbatim>\<open>PersistentState\<close> about them are exact.
\<close>

section \<open>The arrays an expression reads\<close>

primrec reads :: "expr \<Rightarrow> array set" and ureads :: "unode \<Rightarrow> array set" where
  "reads (ConstantExpr c) = {}"
| "reads (NotOptimizedExpr e) = reads e"
| "reads (ReadExpr a un i) = insert a (ureads un \<union> reads i)"
| "reads (SelectExpr c t f) = reads c \<union> reads t \<union> reads f"
| "reads (ConcatExpr l r) = reads l \<union> reads r"
| "reads (ExtractExpr e off w) = reads e"
| "reads (ZExtExpr e w) = reads e"
| "reads (SExtExpr e w) = reads e"
| "reads (NotExpr e) = reads e"
| "reads (BinaryExpr k l r) = reads l \<union> reads r"
| "reads (CmpExpr k l r) = reads l \<union> reads r"
| "ureads NullNode = {}"
| "ureads (UpdateNode nx i v) = ureads nx \<union> reads i \<union> reads v"

lemma eval_agree:
  "\<forall>a \<in> reads e. \<sigma> a = \<tau> a \<Longrightarrow> eval \<sigma> e = eval \<tau> e"
  "\<forall>a \<in> ureads un. \<sigma> a = \<tau> a \<Longrightarrow> \<sigma> b = \<tau> b \<Longrightarrow> read_updates \<sigma> un b i = read_updates \<tau> un b i"
  by (induction e and un arbitrary: and b i) (auto simp: init_val_def)

lemma nodes_reads: "d \<in> nodes e \<Longrightarrow> reads d \<subseteq> reads e"
  by (induction e rule: expr.induct [where ?P2.0 = "\<lambda>_. True"]) auto

section \<open>Line lists\<close>

text \<open>
  A list over an array with \<open>n\<close> entries of width \<open>r\<close>, all \<open>c\<close> at first, whose updates write constants
  of \<open>V\<close>.
\<close>

definition wf_lines :: "nat \<Rightarrow> width \<Rightarrow> int \<Rightarrow> int set \<Rightarrow> ulist \<Rightarrow> bool" where
  "wf_lines n r c V ul \<longleftrightarrow> 0 < n \<and> n \<le> 2 ^ 32 \<and> 0 < r \<and> in_width r c \<and> arr_size (fst ul) = n \<and> arr_domain (fst ul) = 32 \<and>
     arr_range (fst ul) = r \<and> constantValues (fst ul) = replicate n (APInt r c) \<and> wt_updates (snd ul) (fst ul) \<and>
     (\<forall>(i, v) \<in> set (writes_of (snd ul)). \<exists>k \<in> V. v = ConstantExpr (APInt r k))"

definition lval :: "env \<Rightarrow> ulist \<Rightarrow> nat \<Rightarrow> int" where
  "lval \<sigma> ul l = read_updates \<sigma> (snd ul) (fst ul) (int l)"

lemma wf_lines_array: "wf_lines n r c V ul \<Longrightarrow> wf_array (fst ul)"
  by (auto simp: wf_lines_def wf_array_def wf_ap_def)

lemma wf_lines_mono: "wf_lines n r c V ul \<Longrightarrow> V \<subseteq> W \<Longrightarrow> wf_lines n r c W ul"
  unfolding wf_lines_def by fastforce

lemma lval_init: "wf_lines n r c V ul \<Longrightarrow> snd ul = NullNode \<Longrightarrow> l < n \<Longrightarrow> lval \<sigma> ul l = c"
  by (simp add: lval_def wf_lines_def init_val_def isConstantArray_def isSymbolicArray_def)

lemma lval_values:
  assumes "wf_lines n r c V ul" "l < n"
  shows "lval \<sigma> ul l \<in> insert c V"
proof -
  obtain a un where ul: "ul = (a, un)" by fastforce
  have "wf_lines n r c V (a, un) \<Longrightarrow> lval \<sigma> (a, un) l \<in> insert c V"
  proof (induction un rule: unode.induct [where ?P1.0 = "\<lambda>_. True"])
    case NullNode
    then show ?case using lval_init assms(2) by fastforce
  next
    case (UpdateNode nx i v)
    then have "wf_lines n r c V (a, nx)" "\<exists>k \<in> V. v = ConstantExpr (APInt r k)" by (auto simp: wf_lines_def)
    then show ?case using UpdateNode.IH(1) by (auto simp: lval_def)
  qed simp_all
  then show ?thesis using assms(1) ul by simp
qed

lemma extend_lines:
  assumes "wf_lines n r c V ul" "denotes (\<lambda>_. True) i 32 f" "in_width r k" "k \<in> W" "V \<subseteq> W"
  shows "UpdateList_extend ul i (ConstantExpr (APInt r k)) = Some (fst ul, UpdateNode (snd ul) i (ConstantExpr (APInt r k)))"
    "wf_lines n r c W (fst ul, UpdateNode (snd ul) i (ConstantExpr (APInt r k)))"
    "wf_env \<sigma> \<Longrightarrow> lval \<sigma> (fst ul, UpdateNode (snd ul) i (ConstantExpr (APInt r k))) l = (if f \<sigma> = int l then k else lval \<sigma> ul l)"
  using assms wf_lines_mono [OF assms(1,5)]
  by (auto simp: wf_lines_def UpdateList_extend_def assert_that_def denotes_def lval_def wf_ap_def)

section \<open>Reading a line\<close>

lemma getCacheLine_ok:
  assumes "denotes A offset w f" "32 \<le> w" "w \<le> 64" "0 < cacheLineSize ctx" "cacheLineSize ctx < 2 ^ 32"
  shows "ok (getCacheLine ctx offset) (\<lambda>e. denotes A e 32 (\<lambda>\<sigma>. take_bit 32 (f \<sigma> div int (cacheLineSize ctx))))"
proof -
  let ?c = "ConstantExpr (APInt w (int (cacheLineSize ctx)))"
  have cl: "cacheLineSize ctx < 2 ^ w" using assms(2,5) power_increasing [of 32 w "2::nat"] by simp
  then have cr: "ConstantExpr_create (of_nat (cacheLineSize ctx)) w = Some (APInt w (int (cacheLineSize ctx)))"
    using const_create_ok(1) [of w "cacheLineSize ctx"] assms(2,3) by simp
  have d: "denotes A ?c w (\<lambda>_. int (cacheLineSize ctx))" using cl assms(2) by (simp add: in_width_def)
  have "div_folds offset ?c" using assms(4) by (auto simp: div_folds_def)
  from UDivExpr_create_ok [OF assms(1) d this]
  obtain q where q: "UDivExpr_create offset ?c = Some q" "denotes A q w (\<lambda>\<sigma>. bop_sem UDiv w (f \<sigma>) (int (cacheLineSize ctx)))"
    by (auto simp: ok_iff)
  have "divisor w (int (cacheLineSize ctx)) = int (cacheLineSize ctx)"
    using assms(4) cl by (intro divisor_nonzero) (simp_all add: in_width_def)
  moreover have "take_bit w (f \<sigma> div int (cacheLineSize ctx)) = f \<sigma> div int (cacheLineSize ctx)" if "wf_env \<sigma>" "A \<sigma>" for \<sigma>
  proof -
    have f: "0 \<le> f \<sigma>" "f \<sigma> < 2 ^ w" using denotesD(5) [OF assms(1), of \<sigma>] that by (simp_all add: in_width_def)
    have "f \<sigma> div int (cacheLineSize ctx) \<le> f \<sigma>" using f(1) assms(4) by (intro zdiv_mono2 [of _ 1, simplified]) simp_all
    then show ?thesis using f assms(4) by (intro take_bit_int_eq_self) (simp_all add: pos_imp_zdiv_nonneg_iff)
  qed
  ultimately have "denotes A q w (\<lambda>\<sigma>. f \<sigma> div int (cacheLineSize ctx))" using q(2) by (simp add: denotes_def)
  from ZExtExpr_create_ok [OF this, of 32] show ?thesis
    using cr q(1) denotesD(2) [OF assms(1)] by (simp add: getCacheLine_def)
qed

lemma read_line_ok:
  assumes "wf_lines n r c V ul" "denotes A cl 32 g"
  shows "ok (do { i \<leftarrow> ZExtExpr_create cl 32; ReadExpr_create False ul i })
    (\<lambda>e. denotes A e r (\<lambda>\<sigma>. read_updates \<sigma> (snd ul) (fst ul) (g \<sigma>)))"
proof -
  have z: "ZExtExpr_create cl 32 = Some cl" using assms(2) by (simp add: ZExtExpr_create_def denotes_def)
  have a: "wf_array (fst ul)" by (rule wf_lines_array [OF assms(1)])
  have "denotes A cl (arr_domain (fst ul)) g" using assms by (simp add: wf_lines_def)
  from ReadExpr_create_ok [OF this a, of "snd ul"] show ?thesis using z assms(1) by (simp add: wf_lines_def)
qed

lemma isCacheLinePersisted_ok:
  assumes "wf_lines n 8 1 {0, 1} (if pending then pendingCacheLineUpdates ps else cacheLineUpdates ps)" "denotes A cl 32 g"
    "\<not> pc_cao ctx" "\<And>\<sigma>. wf_env \<sigma> \<Longrightarrow> A \<sigma> \<Longrightarrow> g \<sigma> < int n"
  shows "ok (isCacheLinePersisted ctx ps cl pending) (\<lambda>e. denotes A e 1 (\<lambda>\<sigma>. of_bool
    (lval \<sigma> (if pending then pendingCacheLineUpdates ps else cacheLineUpdates ps) (nat (g \<sigma>)) = 1)))"
proof -
  define ul where "ul = (if pending then pendingCacheLineUpdates ps else cacheLineUpdates ps)"
  have wf: "wf_lines n 8 1 {0, 1} ul" using assms(1) by (simp add: ul_def)
  have g0: "0 \<le> g \<sigma>" if "wf_env \<sigma>" "A \<sigma>" for \<sigma> using denotesD(5) [OF assms(2), of \<sigma>] that by (simp add: in_width_def)
  show ?thesis
  proof (cases "snd ul = NullNode")
    case True
    have "lval \<sigma> ul (nat (g \<sigma>)) = 1" if "wf_env \<sigma>" "A \<sigma>" for \<sigma>
      by (rule lval_init [OF wf True]) (use assms(4) [OF that] g0 [OF that] in linarith)
    then show ?thesis using True const_create_ok(1) [of 1 1]
      by (simp add: isCacheLinePersisted_def Let_def denotes_def wf_ap_def in_width_def flip: ul_def)
  next
    case False
    from read_line_ok [OF wf assms(2)] obtain i e where e: "ZExtExpr_create cl 32 = Some i" "ReadExpr_create False ul i = Some e"
      "denotes A e 8 (\<lambda>\<sigma>. read_updates \<sigma> (snd ul) (fst ul) (g \<sigma>))" by (auto simp: ok_iff split: bind_splits)
    have "denotes A (ConstantExpr getPersistedExpr) 8 (\<lambda>_. 1)" by (simp add: getPersistedExpr_def in_width_def)
    from EqExpr_create_ok [OF e(3) this, of False]
    have "ok (EqExpr_create False e (ConstantExpr getPersistedExpr))
        (\<lambda>e. denotes A e 1 (\<lambda>\<sigma>. of_bool (read_updates \<sigma> (snd ul) (fst ul) (g \<sigma>) = 1)))" by simp
    then have "ok (EqExpr_create False e (ConstantExpr getPersistedExpr)) (\<lambda>e. denotes A e 1 (\<lambda>\<sigma>. of_bool (lval \<sigma> ul (nat (g \<sigma>)) = 1)))"
      by (rule ok_denotes_cong) (use g0 in \<open>simp add: lval_def\<close>)
    then show ?thesis using False e(1,2) assms(3)
      by (simp add: isCacheLinePersisted_def Let_def flip: ul_def)
  qed
qed

section \<open>Root causes of a line\<close>

lemma addIfCause_ok:
  assumes "answering (pc_solver ctx) cs" "denotes (holds cs) e 64 f" "rootCauseWidth ps = 64" "i < 2 ^ 64"
  shows "addIfCause ctx ps cs e i causes =
    Some (if possible_value (cs, e) (int i) then causes @ [of_nat i] else causes)"
proof -
  let ?c = "ConstantExpr (APInt 64 (int i))"
  have cao: "\<not> pc_cao ctx" using assms(1) by (simp add: answering_def)
  have c: "denotes (holds cs) ?c 64 (\<lambda>_. int i)" using assms(4) by (simp add: in_width_def)
  from EqExpr_create_ok [OF c assms(2), of False] obtain q where q: "EqExpr_create False ?c e = Some q"
    "denotes (holds cs) q 1 (\<lambda>\<sigma>. of_bool (int i = f \<sigma>))" by (auto simp: ok_iff)
  have "TimingSolver_mayBeTrue (pc_solver ctx) cs q = Some (Some (\<not> refuted (cs, q)))"
    by (rule ts_mayBe_exact(1) [OF assms(1)]) (use q(2) in \<open>simp_all add: denotes_def\<close>)
  moreover have "\<not> refuted (cs, q) \<longleftrightarrow> possible_value (cs, e) (int i)"
    using q(2) assms(2) by (auto simp: refuted_def possible_value_def denotes_def)
  moreover have "ConstantExpr_create (of_nat i) 64 = Some (APInt 64 (int i))" using const_create_ok(1) [of 64 i] assms(4) by simp
  ultimately show ?thesis using q(1) cao assms(3) by (simp add: addIfCause_def must_succeed_def)
qed

lemma cause_loop:
  assumes "answering (pc_solver ctx) cs" "denotes (holds cs) e 64 f" "rootCauseWidth ps = 64" "\<forall>i \<in> set is. i < 2 ^ 64"
  shows "foldM (addIfCause ctx ps cs e) is causes = Some (causes @ map of_nat (filter (\<lambda>i. possible_value (cs, e) (int i)) is))"
  using assms(4) addIfCause_ok [OF assms(1-3)] by (induction "is" arbitrary: causes) simp_all

definition ids_of :: "query \<Rightarrow> u64 set" where
  "ids_of q = {i. i \<noteq> 0 \<and> possible_value q (uint i)}"

lemma ids_of_nat: "ids_of q = of_nat ` {n. 0 < n \<and> n < 2 ^ 64 \<and> possible_value q (int n)}"
proof (intro set_eqI iffI)
  fix i assume "i \<in> ids_of q"
  then show "i \<in> of_nat ` {n. 0 < n \<and> n < 2 ^ 64 \<and> possible_value q (int n)}"
    by (intro image_eqI [of _ _ "unat i"]) (use unsigned_less [of i] in \<open>auto simp: ids_of_def unat_gt_0\<close>)
next
  fix i :: u64 assume "i \<in> of_nat ` {n. 0 < n \<and> n < 2 ^ 64 \<and> possible_value q (int n)}"
  then obtain n where n: "i = of_nat n" "0 < n" "n < 2 ^ 64" "possible_value q (int n)" by blast
  then have "uint i = int n" by (simp add: unat_of_nat64)
  then show "i \<in> ids_of q" using n by (auto simp: ids_of_def)
qed

lemma of_nat_distinct:
  assumes "distinct xs" "\<forall>n \<in> set xs. n < 2 ^ 64"
  shows "distinct (map (of_nat :: nat \<Rightarrow> u64) xs)"
proof -
  have "inj_on (of_nat :: nat \<Rightarrow> u64) (set xs)"
    by (rule inj_onI) (use assms(2) in \<open>metis unat_of_nat64 of_nat_eq_iff\<close>)
  then show ?thesis using assms(1) by (simp add: distinct_map)
qed

lemma causesInRange_ok:
  assumes a: "answering (pc_solver ctx) cs" "denotes (holds cs) e 64 f" "rootCauseWidth ps = 64"
    and lg: "least_greatest (cs, e) (mn, mx)" and mx: "mx < 2 ^ 64 - 1"
  shows "ok (causesInRange ctx ps cs e mn mx) (\<lambda>ids. distinct ids \<and> set ids = ids_of (cs, e))"
proof -
  let ?P = "\<lambda>n. possible_value (cs, e) (int n)"
  define lo where "lo = (if mn = 0 then 1 else mn)"
  have pos: "?P mn" "?P mx" "mn \<le> mx" using lg by (auto simp: least_greatest_def)
  have between: "mn \<le> n \<and> n \<le> mx" if "?P n" for n using lg that by (auto simp: least_greatest_def)
  have iff: "0 < n \<and> n < 2 ^ 64 \<and> ?P n \<longleftrightarrow> lo \<le> n \<and> n \<le> mx \<and> ?P n" for n
    using between [of n] mx by (cases "?P n") (auto simp: lo_def)
  show ?thesis
  proof (cases "mx = 0")
    case True
    then have "{n. 0 < n \<and> n < 2 ^ 64 \<and> ?P n} = {}" using between by fastforce
    then show ?thesis using True pos(3) by (simp add: causesInRange_def ids_of_nat)
  next
    case False
    then have lo: "lo \<le> mx" using pos(3) by (simp add: lo_def)
    have c: "causesInRange ctx ps cs e mn mx = (if lo = mx then Some [of_nat lo] else foldM (addIfCause ctx ps cs e) [lo..<Suc mx] [])"
      using False lo mx unfolding causesInRange_def Let_def lo_def [symmetric] by (simp add: assert_that_def del: upt_Suc)
    have loop: "foldM (addIfCause ctx ps cs e) [lo..<Suc mx] [] = Some ([] @ map of_nat (filter ?P [lo..<Suc mx]))"
      by (rule cause_loop [OF a]) (use mx in auto)
    have d: "distinct (map (of_nat :: nat \<Rightarrow> u64) (filter ?P [lo..<Suc mx]))"
      by (rule of_nat_distinct) (use mx in \<open>auto simp del: upt_Suc\<close>)
    have set: "set (filter ?P [lo..<Suc mx]) = {n. 0 < n \<and> n < 2 ^ 64 \<and> ?P n}"
      unfolding iff by (auto simp del: upt_Suc)
    show ?thesis
    proof (cases "lo = mx")
      case True
      then have "set (filter ?P [lo..<Suc mx]) = {mx}" using pos(2) by auto
      then have "ids_of (cs, e) = {of_nat mx}" unfolding ids_of_nat set [symmetric] by simp
      then show ?thesis using c True by simp
    next
      case False
      have "ids_of (cs, e) = set (map of_nat (filter ?P [lo..<Suc mx]))" unfolding ids_of_nat set [symmetric] set_map ..
      then show ?thesis unfolding c loop using False d by simp
    qed
  qed
qed

lemma getRootCause_ok:
  assumes a: "answering (pc_solver ctx) cs" and w: "rootCauseWidth ps = 64" and ul: "wf_lines n 64 0 V ul"
    and cl: "denotes (holds cs) cl 32 g" and V: "V \<subseteq> {0..2 ^ 64 - 2}"
    and g: "\<And>\<sigma>. wf_env \<sigma> \<Longrightarrow> holds cs \<sigma> \<Longrightarrow> g \<sigma> < int n"
  shows "ok (getRootCause ctx ps cs ul cl) (\<lambda>ids. distinct ids \<and>
    set ids = {i. i \<noteq> 0 \<and> (\<exists>\<sigma>. wf_env \<sigma> \<and> holds cs \<sigma> \<and> lval \<sigma> ul (nat (g \<sigma>)) = uint i)})"
proof -
  have cao: "\<not> pc_cao ctx" using a by (simp add: answering_def)
  from read_line_ok [OF ul cl] obtain i e where e: "ZExtExpr_create cl 32 = Some i" "ReadExpr_create False ul i = Some e"
    "denotes (holds cs) e 64 (\<lambda>\<sigma>. read_updates \<sigma> (snd ul) (fst ul) (g \<sigma>))" by (auto simp: ok_iff split: bind_splits)
  have g0: "0 \<le> g \<sigma>" if "wf_env \<sigma>" "holds cs \<sigma>" for \<sigma> using denotesD(5) [OF cl, of \<sigma>] that by (simp add: in_width_def)
  have ev: "eval \<sigma> e = lval \<sigma> ul (nat (g \<sigma>))" if "wf_env \<sigma>" "holds cs \<sigma>" for \<sigma>
    using e(3) g0 that by (simp add: denotes_def lval_def)
  have ids: "ids_of (cs, e) = {i. i \<noteq> 0 \<and> (\<exists>\<sigma>. wf_env \<sigma> \<and> holds cs \<sigma> \<and> lval \<sigma> ul (nat (g \<sigma>)) = uint i)}"
    using ev by (auto simp: ids_of_def possible_value_def)
  have "wt e" "getWidth e = 64" using e(3) by (simp_all add: denotes_def)
  from ts_getRange_exact [OF a this(1)] this(2) obtain mn mx where r: "least_greatest (cs, e) (mn, mx)"
    "TimingSolver_getRange (pc_solver ctx) cs e = Some (ConstantExpr (APInt 64 (int mn)), ConstantExpr (APInt 64 (int mx)))"
    by auto
  obtain \<sigma> where s: "wf_env \<sigma>" "holds cs \<sigma>" "eval \<sigma> e = int mx" using r(1) by (auto simp: least_greatest_def possible_value_def)
  have "nat (g \<sigma>) < n" using g [OF s(1,2)] g0 [OF s(1,2)] by linarith
  from lval_values [OF ul this, of \<sigma>] have "int mx \<in> insert 0 V" using ev [OF s(1,2)] s(3) by simp
  then have mx: "int mx \<le> 2 ^ 64 - 2" using V by auto
  have mn: "mn \<le> mx" using r(1) by (auto simp: least_greatest_def)
  have u: "unat (word_of_int (int k) :: u64) = k" if "k \<le> mx" for k
    using that mx by (simp add: unat_of_nat)
  have "ok (causesInRange ctx ps cs e mn mx) (\<lambda>ids. distinct ids \<and> set ids = ids_of (cs, e))"
    by (rule causesInRange_ok [OF a e(3) w r(1)]) (use mx in simp)
  moreover have "getRootCause ctx ps cs ul cl = causesInRange ctx ps cs e mn mx"
    using e(1,2) r(2) cao u [of mn] u [of mx] mn
    by (simp add: getRootCause_def ConstantExpr_getZExtValue_def assert_that_def as_const_def)
  ultimately show ?thesis unfolding ids by simp
qed

end
