(* ===== verification/Persistent_Ids.thy ===== *)
theory Persistent_Ids
  imports Line_Lists Root_Cause_Bugs
begin

text \<open>
  What the persistent objects use of the root-cause manager: identifiers that are new or known, never
  an invalid one, and reports that keep them.
\<close>

definition known_ids :: "manager \<Rightarrow> u64 set" where
  "known_ids m = fst ` set (idToRoot m)"

text \<open>
  The identifier 0 stands for no root cause, and the search for root causes does not end at
  \<open>2 ^ 64 - 1\<close>.  The source does not keep \<^verbatim>\<open>getNewId\<close> from returning either: whether it does depends on the
  hash of the printed stack, from which the search for an unused identifier starts.
\<close>

definition ids_valid :: "manager \<Rightarrow> bool" where
  "ids_valid m \<longleftrightarrow> {0, -1} \<inter> known_ids m = {}"

definition mgr_ok :: "manager \<Rightarrow> bool" where
  "mgr_ok m \<longleftrightarrow> rcm_inv m \<and> ids_valid m"

definition id_seed :: "(string \<Rightarrow> u64) \<Rightarrow> (u64 \<Rightarrow> u64) \<Rightarrow> exec_view \<Rightarrow> u64" where
  "id_seed hs hi st = hi (hs (ev_dump st) XOR stateTime st)"

text \<open>The seed leaves room for the search, with fewer than \<open>2 ^ 32\<close> identifiers in use.\<close>

definition seed_ok :: "(string \<Rightarrow> u64) \<Rightarrow> (u64 \<Rightarrow> u64) \<Rightarrow> exec_view \<Rightarrow> bool" where
  "seed_ok hs hi st \<longleftrightarrow> id_seed hs hi st \<noteq> 0 \<and> unat (id_seed hs hi st) + 2 ^ 32 < 2 ^ 64"

definition cause_values :: "manager \<Rightarrow> int set" where
  "cause_values m = insert 0 (uint ` known_ids m)"

lemma cause_values_mono: "known_ids m \<subseteq> known_ids m' \<Longrightarrow> cause_values m \<subseteq> cause_values m'"
  by (auto simp: cause_values_def)

lemma cause_values_range:
  assumes "ids_valid m"
  shows "cause_values m \<subseteq> {0..2 ^ 64 - 2}"
proof -
  have "uint i \<le> 2 ^ 64 - 2" if "i \<in> known_ids m" for i
  proof -
    have "i \<noteq> -1" using assms that by (auto simp: ids_valid_def)
    then have "uint i \<noteq> uint (-1 :: u64)" using unsigned_word_eqI by blast
    moreover have "uint (-1 :: u64) = 2 ^ 64 - 1" by (simp add: unsigned_minus_1_eq_mask mask_eq_exp_minus_1)
    ultimately show ?thesis using uint_bounded [of i] by simp
  qed
  then show ?thesis by (auto simp: cause_values_def)
qed

lemma card_known:
  assumes "rcm_inv m"
  shows "card (known_ids m) \<le> length (usedIds m)"
proof -
  have "known_ids m \<subseteq> set (usedIds m)" using assms by (simp add: rcm_inv_def ids_ok_def known_ids_def)
  then show ?thesis using card_length [of "usedIds m"] card_mono [of "set (usedIds m)" "known_ids m"] by simp
qed

lemma ids_left:
  assumes "length (usedIds m) < 2 ^ 64"
  shows "set (usedIds m) \<noteq> UNIV"
proof
  assume "set (usedIds m) = UNIV"
  then have "card (UNIV :: u64 set) \<le> length (usedIds m)" using card_length [of "usedIds m"] by simp
  then show False using assms by (simp add: card_word)
qed

lemma next_unused_near: "i + of_nat k \<notin> set used \<Longrightarrow> \<exists>k' \<le> k. next_unused used i = Some (i + of_nat k')"
proof (induction k arbitrary: i)
  case 0
  then show ?case by (simp add: next_unused.simps)
next
  case (Suc k)
  show ?case
  proof (cases "i \<in> set used")
    case True
    have "(i + 1) + of_nat k \<notin> set used" using Suc.prems by (simp add: algebra_simps)
    from Suc.IH [OF this] obtain k' where "k' \<le> k" "next_unused used (i + 1) = Some (i + 1 + of_nat k')" by blast
    then show ?thesis using True by (intro exI [of _ "Suc k'"]) (simp add: next_unused.simps [of used i] algebra_simps)
  qed (auto simp: next_unused.simps)
qed

lemma some_unused:
  fixes i :: u64
  assumes "length used < 2 ^ 64"
  shows "\<exists>k \<le> length used. i + of_nat k \<notin> set used"
proof (rule ccontr)
  assume "\<not> ?thesis"
  then have sub: "(\<lambda>k. i + of_nat k) ` {..length used} \<subseteq> set used" by auto
  have "inj_on (\<lambda>k. i + of_nat k) {..length used}"
  proof (rule inj_onI)
    fix a b assume ab: "a \<in> {..length used}" "b \<in> {..length used}" "i + of_nat a = i + of_nat b"
    have "a < 2 ^ 64" "b < 2 ^ 64" using ab(1,2) assms by auto
    then have "unat (of_nat a :: u64) = a" "unat (of_nat b :: u64) = b" by (simp_all add: unat_of_nat)
    moreover have "(of_nat a :: u64) = of_nat b" using ab(3) by (rule add_left_imp_eq)
    ultimately show "a = b" by metis
  qed
  from card_inj_on_le [OF this sub] card_length [of used] show False by simp
qed

lemma new_id_valid:
  assumes "seed_ok hs hi st" "length used < 2 ^ 32" "next_unused used (id_seed hs hi st) = Some i"
  shows "i \<notin> {0, -1}"
proof -
  let ?h = "id_seed hs hi st"
  have "length used < 2 ^ 64" using assms(2) by simp
  from some_unused [OF this] obtain k where k: "k \<le> length used" "?h + of_nat k \<notin> set used" by blast
  from next_unused_near [OF k(2)] obtain k' where k': "k' \<le> k" "i = ?h + of_nat k'" using assms(3) by auto
  have b: "unat ?h + k' < 2 ^ 64 - 1" "unat ?h \<noteq> 0" using assms(1,2) k(1) k'(1) by (simp_all add: seed_ok_def unat_eq_zero)
  then have "unat i = unat ?h + k'" using k'(2) by (simp add: unat_word_ariths unat_of_nat)
  then have "unat i \<noteq> 0" "unat i \<noteq> 2 ^ 64 - 1" using b by simp_all
  moreover have "unat (0 :: u64) = 0" "unat (-1 :: u64) = 2 ^ 64 - 1" by (simp_all add: unsigned_minus_1_eq_mask mask_eq_exp_minus_1)
  ultimately show ?thesis by auto
qed

lemma mask_loop_frame:
  "foldM (\<lambda>i (rcl, u, roots). do {
      assert_that (\<exists>y. map_of roots i = Some y);
      Some (addMaskedError i rcl, addMaskedError i u, update_info i f roots)
    }) ids (rcl, u, roots) = Some (rcl', u', roots') \<Longrightarrow> fst ` set roots' = fst ` set roots"
  by (induction ids arbitrary: rcl u roots) (auto split: bind_splits)

lemma getId_frame:
  assumes "getRootCauseLocationID_masking hs hi st site pc r ids m = Some (i, m')"
    "root_find (RootCauseLocation st site pc r) (rootToId m) = None"
  shows "known_ids m' = insert i (known_ids m) \<and> totalOccurences m' = totalOccurences m \<and>
    next_unused (usedIds m) (id_seed hs hi st) = Some i"
  using assms unfolding known_ids_def id_seed_def
  by (auto simp: installExampleStackTrace_def getRootCauseLocationID_masking_def getNewId_def Let_def split: bind_splits prod.splits
      dest!: mask_loop_frame) force+

lemma getId_ok:
  assumes "mgr_ok m" "length (usedIds m) < 2 ^ 32" "distinct ids" "set ids \<subseteq> known_ids m" "seed_ok hs hi st"
  shows "ok (getRootCauseLocationID_masking hs hi st site pc r ids m) (\<lambda>(i, m'). mgr_ok m' \<and>
    known_ids m \<subseteq> known_ids m' \<and> i \<in> known_ids m' \<and> length (usedIds m') \<le> Suc (length (usedIds m)) \<and>
    totalOccurences m' = totalOccurences m)"
proof -
  let ?l = "RootCauseLocation st site pc r"
  have inv: "rcm_inv m" "ids_valid m" using assms(1) by (simp_all add: mgr_ok_def)
  have "length (usedIds m) < 2 ^ 64" using assms(2) by simp
  from getRootCauseLocationID_masking_ok [OF inv(1) ids_left [OF this] assms(3), of hs hi st site pc r] assms(4)
  obtain i m' where r: "getRootCauseLocationID_masking hs hi st site pc r ids m = Some (i, m')" "rcm_inv m'"
    "root_find ?l (rootToId m') = Some i"
    "if root_find ?l (rootToId m) = None then i \<notin> set (usedIds m) \<and> usedIds m' = i # usedIds m else m' = m"
    by (auto simp: ok_iff known_ids_def split: if_splits)
  have "ids_ok m'" using r(2) by (simp add: rcm_inv_def)
  then have k: "i \<in> known_ids m'" using ids_ok_find r(3) by (force simp: known_ids_def dest: map_of_SomeD)
  show ?thesis
  proof (cases "root_find ?l (rootToId m) = None")
    case True
    note f = getId_frame [OF r(1) True]
    have "i \<notin> {0, -1}" by (rule new_id_valid [OF assms(5,2)]) (use f in simp)
    then have "ids_valid m'" using inv(2) f by (auto simp: ids_valid_def)
    then show ?thesis using r(1,2) f True r(4) by (auto simp: mgr_ok_def)
  next
    case False
    then show ?thesis using r k inv by (simp add: mgr_ok_def)
  qed
qed

lemma mark_frame:
  "foldM mark_one ids m = Some m' \<Longrightarrow> usedIds m' = usedIds m \<and> known_ids m' = known_ids m"
proof (induction ids arbitrary: m)
  case (Cons i ids)
  then obtain m1 where m1: "mark_one i m = Some m1" "foldM mark_one ids m1 = Some m'" by (auto split: bind_splits)
  from m1(1) have "usedIds m1 = usedIds m \<and> fst ` set (idToRoot m1) = fst ` set (update_info i occ_plus (idToRoot m))"
    by (clarsimp simp: mark_one_def Let_def split: bind_splits)
  then have "usedIds m1 = usedIds m \<and> known_ids m1 = known_ids m" by (simp add: known_ids_def)
  then show ?case using Cons.IH [OF m1(2)] by simp
qed simp

lemma markAsBug_keeps:
  assumes "mgr_ok m" "i \<in> known_ids m" "unat (totalOccurences m) + length (usedIds m) + 1 < 2 ^ 64"
  shows "ok (markAsBug i m) (\<lambda>m'. mgr_ok m' \<and> known_ids m' = known_ids m \<and> usedIds m' = usedIds m \<and>
    unat (totalOccurences m') \<le> unat (totalOccurences m) + length (usedIds m) + 1 \<and>
    set (buggyIds m') = insert i (masked (idToRoot m) i) \<union> set (buggyIds m))"
proof -
  have inv: "rcm_inv m" "ids_valid m" using assms(1) by (simp_all add: mgr_ok_def)
  have "masked (idToRoot m) i \<subseteq> known_ids m"
    using older_masked inv(1) by (simp add: rcm_inv_def masks_ok_def ids_ok_def known_ids_def)
  then have "insert i (masked (idToRoot m) i) \<subseteq> known_ids m" using assms(2) by blast
  then have "card (insert i (masked (idToRoot m) i)) \<le> card (known_ids m)" by (rule card_mono [rotated]) (simp add: known_ids_def)
  then have c: "card (insert i (masked (idToRoot m) i)) \<le> length (usedIds m)" using card_known [OF inv(1)] by linarith
  have "ok (markAsBug i m) (\<lambda>m'. rcm_inv m' \<and>
      unat (totalOccurences m') = unat (totalOccurences m) + card (insert i (masked (idToRoot m) i)) \<and>
      set (buggyIds m') = insert i (masked (idToRoot m) i) \<union> set (buggyIds m))"
    by (rule ok_mono [OF markAsBug_ok [OF inv(1)]]) (use assms(2,3) c in \<open>simp_all add: known_ids_def\<close>)
  then obtain m' where m': "markAsBug i m = Some m'" "rcm_inv m'"
    "unat (totalOccurences m') = unat (totalOccurences m) + card (insert i (masked (idToRoot m) i))"
    "set (buggyIds m') = insert i (masked (idToRoot m) i) \<union> set (buggyIds m)"
    by (elim okE) blast
  obtain ids where "foldM mark_one ids m = Some m'" using m'(1) by (auto simp: markAsBug_def split: bind_splits)
  then have "usedIds m' = usedIds m \<and> known_ids m' = known_ids m" by (rule mark_frame)
  then show ?thesis using m' c inv(2) by (simp add: mgr_ok_def ids_valid_def)
qed

end
