(* ===== verification/Persistent_Inv.thy ===== *)
theory Persistent_Inv
  imports Persistent_Ids Constraint_Props Object_Props
begin

text \<open>
  The invariant of a persistent object and that the operations that record writes, flushes and fences
  keep it and do to every cache line what the persistency model says.
\<close>

section \<open>The invariant\<close>

definition line_count :: "pctx \<Rightarrow> pstate \<Rightarrow> nat" where
  "line_count ctx ps = getSizeInCacheLines (pc_parent ctx) (mo_size (ps_object ps))"

text \<open>The array behind the arbitrary offset.\<close>

definition idx_array :: "pstate \<Rightarrow> array" where
  "idx_array ps = (case idxUnbounded ps of ReadExpr a un i \<Rightarrow> a | _ \<Rightarrow> \<lparr>arr_ptr = 0, arr_name = [], arr_size = 0,
     arr_domain = 0, arr_range = 0, constantValues = []\<rparr>)"

definition idx_ok :: "pstate \<Rightarrow> bool" where
  "idx_ok ps \<longleftrightarrow> idxUnbounded ps = ReadExpr (idx_array ps) NullNode (ConstantExpr (APInt 32 0)) \<and>
     isSymbolicArray (idx_array ps) \<and> arr_size (idx_array ps) = 1 \<and> arr_domain (idx_array ps) = 32 \<and>
     arr_range (idx_array ps) = 32"

text \<open>The values of a list do not depend on the arbitrary offset.\<close>

definition idx_free :: "array \<Rightarrow> ulist \<Rightarrow> bool" where
  "idx_free ia ul \<longleftrightarrow> (\<forall>\<sigma> \<tau> l. wf_env \<sigma> \<longrightarrow> wf_env \<tau> \<longrightarrow> (\<forall>a. a \<noteq> ia \<longrightarrow> \<sigma> a = \<tau> a) \<longrightarrow> lval \<sigma> ul l = lval \<tau> ul l)"

text \<open>The lists about writes agree with each other, for each line and environment.\<close>

definition lists_agree :: "env \<Rightarrow> pstate \<Rightarrow> nat \<Rightarrow> bool" where
  "lists_agree \<sigma> ps l \<longleftrightarrow>
     (lval \<sigma> (cacheLineUpdates ps) l = 1 \<longrightarrow> lval \<sigma> (pendingCacheLineUpdates ps) l = 1) \<and>
     (lval \<sigma> (rootCauseWrites ps) l = 0 \<longleftrightarrow> lval \<sigma> (cacheLineUpdates ps) l = 1) \<and>
     (lval \<sigma> (pendingRootCauseWrites ps) l = 0 \<longleftrightarrow> lval \<sigma> (pendingCacheLineUpdates ps) l = 1)"

text \<open>If the last pending update is a write, it is also the last one of the other list.\<close>

definition heads_agree :: "pstate \<Rightarrow> bool" where
  "heads_agree ps \<longleftrightarrow> (\<forall>i. isUpdateListHeadEqualTo (pendingCacheLineUpdates ps) i (ConstantExpr getDirtyExpr) \<longrightarrow>
     isUpdateListHeadEqualTo (cacheLineUpdates ps) i (ConstantExpr getDirtyExpr))"

definition object_ok :: "pctx \<Rightarrow> pstate \<Rightarrow> bool" where
  "object_ok ctx ps \<longleftrightarrow> 0 < cacheLineSize ctx \<and> cacheLineSize ctx < 2 ^ 32 \<and> wf_mobj (pc_pointerWidth ctx) (ps_object ps) \<and>
     0 < mo_size (ps_object ps) \<and> os_size (ps_os ps) = mo_size (ps_object ps) \<and> obj_inv (ps_os ps) \<and>
     rootCauseWidth ps = 64 \<and> idx_ok ps"

definition lists_ok :: "nat \<Rightarrow> manager \<Rightarrow> pstate \<Rightarrow> bool" where
  "lists_ok n m ps \<longleftrightarrow> (\<forall>ul \<in> {cacheLineUpdates ps, pendingCacheLineUpdates ps}. wf_lines n 8 1 {0, 1} ul) \<and>
     (\<forall>ul \<in> {rootCauseWrites ps, pendingRootCauseWrites ps, rootCauseFlushes ps, pendingRootCauseFlushes ps}.
        wf_lines n 64 0 (cause_values m) ul) \<and>
     (\<forall>ul \<in> {cacheLineUpdates ps, pendingCacheLineUpdates ps, rootCauseWrites ps, pendingRootCauseWrites ps, rootCauseFlushes ps}.
        idx_free (idx_array ps) ul)"

definition ps_inv :: "pctx \<Rightarrow> manager \<Rightarrow> pstate \<Rightarrow> bool" where
  "ps_inv ctx m ps \<longleftrightarrow> object_ok ctx ps \<and> lists_ok (line_count ctx ps) m ps \<and> heads_agree ps \<and>
     (\<forall>\<sigma> l. wf_env \<sigma> \<longrightarrow> l < line_count ctx ps \<longrightarrow> lists_agree \<sigma> ps l)"

section \<open>The arbitrary offset\<close>

definition any_offset :: "pctx \<Rightarrow> pstate \<Rightarrow> expr" where
  "any_offset ctx ps = (if pc_pointerWidth ctx = 32 then idxUnbounded ps else ZExtExpr (idxUnbounded ps) (pc_pointerWidth ctx))"

definition in_bounds :: "pctx \<Rightarrow> pstate \<Rightarrow> expr" where
  "in_bounds ctx ps = CmpExpr Ult (any_offset ctx ps) (ConstantExpr (APInt (pc_pointerWidth ctx) (int (mo_size (ps_object ps)))))"

lemma pw_bounds: "object_ok ctx ps \<Longrightarrow> 32 \<le> pc_pointerWidth ctx \<and> pc_pointerWidth ctx \<le> 64"
  by (simp add: object_ok_def wf_mobj_def)

lemma idx_wt:
  assumes "object_ok ctx ps"
  shows "wt (idxUnbounded ps)" "getWidth (idxUnbounded ps) = 32" "reads (idxUnbounded ps) = {idx_array ps}"
    "eval \<sigma> (idxUnbounded ps) = \<sigma> (idx_array ps) 0" "\<not> isConstantExpr (idxUnbounded ps)"
proof -
  have i: "idxUnbounded ps = ReadExpr (idx_array ps) NullNode (ConstantExpr (APInt 32 0))" "isSymbolicArray (idx_array ps)"
    "arr_size (idx_array ps) = 1" "arr_domain (idx_array ps) = 32" "arr_range (idx_array ps) = 32"
    using assms by (simp_all add: object_ok_def idx_ok_def)
  have "wf_array (idx_array ps)" using i(2-5) by (simp add: wf_array_def isSymbolicArray_def)
  then show "wt (idxUnbounded ps)" "getWidth (idxUnbounded ps) = 32" "reads (idxUnbounded ps) = {idx_array ps}"
    "eval \<sigma> (idxUnbounded ps) = \<sigma> (idx_array ps) 0" "\<not> isConstantExpr (idxUnbounded ps)"
    using i(2-5) by (subst i(1); simp add: wf_ap_def in_width_def init_val_def isConstantArray_def isConstantExpr_iff)+
qed

lemma any_offset_ok:
  assumes "object_ok ctx ps"
  shows "getAnyOffsetExpr ctx ps = Some (any_offset ctx ps)" "wt (any_offset ctx ps)"
    "getWidth (any_offset ctx ps) = pc_pointerWidth ctx" "reads (any_offset ctx ps) = {idx_array ps}"
    "wf_env \<sigma> \<Longrightarrow> eval \<sigma> (any_offset ctx ps) = \<sigma> (idx_array ps) 0" "\<not> isConstantExpr (any_offset ctx ps)"
proof -
  note i = idx_wt [OF assms]
  have pw: "32 \<le> pc_pointerWidth ctx" using pw_bounds [OF assms] by simp
  have c: "getAnyOffsetExpr ctx ps = Some (any_offset ctx ps)"
  proof (cases "pc_pointerWidth ctx = 32")
    case True
    then show ?thesis using i(2) by (simp add: getAnyOffsetExpr_def any_offset_def ZExtExpr_create_def)
  next
    case False
    then show ?thesis using i(2,5) pw
      by (cases "idxUnbounded ps") (simp_all add: getAnyOffsetExpr_def any_offset_def ZExtExpr_create_def isConstantExpr_iff)
  qed
  have "in_width (pc_pointerWidth ctx) (\<sigma> (idx_array ps) 0)" if "wf_env \<sigma>" for \<sigma>
    using eval_in_width(1) [OF i(1) that] i(2,4) in_width_mono [OF _ pw] by simp
  then show "getAnyOffsetExpr ctx ps = Some (any_offset ctx ps)" "wt (any_offset ctx ps)"
    "getWidth (any_offset ctx ps) = pc_pointerWidth ctx" "reads (any_offset ctx ps) = {idx_array ps}"
    "wf_env \<sigma> \<Longrightarrow> eval \<sigma> (any_offset ctx ps) = \<sigma> (idx_array ps) 0" "\<not> isConstantExpr (any_offset ctx ps)"
    using c i pw by (simp_all add: any_offset_def isConstantExpr_iff in_width_take_bit)
qed

lemma in_bounds_ok:
  assumes "object_ok ctx ps"
  shows "getBoundsCheckOffset False (pc_pointerWidth ctx) (ps_object ps) (any_offset ctx ps) = Some (in_bounds ctx ps)"
    "wt (in_bounds ctx ps)" "getWidth (in_bounds ctx ps) = 1"
    "wf_env \<sigma> \<Longrightarrow> eval \<sigma> (in_bounds ctx ps) \<noteq> 0 \<longleftrightarrow> \<sigma> (idx_array ps) 0 < int (mo_size (ps_object ps))"
    "\<And>d. d \<in> nodes (in_bounds ctx ps) \<Longrightarrow> isConstantExpr d \<or> idx_array ps \<in> reads d"
proof -
  note a = any_offset_ok [OF assms]
  have mo: "wf_mobj (pc_pointerWidth ctx) (ps_object ps)" "0 < mo_size (ps_object ps)" using assms by (simp_all add: object_ok_def)
  note w = wf_mobjD [OF mo(1)]
  let ?c = "ConstantExpr (APInt (pc_pointerWidth ctx) (int (mo_size (ps_object ps))))"
  have "UltExpr_create False (any_offset ctx ps) ?c = Some (in_bounds ctx ps)"
    using a(3,6) pw_bounds [OF assms] by (cases "any_offset ctx ps")
      (simp_all add: UltExpr_create_def BCREATE_def UltExpr_create_nc_def in_bounds_def isConstantExpr_iff assert_that_def)
  then show "getBoundsCheckOffset False (pc_pointerWidth ctx) (ps_object ps) (any_offset ctx ps) = Some (in_bounds ctx ps)"
    using mo(2) const_create_ok(1) [OF w(1-3)] by (simp add: getBoundsCheckOffset_def getSizeExpr_def)
  show "wt (in_bounds ctx ps)" "getWidth (in_bounds ctx ps) = 1"
    using a(2,3) w by (simp_all add: in_bounds_def wf_ap_def in_width_def)
  show "wf_env \<sigma> \<Longrightarrow> eval \<sigma> (in_bounds ctx ps) \<noteq> 0 \<longleftrightarrow> \<sigma> (idx_array ps) 0 < int (mo_size (ps_object ps))"
    using a(5) by (simp add: in_bounds_def)
  show "isConstantExpr d \<or> idx_array ps \<in> reads d" if "d \<in> nodes (in_bounds ctx ps)" for d
  proof -
    have "idxUnbounded ps = ReadExpr (idx_array ps) NullNode (ConstantExpr (APInt 32 0))"
      using assms by (simp add: object_ok_def idx_ok_def)
    then have "nodes (any_offset ctx ps) \<subseteq> {any_offset ctx ps, idxUnbounded ps, ConstantExpr (APInt 32 0)}"
      by (cases "pc_pointerWidth ctx = 32") (simp_all add: any_offset_def)
    then have "d \<in> {in_bounds ctx ps, any_offset ctx ps, idxUnbounded ps, ConstantExpr (APInt 32 0), ?c}"
      using that by (auto simp: in_bounds_def)
    then show ?thesis using a(4) idx_wt(3) [OF assms] by (auto simp: in_bounds_def isConstantExpr_iff)
  qed
qed

section \<open>The execution state\<close>

definition solver_ok :: "pctx \<Rightarrow> pstate \<Rightarrow> expr list \<Rightarrow> bool" where
  "solver_ok ctx ps cs \<longleftrightarrow> complete_solver (ts_impl (pc_solver ctx)) \<and> \<not> pc_cao ctx \<and> 0 < add_fuel (ts_config (pc_solver ctx)) \<and>
     (\<forall>c \<in> insert (in_bounds ctx ps) (set cs). height c < visit_fuel (ts_config (pc_solver ctx)) c) \<and>
     (simplifyExprs (pc_solver ctx) \<longrightarrow> (\<forall>e. wt e \<longrightarrow> simplifyExpr (ts_config (pc_solver ctx)) cs e \<noteq> None \<and>
        simplifyExpr (ts_config (pc_solver ctx)) (cs @ [in_bounds ctx ps]) e \<noteq> None))"

definition state_ok :: "pctx \<Rightarrow> pstate \<Rightarrow> expr list \<Rightarrow> bool" where
  "state_ok ctx ps cs \<longleftrightarrow> distinct cs \<and> wf_constraints cs \<and> feasible cs \<and> (\<forall>c \<in> set cs. idx_array ps \<notin> reads c) \<and>
     solver_ok ctx ps cs"

lemma vary_idx:
  assumes "object_ok ctx ps" "\<forall>c \<in> set cs. idx_array ps \<notin> reads c" "wf_env \<sigma>" "holds cs \<sigma>" "0 \<le> v" "v < 2 ^ 32"
  shows "wf_env (\<sigma>(idx_array ps := \<lambda>_. v))" "holds cs (\<sigma>(idx_array ps := \<lambda>_. v))"
proof -
  have "arr_range (idx_array ps) = 32" using assms(1) by (simp add: object_ok_def idx_ok_def)
  then show "wf_env (\<sigma>(idx_array ps := \<lambda>_. v))" using assms(3,5,6) by (simp add: wf_env_def in_width_def)
  have "eval (\<sigma>(idx_array ps := \<lambda>_. v)) c = eval \<sigma> c" if "c \<in> set cs" for c
    by (rule eval_agree(1)) (use assms(2) that in auto)
  then show "holds cs (\<sigma>(idx_array ps := \<lambda>_. v))" using assms(4) by (simp add: holds_def)
qed

lemma state_answering:
  assumes "object_ok ctx ps" "state_ok ctx ps cs"
  shows "answering (pc_solver ctx) cs" "answering (pc_solver ctx) (cs @ [in_bounds ctx ps])"
proof -
  have s: "wf_constraints cs" "feasible cs" "\<forall>c \<in> set cs. idx_array ps \<notin> reads c" "solver_ok ctx ps cs"
    using assms(2) by (simp_all add: state_ok_def)
  show "answering (pc_solver ctx) cs" using s by (auto simp: answering_def solver_ok_def)
  obtain \<sigma> where \<sigma>: "wf_env \<sigma>" "holds cs \<sigma>" using s(2) by (auto simp: feasible_def)
  let ?t = "\<sigma>(idx_array ps := \<lambda>_. 0)"
  have t: "wf_env ?t" "holds cs ?t" using vary_idx [OF assms(1) s(3) \<sigma>, of 0] by simp_all
  moreover have "eval ?t (in_bounds ctx ps) \<noteq> 0"
    using in_bounds_ok(4) [OF assms(1) t(1)] assms(1) by (simp add: object_ok_def)
  ultimately have "feasible (cs @ [in_bounds ctx ps])" by (auto simp: feasible_def holds_def)
  then show "answering (pc_solver ctx) (cs @ [in_bounds ctx ps])"
    using s in_bounds_ok(2,3) [OF assms(1)] by (auto simp: answering_def solver_ok_def wf_constraints_def)
qed

lemma add_in_bounds:
  assumes "object_ok ctx ps" "state_ok ctx ps cs"
  shows "addConstraint (ts_config (pc_solver ctx)) (in_bounds ctx ps) cs = Some (cs @ [in_bounds ctx ps])"
    "removeConstraint (in_bounds ctx ps) (cs @ [in_bounds ctx ps]) = cs"
proof -
  have s: "distinct cs" "\<forall>c \<in> set cs. idx_array ps \<notin> reads c" "solver_ok ctx ps cs" using assms(2) by (simp_all add: state_ok_def)
  have new: "new_for cs (in_bounds ctx ps)"
    unfolding new_for_def
  proof (intro ballI impI)
    fix d c assume "d \<in> nodes (in_bounds ctx ps)" "c \<in> set cs" "d \<in> nodes c"
    then show "isConstantExpr d" using in_bounds_ok(5) [OF assms(1)] nodes_reads [of d c] s(2) by blast
  qed
  show "addConstraint (ts_config (pc_solver ctx)) (in_bounds ctx ps) cs = Some (cs @ [in_bounds ctx ps])"
    by (rule addConstraint_new [OF new]) (use s in \<open>auto simp: solver_ok_def isConstantExpr_iff in_bounds_def\<close>)
  have "in_bounds ctx ps \<notin> set cs"
    using new node_self [of "in_bounds ctx ps"] by (auto simp: new_for_def isConstantExpr_iff in_bounds_def)
  then show "removeConstraint (in_bounds ctx ps) (cs @ [in_bounds ctx ps]) = cs" by (simp add: removeConstraint_def)
qed

section \<open>Offsets and their lines\<close>

definition offset_in :: "pctx \<Rightarrow> pstate \<Rightarrow> expr list \<Rightarrow> expr \<Rightarrow> bool" where
  "offset_in ctx ps cs off \<longleftrightarrow> wt off \<and> 32 \<le> getWidth off \<and> getWidth off \<le> 64 \<and> idx_array ps \<notin> reads off \<and>
     (\<forall>\<sigma>. wf_env \<sigma> \<longrightarrow> holds cs \<sigma> \<longrightarrow> eval \<sigma> off < int (mo_size (ps_object ps)))"

definition line_at :: "pctx \<Rightarrow> env \<Rightarrow> expr \<Rightarrow> nat" where
  "line_at ctx \<sigma> off = nat (eval \<sigma> off) div cacheLineSize ctx"

text \<open>What a line expression is: its value does not depend on the arbitrary offset.\<close>

definition line_expr :: "array \<Rightarrow> expr \<Rightarrow> bool" where
  "line_expr ia cl \<longleftrightarrow> wt cl \<and> getWidth cl = 32 \<and>
     (\<forall>\<sigma> \<tau>. wf_env \<sigma> \<longrightarrow> wf_env \<tau> \<longrightarrow> (\<forall>a. a \<noteq> ia \<longrightarrow> \<sigma> a = \<tau> a) \<longrightarrow> eval \<sigma> cl = eval \<tau> cl)"

lemma line_bound:
  assumes "object_ok ctx ps" "v < mo_size (ps_object ps)"
  shows "v div cacheLineSize ctx < line_count ctx ps" "int v div int (cacheLineSize ctx) = int (v div cacheLineSize ctx)"
    "v div cacheLineSize ctx < 2 ^ 32"
proof -
  have "0 < cacheAlignment (pc_parent ctx)" using assms(1) by (simp add: object_ok_def cacheLineSize_def)
  then show "v div cacheLineSize ctx < line_count ctx ps"
    using offset_in_lines [of "pc_parent ctx" v "mo_size (ps_object ps)"] assms(2) by (simp add: line_count_def cacheLineSize_def)
  show "int v div int (cacheLineSize ctx) = int (v div cacheLineSize ctx)" by (simp add: of_nat_div)
  have "v < 2 ^ 32" using assms by (simp add: object_ok_def wf_mobj_def)
  then show "v div cacheLineSize ctx < 2 ^ 32" by (rule le_less_trans [OF div_le_dividend])
qed

lemma getCacheLine_line:
  assumes "object_ok ctx ps" "offset_in ctx ps cs off"
  shows "ok (getCacheLine ctx off) (\<lambda>cl. line_expr (idx_array ps) cl \<and>
    (\<forall>\<sigma>. wf_env \<sigma> \<longrightarrow> holds cs \<sigma> \<longrightarrow> eval \<sigma> cl = int (line_at ctx \<sigma> off) \<and> line_at ctx \<sigma> off < line_count ctx ps))"
proof -
  have o: "wt off" "32 \<le> getWidth off" "getWidth off \<le> 64" "idx_array ps \<notin> reads off" using assms(2) by (simp_all add: offset_in_def)
  have d: "denotes (\<lambda>_. True) off (getWidth off) (\<lambda>\<sigma>. eval \<sigma> off)" using o(1) by (simp add: denotes_def)
  have "0 < cacheLineSize ctx" "cacheLineSize ctx < 2 ^ 32" using assms(1) by (simp_all add: object_ok_def)
  from getCacheLine_ok [OF d o(2,3) this] obtain cl where cl: "getCacheLine ctx off = Some cl"
    "denotes (\<lambda>_. True) cl 32 (\<lambda>\<sigma>. take_bit 32 (eval \<sigma> off div int (cacheLineSize ctx)))" by (auto simp: ok_iff)
  have "eval \<sigma> cl = eval \<tau> cl" if "wf_env \<sigma>" "wf_env \<tau>" "\<forall>a. a \<noteq> idx_array ps \<longrightarrow> \<sigma> a = \<tau> a" for \<sigma> \<tau>
  proof -
    have "eval \<sigma> off = eval \<tau> off" by (rule eval_agree(1)) (use that(3) o(4) in metis)
    then show ?thesis using cl(2) that by (simp add: denotes_def)
  qed
  then have le: "line_expr (idx_array ps) cl" using cl(2) unfolding line_expr_def denotes_def by blast
  have "eval \<sigma> cl = int (line_at ctx \<sigma> off) \<and> line_at ctx \<sigma> off < line_count ctx ps" if "wf_env \<sigma>" "holds cs \<sigma>" for \<sigma>
  proof -
    have v: "0 \<le> eval \<sigma> off" "nat (eval \<sigma> off) < mo_size (ps_object ps)"
      using assms(2) that eval_nonneg [OF o(1) that(1)] by (auto simp: offset_in_def)
    note lb = line_bound [OF assms(1) v(2)]
    have "eval \<sigma> cl = take_bit 32 (int (nat (eval \<sigma> off)) div int (cacheLineSize ctx))" using cl(2) that v(1) by (simp add: denotes_def)
    then show ?thesis unfolding lb(2) using lb(1,3) by (simp add: line_at_def take_bit_int_eq_self)
  qed
  then show ?thesis using cl(1) le by simp
qed

section \<open>Recording a write\<close>

text \<open>The lists that a new update of line \<open>cl\<close> with value \<open>k\<close> gives.\<close>

definition put :: "expr \<Rightarrow> apint \<Rightarrow> ulist \<Rightarrow> ulist" where
  "put cl k ul = (fst ul, UpdateNode (snd ul) cl (ConstantExpr k))"

lemma idx_freeD:
  "idx_free ia ul \<Longrightarrow> wf_env \<sigma> \<Longrightarrow> wf_env \<tau> \<Longrightarrow> \<forall>a. a \<noteq> ia \<longrightarrow> \<sigma> a = \<tau> a \<Longrightarrow> lval \<sigma> ul l = lval \<tau> ul l"
  unfolding idx_free_def by (drule spec [of _ \<sigma>], drule spec [of _ \<tau>], drule spec [of _ l], drule (1) mp, drule (1) mp, erule (1) mp)

lemma line_exprD:
  "line_expr ia cl \<Longrightarrow> wf_env \<sigma> \<Longrightarrow> wf_env \<tau> \<Longrightarrow> \<forall>a. a \<noteq> ia \<longrightarrow> \<sigma> a = \<tau> a \<Longrightarrow> eval \<sigma> cl = eval \<tau> cl"
  unfolding line_expr_def by (drule conjunct2, drule conjunct2, drule spec [of _ \<sigma>], drule spec [of _ \<tau>], drule (1) mp, drule (1) mp, erule (1) mp)

lemma line_expr_denotes: "line_expr ia cl \<Longrightarrow> denotes A cl 32 (\<lambda>\<sigma>. eval \<sigma> cl)"
  unfolding line_expr_def denotes_def by blast

lemma put_ok:
  assumes "wf_lines n r c V ul" "line_expr ia cl" "in_width r k" "k \<in> W" "V \<subseteq> W"
  shows "UpdateList_extend ul cl (ConstantExpr (APInt r k)) = Some (put cl (APInt r k) ul)"
    "wf_lines n r c W (put cl (APInt r k) ul)"
    "wf_env \<sigma> \<Longrightarrow> lval \<sigma> (put cl (APInt r k) ul) l = (if eval \<sigma> cl = int l then k else lval \<sigma> ul l)"
    "idx_free ia ul \<Longrightarrow> idx_free ia (put cl (APInt r k) ul)"
proof -
  have d: "denotes (\<lambda>_. True) cl 32 (\<lambda>\<sigma>. eval \<sigma> cl)" by (rule line_expr_denotes [OF assms(2)])
  note e = extend_lines [OF assms(1) d assms(3-5)]
  show "UpdateList_extend ul cl (ConstantExpr (APInt r k)) = Some (put cl (APInt r k) ul)"
    "wf_lines n r c W (put cl (APInt r k) ul)" unfolding put_def by (fact e(1), fact e(2))
  show l: "lval \<sigma> (put cl (APInt r k) ul) l = (if eval \<sigma> cl = int l then k else lval \<sigma> ul l)" if "wf_env \<sigma>" for \<sigma> l
    unfolding put_def by (rule e(3) [OF that])
  show "idx_free ia (put cl (APInt r k) ul)" if "idx_free ia ul"
    unfolding idx_free_def
  proof (intro allI impI)
    fix \<sigma> \<tau> :: env and j
    assume a: "wf_env \<sigma>" "wf_env \<tau>" "\<forall>a. a \<noteq> ia \<longrightarrow> \<sigma> a = \<tau> a"
    have "eval \<sigma> cl = eval \<tau> cl" by (rule line_exprD [OF assms(2) a])
    moreover have "lval \<sigma> ul j = lval \<tau> ul j" by (rule idx_freeD [OF that a])
    ultimately show "lval \<sigma> (put cl (APInt r k) ul) j = lval \<tau> (put cl (APInt r k) ul) j" unfolding l [OF a(1)] l [OF a(2)] by simp
  qed
qed

lemma put_keeps:
  assumes "wf_lines n r c V ul" "line_expr ia cl" "in_width r k" "k \<in> W" "V \<subseteq> W" "idx_free ia ul"
  shows "wf_lines n r c W (put cl (APInt r k) ul) \<and> idx_free ia (put cl (APInt r k) ul)"
  using put_ok [OF assms(1-5)] assms(6) by blast

lemma head_put: "isUpdateListHeadEqualTo (put cl k ul) i v \<longleftrightarrow> i = cl \<and> v = ConstantExpr k"
  by (auto simp: isUpdateListHeadEqualTo_def put_def)

text \<open>The head of a list determines the value of its line.\<close>

lemma lval_head: "isUpdateListHeadEqualTo ul cl v \<Longrightarrow> eval \<sigma> cl = int l \<Longrightarrow> lval \<sigma> ul l = eval \<sigma> v"
  by (cases "snd ul") (auto simp: isUpdateListHeadEqualTo_def lval_def)

lemma lists_okD:
  assumes "lists_ok n m ps"
  shows "wf_lines n 8 1 {0, 1} (cacheLineUpdates ps)" "wf_lines n 8 1 {0, 1} (pendingCacheLineUpdates ps)"
    "wf_lines n 64 0 (cause_values m) (rootCauseWrites ps)" "wf_lines n 64 0 (cause_values m) (pendingRootCauseWrites ps)"
    "wf_lines n 64 0 (cause_values m) (rootCauseFlushes ps)" "wf_lines n 64 0 (cause_values m) (pendingRootCauseFlushes ps)"
    "idx_free (idx_array ps) (cacheLineUpdates ps)" "idx_free (idx_array ps) (pendingCacheLineUpdates ps)"
    "idx_free (idx_array ps) (rootCauseWrites ps)" "idx_free (idx_array ps) (pendingRootCauseWrites ps)"
    "idx_free (idx_array ps) (rootCauseFlushes ps)"
  using assms by (simp_all add: lists_ok_def)

lemma lists_ok_mono:
  assumes "lists_ok n m ps" "known_ids m \<subseteq> known_ids m'"
  shows "lists_ok n m' ps"
proof -
  have "wf_lines n 64 0 (cause_values m') ul" if "wf_lines n 64 0 (cause_values m) ul" for ul
    by (rule wf_lines_mono [OF that cause_values_mono [OF assms(2)]])
  then show ?thesis using assms(1) by (simp add: lists_ok_def)
qed

lemma ps_inv_mono: "ps_inv ctx m ps \<Longrightarrow> known_ids m \<subseteq> known_ids m' \<Longrightarrow> ps_inv ctx m' ps"
  unfolding ps_inv_def using lists_ok_mono by blast

text \<open>What does not change.\<close>

definition same_object :: "pstate \<Rightarrow> pstate \<Rightarrow> bool" where
  "same_object ps ps' \<longleftrightarrow> ps_os ps' = ps_os ps \<and> ps_object ps' = ps_object ps \<and> idxUnbounded ps' = idxUnbounded ps \<and>
     rootCauseWidth ps' = rootCauseWidth ps \<and> ignoreBytes ps' = ignoreBytes ps"

lemma same_object_simps:
  assumes "same_object ps ps'"
  shows "idx_array ps' = idx_array ps" "line_count ctx ps' = line_count ctx ps" "object_ok ctx ps' = object_ok ctx ps"
    "in_bounds ctx ps' = in_bounds ctx ps" "state_ok ctx ps' cs = state_ok ctx ps cs" "offset_in ctx ps' cs off = offset_in ctx ps cs off"
proof -
  show i: "idx_array ps' = idx_array ps" "line_count ctx ps' = line_count ctx ps" "in_bounds ctx ps' = in_bounds ctx ps"
    using assms by (simp_all add: same_object_def idx_array_def line_count_def in_bounds_def any_offset_def)
  show "object_ok ctx ps' = object_ok ctx ps" "state_ok ctx ps' cs = state_ok ctx ps cs" "offset_in ctx ps' cs off = offset_in ctx ps cs off"
    using assms i by (simp_all add: same_object_def object_ok_def idx_ok_def state_ok_def solver_ok_def offset_in_def)
qed

lemma recordWrite_ok:
  assumes inv: "ps_inv ctx m ps" and cl: "line_expr (idx_array ps) cl" and i: "i \<in> known_ids m" "i \<noteq> 0"
  shows "ok (recordWrite cl (APInt 64 (uint i)) ps) (\<lambda>ps'. ps_inv ctx m ps' \<and> same_object ps ps' \<and>
    rootCauseFlushes ps' = rootCauseFlushes ps \<and> (\<forall>\<sigma> l. wf_env \<sigma> \<longrightarrow> l < line_count ctx ps \<longrightarrow>
      lval \<sigma> (cacheLineUpdates ps') l = (if eval \<sigma> cl = int l then 0 else lval \<sigma> (cacheLineUpdates ps) l) \<and>
      lval \<sigma> (pendingCacheLineUpdates ps') l = (if eval \<sigma> cl = int l then 0 else lval \<sigma> (pendingCacheLineUpdates ps) l) \<and>
      lval \<sigma> (rootCauseWrites ps') l = (if eval \<sigma> cl = int l then uint i else lval \<sigma> (rootCauseWrites ps) l)))"
proof -
  let ?n = "line_count ctx ps" and ?d = "ConstantExpr getDirtyExpr" and ?V = "cause_values m"
  let ?h = "isUpdateListHeadEqualTo (pendingCacheLineUpdates ps) cl ?d"
  define u where "u = (if ?h then cacheLineUpdates ps else put cl (APInt 8 0) (cacheLineUpdates ps))"
  define p where "p = (if ?h then pendingCacheLineUpdates ps else put cl (APInt 8 0) (pendingCacheLineUpdates ps))"
  define ps' where "ps' = ps\<lparr>cacheLineUpdates := u, pendingCacheLineUpdates := p,
    rootCauseWrites := put cl (APInt 64 (uint i)) (rootCauseWrites ps),
    pendingRootCauseWrites := put cl (APInt 64 (uint i)) (pendingRootCauseWrites ps)\<rparr>"
  note L = lists_okD [of ?n m ps]
  have l: "lists_ok ?n m ps" "heads_agree ps" "object_ok ctx ps" and ag: "\<And>\<sigma> l. wf_env \<sigma> \<Longrightarrow> l < ?n \<Longrightarrow> lists_agree \<sigma> ps l"
    using inv by (simp_all add: ps_inv_def)
  have iw: "in_width 64 (uint i)" "uint i \<in> ?V" "in_width 8 (0::int)"
    using i unsigned_less [of i] by (simp_all add: in_width_def cause_values_def)
  note w = put_ok [OF L(3) [OF l(1)] cl iw(1,2) subset_refl] and pw = put_ok [OF L(4) [OF l(1)] cl iw(1,2) subset_refl]
    and c = put_ok [OF L(1) [OF l(1)] cl iw(3), of "{0, 1}", simplified] and pc = put_ok [OF L(2) [OF l(1)] cl iw(3), of "{0, 1}", simplified]
  have r: "recordWrite cl (APInt 64 (uint i)) ps = Some ps'"
    using w(1) pw(1) c(1) pc(1) by (simp add: recordWrite_def getDirtyExpr_def ps'_def u_def p_def)
  have hd: "?h \<Longrightarrow> isUpdateListHeadEqualTo (cacheLineUpdates ps) cl ?d" using l(2) by (simp add: heads_agree_def)
  have lu: "lval \<sigma> u l = (if eval \<sigma> cl = int l then 0 else lval \<sigma> (cacheLineUpdates ps) l)"
    "lval \<sigma> p l = (if eval \<sigma> cl = int l then 0 else lval \<sigma> (pendingCacheLineUpdates ps) l)" if "wf_env \<sigma>" for \<sigma> l
    using c(3) [OF that, of l] pc(3) [OF that, of l] lval_head [of "cacheLineUpdates ps" cl ?d \<sigma> l]
      lval_head [of "pendingCacheLineUpdates ps" cl ?d \<sigma> l] hd by (auto simp: u_def p_def getDirtyExpr_def)
  have lists: "lists_ok ?n m ps'"
    using L [OF l(1)] w(2,4) pw(2,4) c(2,4) pc(2,4) by (simp add: lists_ok_def ps'_def u_def p_def idx_array_def)
  have heads: "heads_agree ps'" using l(2) by (auto simp: heads_agree_def ps'_def u_def p_def head_put)
  have s: "same_object ps ps'" by (simp add: same_object_def ps'_def)
  note so = same_object_simps [OF s]
  have "uint i \<noteq> 0" using i(2) unsigned_eq_0_iff by blast
  then have "lists_agree \<sigma> ps' l" if "wf_env \<sigma>" "l < ?n" for \<sigma> l
    using ag [OF that] lu [OF that(1)] w(3) [OF that(1)] pw(3) [OF that(1)] by (simp add: lists_agree_def ps'_def)
  then have "ps_inv ctx m ps'" using lists heads l(3) so by (simp add: ps_inv_def)
  then show ?thesis using r s lu w(3) by (simp add: ps'_def)
qed

end
