(* ===== verification/Persistency.thy ===== *)
theory Persistency
  imports Prelude
begin

text \<open>
  The persistency model that the tool checks programs against, cache line by cache line: a store makes
  a line dirty, a flush schedules it, and a fence makes the scheduled lines persistent.  The model is
  given as a machine and as a condition on traces; a locale states what an implementation
  promises and derives what it reports about a trace.
\<close>

datatype event = EStore nat | EFlush nat | EFence

text \<open>One line: persistent now, and persistent after the next fence.\<close>

fun line_step :: "nat \<Rightarrow> event \<Rightarrow> bool \<times> bool \<Rightarrow> bool \<times> bool" where
  "line_step l (EStore k) (now, soon) = (if k = l then (False, False) else (now, soon))"
| "line_step l (EFlush k) (now, soon) = (now, soon \<or> k = l)"
| "line_step l EFence (now, soon) = (soon, soon)"

text \<open>Every store to the line is followed by a flush of it that is followed by a fence.\<close>

definition durable :: "event list \<Rightarrow> nat \<Rightarrow> bool" where
  "durable tr l \<longleftrightarrow> (\<forall>xs ys. tr = xs @ EStore l # ys \<longrightarrow> (\<exists>us vs. ys = us @ EFlush l # vs \<and> EFence \<in> set vs))"

definition scheduled :: "event list \<Rightarrow> nat \<Rightarrow> bool" where
  "scheduled tr l \<longleftrightarrow> (\<forall>xs ys. tr = xs @ EStore l # ys \<longrightarrow> EFlush l \<in> set ys)"

lemma durable_scheduled: "durable tr l \<Longrightarrow> scheduled tr l"
  by (fastforce simp: durable_def scheduled_def)

lemma snoc_eq_Cons_append:
  "tr @ [e] = xs @ a # ys \<longleftrightarrow> (ys = [] \<and> tr = xs \<and> e = a) \<or> (\<exists>zs. ys = zs @ [e] \<and> tr = xs @ a # zs)"
  by (cases ys rule: rev_cases) auto

lemma all_after_snoc:
  "(\<forall>xs ys. tr @ [e] = xs @ a # ys \<longrightarrow> P ys) \<longleftrightarrow> (e = a \<longrightarrow> P []) \<and> (\<forall>xs zs. tr = xs @ a # zs \<longrightarrow> P (zs @ [e]))"
  unfolding snoc_eq_Cons_append by blast

lemma ex_after_snoc:
  "(\<exists>us vs. ys @ [e] = us @ a # vs \<and> Q vs) \<longleftrightarrow> (e = a \<and> Q []) \<or> (\<exists>us vs. ys = us @ a # vs \<and> Q (vs @ [e]))"
  unfolding snoc_eq_Cons_append by blast

lemma durable_snoc:
  "durable (tr @ [e]) l \<longleftrightarrow> (case e of EStore k \<Rightarrow> k \<noteq> l \<and> durable tr l | EFlush k \<Rightarrow> durable tr l | EFence \<Rightarrow> scheduled tr l)"
  unfolding durable_def scheduled_def all_after_snoc ex_after_snoc
  by (cases e) (auto simp: in_set_conv_decomp)

lemma scheduled_snoc:
  "scheduled (tr @ [e]) l \<longleftrightarrow> (case e of EStore k \<Rightarrow> k \<noteq> l \<and> scheduled tr l | EFlush k \<Rightarrow> k = l \<or> scheduled tr l | EFence \<Rightarrow> scheduled tr l)"
  unfolding scheduled_def all_after_snoc by (cases e) auto

text \<open>The machine decides the condition on traces.\<close>

lemma machine_durable: "fold (line_step l) tr (True, True) = (durable tr l, scheduled tr l)"
proof (induction tr rule: rev_induct)
  case (snoc e tr)
  then show ?case by (cases e) (auto simp: durable_snoc scheduled_snoc)
qed (simp add: durable_def scheduled_def)

text \<open>Flushing the lines and a fence make every line persistent, whatever came before.\<close>

lemma flush_all_durable:
  assumes "\<And>l. l < n \<Longrightarrow> EFlush l \<in> set fl" "\<And>k. EStore k \<notin> set fl" "l < n"
  shows "durable (tr @ fl @ [EFence]) l"
proof -
  have "EFlush l \<in> set ys" if eq: "tr @ fl = xs @ EStore l # ys" for xs ys
  proof -
    obtain us where "(tr = xs @ us \<and> us @ fl = EStore l # ys) \<or> (tr @ us = xs \<and> fl = us @ EStore l # ys)"
      using eq by (auto simp: append_eq_append_conv2)
    then have "set fl \<subseteq> set ys" using assms(2) [of l] by (cases us) auto
    then show ?thesis using assms(1,3) by blast
  qed
  then have "scheduled (tr @ fl) l" by (simp add: scheduled_def)
  then show ?thesis using durable_snoc [of "tr @ fl" EFence l] by simp
qed

section \<open>The contract\<close>

text \<open>
  An implementation on states \<open>'s\<close> with operations \<open>'op\<close>: \<open>event s \<sigma> p\<close> is what the operation \<open>p\<close> is in
  the execution \<open>\<sigma>\<close>, one of those that the state admits.  Operations use up identifiers and
  counters: \<open>room s n\<close> says that enough are left for \<open>n\<close> operations.
\<close>

locale persistent_memory =
  fixes inv :: "'s \<Rightarrow> bool" and admits :: "'s \<Rightarrow> 'e \<Rightarrow> bool" and op_ok :: "'s \<Rightarrow> 'op \<Rightarrow> bool"
    and event :: "'s \<Rightarrow> 'e \<Rightarrow> 'op \<Rightarrow> event" and lines :: "'s \<Rightarrow> nat"
    and now :: "'s \<Rightarrow> 'e \<Rightarrow> nat \<Rightarrow> bool" and soon :: "'s \<Rightarrow> 'e \<Rightarrow> nat \<Rightarrow> bool"
    and step :: "'op \<Rightarrow> 's \<Rightarrow> 's option" and room :: "'s \<Rightarrow> nat \<Rightarrow> bool"
  assumes step_ok: "inv s \<Longrightarrow> op_ok s p \<Longrightarrow> room s (Suc n) \<Longrightarrow>
    ok (step p s) (\<lambda>s'. inv s' \<and> room s' n \<and> lines s' = lines s \<and> admits s' = admits s \<and>
      op_ok s' = op_ok s \<and> event s' = event s \<and>
      (\<forall>\<sigma> l. admits s \<sigma> \<longrightarrow> l < lines s \<longrightarrow>
        (now s' \<sigma> l, soon s' \<sigma> l) = line_step l (event s \<sigma> p) (now s \<sigma> l, soon s \<sigma> l)))"
begin

lemma run_ok:
  assumes "inv s" "\<forall>p \<in> set ps. op_ok s p" "room s (length ps + n)"
  shows "ok (foldM step ps s) (\<lambda>s'. inv s' \<and> room s' n \<and> lines s' = lines s \<and>
    admits s' = admits s \<and> op_ok s' = op_ok s \<and> event s' = event s \<and> (\<forall>\<sigma> l. admits s \<sigma> \<longrightarrow> l < lines s \<longrightarrow>
      (now s' \<sigma> l, soon s' \<sigma> l) = fold (line_step l) (map (event s \<sigma>) ps) (now s \<sigma> l, soon s \<sigma> l)))"
  using assms
proof (induction ps arbitrary: s)
  case (Cons p ps)
  from step_ok [of s p "length ps + n"] Cons.prems obtain s1 where s1: "step p s = Some s1" "inv s1" "room s1 (length ps + n)"
    "lines s1 = lines s" "admits s1 = admits s" "op_ok s1 = op_ok s" "event s1 = event s"
    "\<And>\<sigma> l. admits s \<sigma> \<Longrightarrow> l < lines s \<Longrightarrow>
      (now s1 \<sigma> l, soon s1 \<sigma> l) = line_step l (event s \<sigma> p) (now s \<sigma> l, soon s \<sigma> l)"
    by (auto simp: ok_iff)
  have "\<forall>q \<in> set ps. op_ok s1 q" using Cons.prems(2) s1(6) by simp
  from Cons.IH [OF s1(2) this s1(3)] show ?case using s1 by (auto elim!: ok_mono)
qed simp

text \<open>On a clean state, a line is reported persistent exactly if the trace makes it durable.\<close>

lemma run_durable:
  assumes "inv s" "\<forall>p \<in> set ps. op_ok s p" "room s (length ps + n)"
    and "\<And>\<sigma> l. admits s \<sigma> \<Longrightarrow> l < lines s \<Longrightarrow> now s \<sigma> l \<and> soon s \<sigma> l"
  shows "ok (foldM step ps s) (\<lambda>s'. inv s' \<and> room s' n \<and> lines s' = lines s \<and> admits s' = admits s \<and> op_ok s' = op_ok s \<and>
    event s' = event s \<and> (\<forall>\<sigma> l. admits s \<sigma> \<longrightarrow> l < lines s \<longrightarrow>
      (now s' \<sigma> l \<longleftrightarrow> durable (map (event s \<sigma>) ps) l) \<and> (soon s' \<sigma> l \<longleftrightarrow> scheduled (map (event s \<sigma>) ps) l)))"
  by (rule ok_mono [OF run_ok [OF assms(1-3)]]) (use assms(4) machine_durable in auto)

end

end
