(* ===== verification/Persistent_Steps.thy ===== *)
theory Persistent_Steps
  imports Persistent_Inv Persistency
begin

text \<open>
  The operations on a persistent object, each returning without a failed assertion and acting on every
  cache line as the persistency model says.
\<close>

section \<open>Writes\<close>

text \<open>The write that the root cause of a line names, in the lists that include pending flushes.\<close>

lemma previousWrites_ok:
  assumes inv: "ps_inv ctx m ps" "mgr_ok m" and st: "state_ok ctx ps (x_constraints x)" and cl: "line_expr (idx_array ps) cl"
    and b: "\<And>\<sigma>. wf_env \<sigma> \<Longrightarrow> holds (x_constraints x) \<sigma> \<Longrightarrow> eval \<sigma> cl < int (line_count ctx ps)"
  shows "ok (previousWrites ctx cl (ps, x)) (\<lambda>(ids, x'). x' = x \<and> distinct ids \<and> set ids \<subseteq> known_ids m)"
proof -
  let ?cs = "x_constraints x @ [in_bounds ctx ps]"
  have o: "object_ok ctx ps" "lists_ok (line_count ctx ps) m ps" using inv(1) by (simp_all add: ps_inv_def)
  have cao: "\<not> pc_cao ctx" using st by (simp add: state_ok_def solver_ok_def)
  have r: "ids_valid m" using inv(2) by (simp add: mgr_ok_def)
  have b': "eval \<sigma> cl < int (line_count ctx ps)" if "wf_env \<sigma>" "holds ?cs \<sigma>" for \<sigma>
    using b [OF that(1)] that(2) by (simp add: holds_def)
  have rw: "rootCauseWidth ps = 64" using o(1) by (simp add: object_ok_def)
  note wl = lists_okD(4) [OF o(2)]
  have "ok (getRootCause ctx ps ?cs (pendingRootCauseWrites ps) cl) (\<lambda>ids. distinct ids \<and> set ids =
      {i. i \<noteq> 0 \<and> (\<exists>\<sigma>. wf_env \<sigma> \<and> holds ?cs \<sigma> \<and> lval \<sigma> (pendingRootCauseWrites ps) (nat (eval \<sigma> cl)) = uint i)})"
    by (rule getRootCause_ok [OF state_answering(2) [OF o(1) st] rw wl line_expr_denotes [OF cl] cause_values_range [OF r]])
      (rule b')
  then obtain ids where ids: "getRootCause ctx ps ?cs (pendingRootCauseWrites ps) cl = Some ids" "distinct ids"
    "set ids = {i. i \<noteq> 0 \<and> (\<exists>\<sigma>. wf_env \<sigma> \<and> holds ?cs \<sigma> \<and> lval \<sigma> (pendingRootCauseWrites ps) (nat (eval \<sigma> cl)) = uint i)}"
    by (elim okE) blast
  have wt: "wt cl" using line_expr_denotes [OF cl, of "\<lambda>_. True"] by (simp add: denotes_def)
  have "i \<in> known_ids m" if i: "i \<in> set ids" for i
  proof -
    obtain \<sigma> where s: "i \<noteq> 0" "wf_env \<sigma>" "holds ?cs \<sigma>" "lval \<sigma> (pendingRootCauseWrites ps) (nat (eval \<sigma> cl)) = uint i"
      using i ids(3) by blast
    have "0 \<le> eval \<sigma> cl" by (rule eval_nonneg [OF wt s(2)])
    then have "nat (eval \<sigma> cl) < line_count ctx ps" using b' [OF s(2,3)] by linarith
    from lval_values [OF wl this, of \<sigma>] have "uint i \<in> cause_values m" using s(4) by (simp add: cause_values_def)
    moreover have "uint i \<noteq> 0" using s(1) unsigned_eq_0_iff by blast
    ultimately obtain j where j: "uint i = uint j" "j \<in> known_ids m" by (auto simp: cause_values_def)
    show ?thesis using j(2) unsigned_word_eqI [OF j(1)] by simp
  qed
  moreover have "previousWrites ctx cl (ps, x) = Some (ids, x)"
    using any_offset_ok(1) [OF o(1)] in_bounds_ok(1) [OF o(1)] add_in_bounds [OF o(1) st] ids(1) cao
    by (simp add: previousWrites_def)
  ultimately show ?thesis using ids(2) by auto
qed

text \<open>What an operation may use up: at most one identifier, and no report.\<close>

definition uses_id :: "manager \<Rightarrow> manager \<Rightarrow> bool" where
  "uses_id m m' \<longleftrightarrow> mgr_ok m' \<and> known_ids m \<subseteq> known_ids m' \<and> length (usedIds m') \<le> Suc (length (usedIds m)) \<and>
     totalOccurences m' = totalOccurences m"

text \<open>A location can still be named \<open>k\<close> times.\<close>

definition can_name :: "pctx \<Rightarrow> xstate \<Rightarrow> nat \<Rightarrow> bool" where
  "can_name ctx x k \<longleftrightarrow> length (usedIds (x_rootCauseMgr x)) + k \<le> 2 ^ 32 \<and> seed_ok (pc_hash_str ctx) (pc_hash_int ctx) (x_view x)"

lemma can_nameD:
  "can_name ctx x (Suc k) \<Longrightarrow> length (usedIds (x_rootCauseMgr x)) < 2 ^ 32"
  "can_name ctx x k \<Longrightarrow> seed_ok (pc_hash_str ctx) (pc_hash_int ctx) (x_view x)"
  by (simp_all add: can_name_def)

lemma createRootCauseIdExpr_masking_ok:
  assumes "mgr_ok (x_rootCauseMgr x)" "can_name ctx x (Suc k)" "distinct ids"
    "set ids \<subseteq> known_ids (x_rootCauseMgr x)" "rootCauseWidth ps = 64"
  shows "ok (createRootCauseIdExpr_masking ctx ps r ids x) (\<lambda>(c, x'). \<exists>i m'. c = APInt 64 (uint i) \<and> i \<in> known_ids m' \<and> i \<noteq> 0 \<and>
    x' = x\<lparr>x_rootCauseMgr := m'\<rparr> \<and> uses_id (x_rootCauseMgr x) m')"
proof -
  from getId_ok [OF assms(1) can_nameD(1) [OF assms(2)] assms(3,4) can_nameD(2) [OF assms(2)], of "alloc_site (ps_object ps)" "x_prevPC x" r]
  obtain i m' where i: "getRootCauseLocationID_masking (pc_hash_str ctx) (pc_hash_int ctx) (x_view x) (alloc_site (ps_object ps))
      (x_prevPC x) r ids (x_rootCauseMgr x) = Some (i, m')" "uses_id (x_rootCauseMgr x) m'" "i \<in> known_ids m'"
    by (auto simp: ok_iff uses_id_def)
  have "i \<noteq> 0" using i(2,3) by (auto simp: uses_id_def mgr_ok_def ids_valid_def)
  moreover have "ConstantExpr_create i 64 = Some (APInt 64 (uint i))"
    using const_create_ok(1) [of 64 "unat i"] unsigned_less [of i] by simp
  ultimately show ?thesis using i assms(5) by (auto simp: createRootCauseIdExpr_masking_def)
qed

lemma createRootCauseIdExpr_ok:
  assumes "mgr_ok (x_rootCauseMgr x)" "can_name ctx x (Suc k)" "rootCauseWidth ps = 64"
  shows "ok (createRootCauseIdExpr ctx ps r x) (\<lambda>(c, x'). \<exists>i m'. c = APInt 64 (uint i) \<and> i \<in> known_ids m' \<and> i \<noteq> 0 \<and>
    x' = x\<lparr>x_rootCauseMgr := m'\<rparr> \<and> uses_id (x_rootCauseMgr x) m')"
proof -
  have "createRootCauseIdExpr ctx ps r x = createRootCauseIdExpr_masking ctx ps r [] x"
    by (simp add: createRootCauseIdExpr_def createRootCauseIdExpr_masking_def getRootCauseLocationID_no_masks)
  then show ?thesis using createRootCauseIdExpr_masking_ok [OF assms(1,2), of "[]"] assms(3) by simp
qed

text \<open>The line of an offset becomes dirty in both lists.\<close>

definition dirtied :: "pctx \<Rightarrow> expr list \<Rightarrow> expr \<Rightarrow> pstate \<Rightarrow> pstate \<Rightarrow> bool" where
  "dirtied ctx cs off ps ps' \<longleftrightarrow> (\<forall>\<sigma> l. wf_env \<sigma> \<longrightarrow> holds cs \<sigma> \<longrightarrow> l < line_count ctx ps \<longrightarrow>
     lval \<sigma> (cacheLineUpdates ps') l = (if line_at ctx \<sigma> off = l then 0 else lval \<sigma> (cacheLineUpdates ps) l) \<and>
     lval \<sigma> (pendingCacheLineUpdates ps') l = (if line_at ctx \<sigma> off = l then 0 else lval \<sigma> (pendingCacheLineUpdates ps) l))"

lemma dirtyCacheLineAtOffset_ok:
  assumes inv: "ps_inv ctx (x_rootCauseMgr x) ps" "mgr_ok (x_rootCauseMgr x)" and st: "state_ok ctx ps (x_constraints x)"
    and off: "offset_in ctx ps (x_constraints x) off" and ig: "ignoreBytes ps = []"
    and room: "can_name ctx x (Suc k)"
  shows "ok (dirtyCacheLineAtOffset ctx off (ps, x)) (\<lambda>(ps', x'). \<exists>i m'. x' = x\<lparr>x_rootCauseMgr := m'\<rparr> \<and>
    uses_id (x_rootCauseMgr x) m' \<and> ps_inv ctx m' ps' \<and> same_object ps ps' \<and> dirtied ctx (x_constraints x) off ps ps' \<and>
    i \<in> known_ids m' \<and> (\<forall>\<sigma>. wf_env \<sigma> \<longrightarrow> holds (x_constraints x) \<sigma> \<longrightarrow>
      lval \<sigma> (rootCauseWrites ps') (line_at ctx \<sigma> off) = uint i))"
proof -
  let ?cs = "x_constraints x" and ?m = "x_rootCauseMgr x"
  have o: "object_ok ctx ps" using inv(1) by (simp add: ps_inv_def)
  from getCacheLine_line [OF o off] obtain cl where cl: "getCacheLine ctx off = Some cl" "line_expr (idx_array ps) cl"
    "\<And>\<sigma>. wf_env \<sigma> \<Longrightarrow> holds ?cs \<sigma> \<Longrightarrow> eval \<sigma> cl = int (line_at ctx \<sigma> off) \<and> line_at ctx \<sigma> off < line_count ctx ps"
    by (auto simp: ok_iff)
  from previousWrites_ok [OF inv st cl(2)] cl(3) obtain ids where ids: "previousWrites ctx cl (ps, x) = Some (ids, x)"
    "distinct ids" "set ids \<subseteq> known_ids ?m" by (auto simp: ok_iff)
  have rw: "rootCauseWidth ps = 64" using o by (simp add: object_ok_def)
  from createRootCauseIdExpr_masking_ok [OF inv(2) room ids(2,3) rw, of PM_Unpersisted]
  obtain i m' where i: "createRootCauseIdExpr_masking ctx ps PM_Unpersisted ids x = Some (APInt 64 (uint i), x\<lparr>x_rootCauseMgr := m'\<rparr>)"
    "i \<in> known_ids m'" "i \<noteq> 0" "uses_id ?m m'" by (auto simp: ok_iff)
  have "ps_inv ctx m' ps" by (rule ps_inv_mono [OF inv(1)]) (use i(4) in \<open>simp add: uses_id_def\<close>)
  from recordWrite_ok [OF this cl(2) i(2,3)] obtain ps' where ps': "recordWrite cl (APInt 64 (uint i)) ps = Some ps'"
    "ps_inv ctx m' ps'" "same_object ps ps'"
    "\<And>\<sigma> l. wf_env \<sigma> \<Longrightarrow> l < line_count ctx ps \<Longrightarrow>
      lval \<sigma> (cacheLineUpdates ps') l = (if eval \<sigma> cl = int l then 0 else lval \<sigma> (cacheLineUpdates ps) l) \<and>
      lval \<sigma> (pendingCacheLineUpdates ps') l = (if eval \<sigma> cl = int l then 0 else lval \<sigma> (pendingCacheLineUpdates ps) l) \<and>
      lval \<sigma> (rootCauseWrites ps') l = (if eval \<sigma> cl = int l then uint i else lval \<sigma> (rootCauseWrites ps) l)"
    by (auto simp: ok_iff)
  have "dirtied ctx ?cs off ps ps'" using ps'(4) cl(3) by (simp add: dirtied_def)
  moreover have "lval \<sigma> (rootCauseWrites ps') (line_at ctx \<sigma> off) = uint i" if "wf_env \<sigma>" "holds ?cs \<sigma>" for \<sigma>
    using ps'(4) [OF that(1)] cl(3) [OF that] by simp
  ultimately show ?thesis using cl(1) ids(1) i ps' ig by (auto simp: dirtyCacheLineAtOffset_def)
qed

section \<open>Flushes\<close>

definition flushed :: "pctx \<Rightarrow> expr list \<Rightarrow> expr \<Rightarrow> pstate \<Rightarrow> pstate \<Rightarrow> bool" where
  "flushed ctx cs off ps ps' \<longleftrightarrow> cacheLineUpdates ps' = cacheLineUpdates ps \<and>
     (\<forall>\<sigma> l. wf_env \<sigma> \<longrightarrow> holds cs \<sigma> \<longrightarrow> l < line_count ctx ps \<longrightarrow>
     lval \<sigma> (pendingCacheLineUpdates ps') l = (if line_at ctx \<sigma> off = l then 1 else lval \<sigma> (pendingCacheLineUpdates ps) l))"

lemma recordFlush_ok:
  assumes inv: "ps_inv ctx m ps" and cl: "line_expr (idx_array ps) cl" and i: "i \<in> known_ids m"
  shows "\<exists>p ps'. UpdateList_extend (pendingCacheLineUpdates ps) cl (ConstantExpr getPersistedExpr) = Some p \<and>
    recordFlush cl (APInt 64 (uint i)) (ps\<lparr>pendingCacheLineUpdates := p\<rparr>) = Some ps' \<and>
    ps_inv ctx m ps' \<and> same_object ps ps' \<and> cacheLineUpdates ps' = cacheLineUpdates ps \<and>
    UpdateList_getSize (pendingCacheLineUpdates ps') = Suc (UpdateList_getSize (pendingCacheLineUpdates ps)) \<and>
    (\<forall>\<sigma> l. wf_env \<sigma> \<longrightarrow> lval \<sigma> (pendingCacheLineUpdates ps') l =
       (if eval \<sigma> cl = int l then 1 else lval \<sigma> (pendingCacheLineUpdates ps) l))"
proof -
  let ?n = "line_count ctx ps" and ?V = "cause_values m"
  define ps' where "ps' = ps\<lparr>pendingCacheLineUpdates := put cl (APInt 8 1) (pendingCacheLineUpdates ps),
    rootCauseFlushes := put cl (APInt 64 (uint i)) (rootCauseFlushes ps),
    pendingRootCauseFlushes := put cl (APInt 64 (uint i)) (pendingRootCauseFlushes ps),
    pendingRootCauseWrites := put cl (APInt 64 0) (pendingRootCauseWrites ps)\<rparr>"
  have l: "lists_ok ?n m ps" "heads_agree ps" "object_ok ctx ps" and ag: "\<And>\<sigma> l. wf_env \<sigma> \<Longrightarrow> l < ?n \<Longrightarrow> lists_agree \<sigma> ps l"
    using inv by (simp_all add: ps_inv_def)
  have iw: "in_width 64 (uint i)" "uint i \<in> ?V" "in_width 8 (1::int)" "in_width 64 (0::int)" "0 \<in> ?V"
    using i unsigned_less [of i] by (simp_all add: in_width_def cause_values_def)
  note L = lists_okD [OF l(1)]
  note f = put_ok [OF L(5) cl iw(1,2) subset_refl] and pf = put_ok [OF L(6) cl iw(1,2) subset_refl]
    and pw = put_ok [OF L(4) cl iw(4,5) subset_refl] and pc = put_ok [OF L(2) cl iw(3), of "{0, 1}", simplified]
  have s: "same_object ps ps'" by (simp add: same_object_def ps'_def)
  have "lists_ok ?n m ps'" using L f(2,4) pf(2) pw(2,4) pc(2,4) by (simp add: lists_ok_def ps'_def idx_array_def)
  moreover have "heads_agree ps'" by (simp add: heads_agree_def ps'_def head_put getDirtyExpr_def)
  moreover have "lists_agree \<sigma> ps' l" if "wf_env \<sigma>" "l < ?n" for \<sigma> l
    using ag [OF that] pc(3) [OF that(1)] pw(3) [OF that(1)] by (auto simp: lists_agree_def ps'_def)
  ultimately have "ps_inv ctx m ps'" using l(3) same_object_simps [OF s] by (simp add: ps_inv_def)
  moreover have "recordFlush cl (APInt 64 (uint i)) (ps\<lparr>pendingCacheLineUpdates := put cl (APInt 8 1) (pendingCacheLineUpdates ps)\<rparr>) = Some ps'"
    using f(1) pf(1) pw(1) by (simp add: recordFlush_def getNullptr_def ps'_def)
  moreover have "UpdateList_getSize (pendingCacheLineUpdates ps') = Suc (UpdateList_getSize (pendingCacheLineUpdates ps))"
    by (simp add: ps'_def put_def UpdateList_getSize_def)
  ultimately show ?thesis using pc(1,3) s by (auto simp: getPersistedExpr_def ps'_def)
qed

lemma persistCacheLineAtOffset_ok:
  assumes inv: "ps_inv ctx (x_rootCauseMgr x) ps" "mgr_ok (x_rootCauseMgr x)"
    and off: "offset_in ctx ps (x_constraints x) off" and room: "can_name ctx x (Suc k)"
  shows "ok (persistCacheLineAtOffset ctx off (ps, x)) (\<lambda>(ps', x'). \<exists>m'. x' = x\<lparr>x_rootCauseMgr := m'\<rparr> \<and>
    uses_id (x_rootCauseMgr x) m' \<and> ps_inv ctx m' ps' \<and> same_object ps ps' \<and> flushed ctx (x_constraints x) off ps ps' \<and>
    UpdateList_getSize (pendingCacheLineUpdates ps') = Suc (UpdateList_getSize (pendingCacheLineUpdates ps)))"
proof -
  let ?cs = "x_constraints x" and ?m = "x_rootCauseMgr x"
  have o: "object_ok ctx ps" using inv(1) by (simp add: ps_inv_def)
  from getCacheLine_line [OF o off] obtain cl where cl: "getCacheLine ctx off = Some cl" "line_expr (idx_array ps) cl"
    "\<And>\<sigma>. wf_env \<sigma> \<Longrightarrow> holds ?cs \<sigma> \<Longrightarrow> eval \<sigma> cl = int (line_at ctx \<sigma> off) \<and> line_at ctx \<sigma> off < line_count ctx ps"
    by (auto simp: ok_iff)
  have rw: "rootCauseWidth (ps\<lparr>pendingCacheLineUpdates := p\<rparr>) = 64" for p using o by (simp add: object_ok_def)
  have idx: "\<exists>i m'. createRootCauseIdExpr ctx (ps\<lparr>pendingCacheLineUpdates := p\<rparr>) PM_UnnecessaryFlush x =
      Some (APInt 64 (uint i), x\<lparr>x_rootCauseMgr := m'\<rparr>) \<and> i \<in> known_ids m' \<and> uses_id ?m m'" for p
    using createRootCauseIdExpr_ok [OF inv(2) room rw, of p PM_UnnecessaryFlush] by (auto simp: ok_iff)
  have same: "createRootCauseIdExpr ctx (ps\<lparr>pendingCacheLineUpdates := p\<rparr>) r x = createRootCauseIdExpr ctx ps r x" for p r
    by (simp add: createRootCauseIdExpr_def)
  obtain i m' where i: "createRootCauseIdExpr ctx ps PM_UnnecessaryFlush x = Some (APInt 64 (uint i), x\<lparr>x_rootCauseMgr := m'\<rparr>)"
    "i \<in> known_ids m'" "uses_id ?m m'" using idx unfolding same by blast
  have "ps_inv ctx m' ps" by (rule ps_inv_mono [OF inv(1)]) (use i(3) in \<open>simp add: uses_id_def\<close>)
  from recordFlush_ok [OF this cl(2) i(2)] obtain p ps' where ps':
    "UpdateList_extend (pendingCacheLineUpdates ps) cl (ConstantExpr getPersistedExpr) = Some p"
    "recordFlush cl (APInt 64 (uint i)) (ps\<lparr>pendingCacheLineUpdates := p\<rparr>) = Some ps'"
    "ps_inv ctx m' ps'" "same_object ps ps'" "cacheLineUpdates ps' = cacheLineUpdates ps"
    "UpdateList_getSize (pendingCacheLineUpdates ps') = Suc (UpdateList_getSize (pendingCacheLineUpdates ps))"
    "\<And>\<sigma> l. wf_env \<sigma> \<Longrightarrow> lval \<sigma> (pendingCacheLineUpdates ps') l = (if eval \<sigma> cl = int l then 1 else lval \<sigma> (pendingCacheLineUpdates ps) l)"
    by blast
  have "flushed ctx ?cs off ps ps'" using ps'(5,7) cl(3) by (simp add: flushed_def)
  then show ?thesis using cl(1) i(1,3) ps' same by (auto simp: persistCacheLineAtOffset_def)
qed

section \<open>Fences\<close>

lemma commitPendingPersists_ok:
  assumes "ps_inv ctx m ps" "commitPendingPersists ps = (b, ps')"
  shows "ps_inv ctx m ps'" "same_object ps ps'" "cacheLineUpdates ps' = pendingCacheLineUpdates ps"
    "pendingCacheLineUpdates ps' = pendingCacheLineUpdates ps"
    "b \<longleftrightarrow> UpdateList_getSize (cacheLineUpdates ps) \<noteq> UpdateList_getSize (pendingCacheLineUpdates ps)"
proof -
  let ?n = "line_count ctx ps"
  have ps': "ps' = ps\<lparr>cacheLineUpdates := pendingCacheLineUpdates ps, rootCauseWrites := pendingRootCauseWrites ps,
      pendingRootCauseFlushes := (fst (pendingRootCauseFlushes ps), NullNode)\<rparr>"
    and b: "b \<longleftrightarrow> UpdateList_getSize (cacheLineUpdates ps) \<noteq> UpdateList_getSize (pendingCacheLineUpdates ps)"
    using assms(2) by (auto simp: commitPendingPersists_def Let_def)
  show s: "same_object ps ps'" and "cacheLineUpdates ps' = pendingCacheLineUpdates ps"
    "pendingCacheLineUpdates ps' = pendingCacheLineUpdates ps"
    "b \<longleftrightarrow> UpdateList_getSize (cacheLineUpdates ps) \<noteq> UpdateList_getSize (pendingCacheLineUpdates ps)"
    using ps' b by (simp_all add: same_object_def)
  have l: "lists_ok ?n m ps" "object_ok ctx ps" and ag: "\<And>\<sigma> l. wf_env \<sigma> \<Longrightarrow> l < ?n \<Longrightarrow> lists_agree \<sigma> ps l"
    using assms(1) by (simp_all add: ps_inv_def)
  note L = lists_okD [OF l(1)]
  have "wf_lines ?n 64 0 (cause_values m) (fst (pendingRootCauseFlushes ps), NullNode)" using L(6) by (simp add: wf_lines_def)
  then have "lists_ok ?n m ps'" using L by (simp add: ps' lists_ok_def idx_array_def)
  moreover have "heads_agree ps'" by (simp add: ps' heads_agree_def)
  moreover have "lists_agree \<sigma> ps' l" if "wf_env \<sigma>" "l < ?n" for \<sigma> l using ag [OF that] by (simp add: ps' lists_agree_def)
  ultimately show "ps_inv ctx m ps'" using l(2) same_object_simps [OF s] by (simp add: ps_inv_def)
qed

end
