(* ===== verification/Persistent_Exec.thy ===== *)
theory Persistent_Exec
  imports Persistent_Steps
begin

text \<open>
  The byte writes of a persistent object and the handlers of the executor: what they report and what
  they do to the cache lines.
\<close>

section \<open>Byte writes\<close>

text \<open>The invariant depends on the contents of the object only through their size.\<close>

lemma set_os:
  assumes "ps_inv ctx m ps" "obj_inv os" "os_size os = os_size (ps_os ps)"
  shows "ps_inv ctx m (ps\<lparr>ps_os := os\<rparr>)"
proof -
  have "lists_ok n m (ps\<lparr>ps_os := os\<rparr>) = lists_ok n m ps" "heads_agree (ps\<lparr>ps_os := os\<rparr>) = heads_agree ps"
    "line_count ctx (ps\<lparr>ps_os := os\<rparr>) = line_count ctx ps" "lists_agree \<sigma> (ps\<lparr>ps_os := os\<rparr>) l = lists_agree \<sigma> ps l" for n \<sigma> l
    by (simp_all add: lists_ok_def heads_agree_def line_count_def lists_agree_def idx_array_def)
  then show ?thesis using assms by (simp add: ps_inv_def object_ok_def idx_ok_def idx_array_def)
qed

lemma set_os_simps [simp]:
  "idx_array (ps\<lparr>ps_os := os\<rparr>) = idx_array ps" "line_count ctx (ps\<lparr>ps_os := os\<rparr>) = line_count ctx ps"
  "in_bounds ctx (ps\<lparr>ps_os := os\<rparr>) = in_bounds ctx ps" "state_ok ctx (ps\<lparr>ps_os := os\<rparr>) cs = state_ok ctx ps cs"
  "offset_in ctx (ps\<lparr>ps_os := os\<rparr>) cs off = offset_in ctx ps cs off"
  "dirtied ctx cs off (ps\<lparr>ps_os := os\<rparr>) ps' = dirtied ctx cs off ps ps'"
proof -
  show *: "idx_array (ps\<lparr>ps_os := os\<rparr>) = idx_array ps" "line_count ctx (ps\<lparr>ps_os := os\<rparr>) = line_count ctx ps"
    "in_bounds ctx (ps\<lparr>ps_os := os\<rparr>) = in_bounds ctx ps"
    by (simp_all add: idx_array_def line_count_def in_bounds_def any_offset_def)
  show "state_ok ctx (ps\<lparr>ps_os := os\<rparr>) cs = state_ok ctx ps cs" "offset_in ctx (ps\<lparr>ps_os := os\<rparr>) cs off = offset_in ctx ps cs off"
    "dirtied ctx cs off (ps\<lparr>ps_os := os\<rparr>) ps' = dirtied ctx cs off ps ps'"
    using * by (simp_all add: state_ok_def solver_ok_def offset_in_def dirtied_def)
qed

lemma const_offset_in:
  assumes "object_ok ctx ps" "off < mo_size (ps_object ps)"
  shows "offset_in ctx ps cs (const32 off)" "line_at ctx \<sigma> (const32 off) = off div cacheLineSize ctx"
proof -
  have "off < 2 ^ 32" using assms by (simp add: object_ok_def wf_mobj_def)
  then show "offset_in ctx ps cs (const32 off)" "line_at ctx \<sigma> (const32 off) = off div cacheLineSize ctx"
    using assms(2) by (simp_all add: offset_in_def line_at_def const32_def wf_ap_def in_width_def)
qed

text \<open>What an operation may use up: two identifiers, and as many reports as there are locations.\<close>

definition consumes :: "manager \<Rightarrow> manager \<Rightarrow> bool" where
  "consumes m m' \<longleftrightarrow> mgr_ok m' \<and> known_ids m \<subseteq> known_ids m' \<and> length (usedIds m') \<le> length (usedIds m) + 2 \<and>
     unat (totalOccurences m') \<le> unat (totalOccurences m) + length (usedIds m) + 2"

lemma uses_id_consumes: "uses_id m m' \<Longrightarrow> consumes m m'"
  by (simp add: uses_id_def consumes_def)

lemma uses_id_twice: "uses_id m m1 \<Longrightarrow> uses_id m1 m' \<Longrightarrow> consumes m m'"
  by (auto simp: uses_id_def consumes_def)

text \<open>A write at one offset: the new contents and what is recorded.\<close>

definition written :: "pctx \<Rightarrow> expr \<Rightarrow> objstate \<Rightarrow> pstate \<times> xstate \<Rightarrow> pstate \<times> xstate \<Rightarrow> bool" where
  "written ctx off os s s' \<longleftrightarrow> (\<exists>m'. snd s' = (snd s)\<lparr>x_rootCauseMgr := m'\<rparr> \<and> consumes (x_rootCauseMgr (snd s)) m' \<and>
     ps_inv ctx m' (fst s') \<and> same_object ((fst s)\<lparr>ps_os := os\<rparr>) (fst s') \<and>
     dirtied ctx (x_constraints (snd s)) off (fst s) (fst s'))"

lemma dirty_written:
  assumes inv: "ps_inv ctx (x_rootCauseMgr x) ps" "mgr_ok (x_rootCauseMgr x)" "state_ok ctx ps (x_constraints x)"
    "offset_in ctx ps (x_constraints x) off" "ignoreBytes ps = []" "can_name ctx x (Suc k)"
    and os: "obj_inv os" "os_size os = os_size (ps_os ps)"
  shows "ok (dirtyCacheLineAtOffset ctx off (ps\<lparr>ps_os := os\<rparr>, x)) (\<lambda>s'. written ctx off os (ps, x) s' \<and>
    uses_id (x_rootCauseMgr x) (x_rootCauseMgr (snd s')))"
  by (rule ok_mono [OF dirtyCacheLineAtOffset_ok [OF set_os [OF inv(1) os] inv(2)]])
    (use inv in \<open>auto simp: written_def intro: uses_id_consumes\<close>)

lemma dirtied_twice:
  assumes "dirtied ctx cs off ps ps1" "dirtied ctx cs off ps1 ps'" "line_count ctx ps1 = line_count ctx ps"
  shows "dirtied ctx cs off ps ps'"
  using assms by (simp add: dirtied_def)

lemma write8_byte_written:
  assumes inv: "ps_inv ctx (x_rootCauseMgr x) ps" "mgr_ok (x_rootCauseMgr x)" "state_ok ctx ps (x_constraints x)"
    "ignoreBytes ps = []" "can_name ctx x (Suc k)" and off: "offset < mo_size (ps_object ps)"
  shows "ok (PersistentState_write8_byte ctx offset v (ps, x)) (\<lambda>s'. \<exists>os. write8_byte (ps_os ps) offset v = Some os \<and>
    obj_inv os \<and> os_size os = os_size (ps_os ps) \<and> written ctx (const32 offset) os (ps, x) s' \<and> uses_id (x_rootCauseMgr x) (x_rootCauseMgr (snd s')))"
proof -
  have o: "object_ok ctx ps" using inv(1) by (simp add: ps_inv_def)
  then have os: "obj_inv (ps_os ps)" "offset < os_size (ps_os ps)" using off by (simp_all add: object_ok_def)
  from write8_byte_ok [OF os, of v] obtain os where w: "write8_byte (ps_os ps) offset v = Some os" "obj_inv os"
    "os_size os = os_size (ps_os ps)" by (auto simp: ok_iff)
  from dirty_written [OF inv(1-3) const_offset_in(1) [OF o off] inv(4,5) w(2,3)]
  show ?thesis using w by (auto simp: PersistentState_write8_byte_def elim!: ok_mono)
qed

lemma written_then_dirty:
  assumes s1: "written ctx off os (ps, x) s1" "uses_id (x_rootCauseMgr x) (x_rootCauseMgr (snd s1))"
    and st: "state_ok ctx ps (x_constraints x)" "offset_in ctx ps (x_constraints x) off" "ignoreBytes ps = []"
    "can_name ctx x (Suc (Suc k))"
  shows "ok (dirtyCacheLineAtOffset ctx off s1) (written ctx off os (ps, x))"
proof -
  obtain ps1 x1 where s: "s1 = (ps1, x1)" by fastforce
  obtain m1 where m1: "x1 = x\<lparr>x_rootCauseMgr := m1\<rparr>" "ps_inv ctx m1 ps1" "same_object (ps\<lparr>ps_os := os\<rparr>) ps1"
    "dirtied ctx (x_constraints x) off ps ps1" using s1(1) by (auto simp: written_def s)
  have u: "uses_id (x_rootCauseMgr x) m1" using s1(2) m1(1) by (simp add: s)
  note so = same_object_simps [OF m1(3)]
  have d: "ok (dirtyCacheLineAtOffset ctx off (ps1, x1)) (\<lambda>(ps', x'). \<exists>i m'. x' = x1\<lparr>x_rootCauseMgr := m'\<rparr> \<and>
    uses_id (x_rootCauseMgr x1) m' \<and> ps_inv ctx m' ps' \<and> same_object ps1 ps' \<and> dirtied ctx (x_constraints x1) off ps1 ps' \<and>
    i \<in> known_ids m' \<and> (\<forall>\<sigma>. wf_env \<sigma> \<longrightarrow> holds (x_constraints x1) \<sigma> \<longrightarrow>
      lval \<sigma> (rootCauseWrites ps') (line_at ctx \<sigma> off) = uint i))"
    by (rule dirtyCacheLineAtOffset_ok [where k = k]) (use m1 u st so in \<open>auto simp: uses_id_def same_object_def can_name_def\<close>)
  then obtain ps' m' where p: "dirtyCacheLineAtOffset ctx off (ps1, x1) = Some (ps', x\<lparr>x_rootCauseMgr := m'\<rparr>)" "uses_id m1 m'"
    "ps_inv ctx m' ps'" "same_object ps1 ps'" "dirtied ctx (x_constraints x) off ps1 ps'"
    by (auto simp: ok_iff m1(1))
  have "line_count ctx ps1 = line_count ctx ps" using so(2) by simp
  from dirtied_twice [OF m1(4) p(5) this] have "dirtied ctx (x_constraints x) off ps ps'" .
  moreover have "same_object (ps\<lparr>ps_os := os\<rparr>) ps'" using m1(3) p(4) by (simp add: same_object_def)
  moreover have "consumes (x_rootCauseMgr x) m'" by (rule uses_id_twice [OF u p(2)])
  ultimately show ?thesis using p(1,3) by (auto simp: s written_def)
qed

lemma write8_written:
  assumes inv: "ps_inv ctx (x_rootCauseMgr x) ps" "mgr_ok (x_rootCauseMgr x)" "state_ok ctx ps (x_constraints x)"
    "ignoreBytes ps = []" "can_name ctx x (Suc (Suc k))" and off: "offset < mo_size (ps_object ps)"
    and v: "wt v" "getWidth v = 8"
  shows "ok (PersistentState_write8 ctx offset v (ps, x)) (\<lambda>s'. \<exists>os. write8 (ps_os ps) offset v = Some os \<and>
    written ctx (const32 offset) os (ps, x) s')"
proof -
  have o: "object_ok ctx ps" using inv(1) by (simp add: ps_inv_def)
  then have os: "obj_inv (ps_os ps)" "offset < os_size (ps_os ps)" using off by (simp_all add: object_ok_def)
  note oi = const_offset_in(1) [OF o off]
  show ?thesis
  proof (cases "as_const v")
    case None
    from write8_ok [OF os v] obtain os where w: "write8 (ps_os ps) offset v = Some os" "obj_inv os"
      "os_size os = os_size (ps_os ps)" by (auto simp: ok_iff)
    from dirty_written [OF inv(1-3) oi inv(4,5) w(2,3)] show ?thesis
      using w None by (auto simp: PersistentState_write8_def elim!: ok_mono)
  next
    case (Some CE)
    then have "bitWidth CE \<le> 8" using v by (auto simp: wf_ap_def)
    then have z: "ConstantExpr_getZExtValue CE 8 = Some (word_of_int (apval CE))" by (simp add: ConstantExpr_getZExtValue_def assert_that_def)
    let ?b = "ucast (word_of_int (apval CE) :: u64) :: u8"
    from write8_byte_written [OF inv(1-5) off, of ?b] obtain os s1 where
      w: "PersistentState_write8_byte ctx offset ?b (ps, x) = Some s1" "write8_byte (ps_os ps) offset ?b = Some os"
      "written ctx (const32 offset) os (ps, x) s1" "uses_id (x_rootCauseMgr x) (x_rootCauseMgr (snd s1))" by (elim okE) blast
    have "?b = word_of_int (apval CE)" by (rule bit_word_eqI) (simp add: bit_simps)
    then have "write8 (ps_os ps) offset v = Some os" using w(2) Some \<open>bitWidth CE \<le> 8\<close> by (simp add: write8_def)
    moreover have "ok (dirtyCacheLineAtOffset ctx (const32 offset) s1) (written ctx (const32 offset) os (ps, x))"
      by (rule written_then_dirty [OF w(3,4) inv(3) oi inv(4,5)])
    ultimately show ?thesis using w(1) Some z by (auto simp: PersistentState_write8_def elim!: ok_mono)
  qed
qed

lemma write8_sym_written:
  assumes inv: "ps_inv ctx (x_rootCauseMgr x) ps" "mgr_ok (x_rootCauseMgr x)" "state_ok ctx ps (x_constraints x)"
    "ignoreBytes ps = []" "can_name ctx x (Suc k)" and off: "offset_in ctx ps (x_constraints x) off"
    and v: "getWidth off = 32" "\<not> isConstantExpr off" "wt v" "getWidth v = 8"
  shows "ok (PersistentState_write8_sym ctx off v (ps, x)) (\<lambda>s'. \<exists>os. write8_sym (ps_os ps) off v = Some os \<and>
    written ctx off os (ps, x) s')"
proof -
  have o: "obj_inv (ps_os ps)" using inv(1) by (simp add: ps_inv_def object_ok_def)
  have d: "denotes (\<lambda>_. True) off 32 (\<lambda>\<sigma>. eval \<sigma> off)" "denotes (\<lambda>_. True) v 8 (\<lambda>\<sigma>. eval \<sigma> v)"
    using off v by (simp_all add: offset_in_def denotes_def)
  from write8_sym_ok [OF o d(1) v(2) d(2)] obtain os where w: "write8_sym (ps_os ps) off v = Some os" "obj_inv os"
    "os_size os = os_size (ps_os ps)" by (auto simp: ok_iff)
  from dirty_written [OF inv(1-3) off inv(4,5) w(2,3)] show ?thesis
    using w by (auto simp: PersistentState_write8_sym_def elim!: ok_mono)
qed

section \<open>Flushes\<close>

lemma offset_persisted_ok:
  assumes o: "ps_inv ctx m ps" and st: "state_ok ctx ps cs" and off: "offset_in ctx ps cs off"
  shows "\<exists>e. getIsOffsetPersistedExpr ctx ps off pending = Some e \<and> TimingSolver_mustBeTrue (pc_solver ctx) cs e =
    Some (Some (\<forall>\<sigma>. wf_env \<sigma> \<longrightarrow> holds cs \<sigma> \<longrightarrow>
      lval \<sigma> (if pending then pendingCacheLineUpdates ps else cacheLineUpdates ps) (line_at ctx \<sigma> off) = 1))"
proof -
  let ?ul = "if pending then pendingCacheLineUpdates ps else cacheLineUpdates ps"
  have ob: "object_ok ctx ps" and l: "lists_ok (line_count ctx ps) m ps" using o by (simp_all add: ps_inv_def)
  have cao: "\<not> pc_cao ctx" using st by (simp add: state_ok_def solver_ok_def)
  from getCacheLine_line [OF ob off] obtain cl where cl: "getCacheLine ctx off = Some cl" "line_expr (idx_array ps) cl"
    "\<And>\<sigma>. wf_env \<sigma> \<Longrightarrow> holds cs \<sigma> \<Longrightarrow> eval \<sigma> cl = int (line_at ctx \<sigma> off) \<and> line_at ctx \<sigma> off < line_count ctx ps"
    by (auto simp: ok_iff)
  have wl: "wf_lines (line_count ctx ps) 8 1 {0, 1} ?ul" using lists_okD(1,2) [OF l] by simp
  have "denotes (holds cs) cl 32 (\<lambda>\<sigma>. eval \<sigma> cl)" by (rule line_expr_denotes [OF cl(2)])
  then have "denotes (holds cs) cl 32 (\<lambda>\<sigma>. int (line_at ctx \<sigma> off))" using cl(3) by (simp add: denotes_def)
  from isCacheLinePersisted_ok [OF wl this cao] cl(3) obtain e where e: "isCacheLinePersisted ctx ps cl pending = Some e"
    "denotes (holds cs) e 1 (\<lambda>\<sigma>. of_bool (lval \<sigma> ?ul (line_at ctx \<sigma> off) = 1))" by (auto simp: ok_iff)
  have "TimingSolver_mustBeTrue (pc_solver ctx) cs e = Some (Some (valid (cs, e)))"
    using ts_mustBeTrue_exact [OF state_answering(1) [OF ob st]] denotesD(1,2) [OF e(2)] by blast
  moreover have "valid (cs, e) \<longleftrightarrow> (\<forall>\<sigma>. wf_env \<sigma> \<longrightarrow> holds cs \<sigma> \<longrightarrow> lval \<sigma> ?ul (line_at ctx \<sigma> off) = 1)"
    using e(2) by (simp add: valid_def denotes_def)
  ultimately show ?thesis using cl(1) e(1) by (simp add: getIsOffsetPersistedExpr_def)
qed

text \<open>The location of a report that is not about a write.\<close>

lemma report_ok:
  assumes m: "mgr_ok m" and room: "length (usedIds m) < 2 ^ 32" "unat (totalOccurences m) + length (usedIds m) + 2 < 2 ^ 64"
    and seed: "seed_ok hs hi st"
  shows "ok (do { (i, m1) \<leftarrow> getRootCauseLocationID hs hi st site pc r m; m2 \<leftarrow> markAsBug i m1; Some (i, m2) })
    (\<lambda>(i, m'). consumes m m' \<and> i \<in> known_ids m' \<and> i \<in> set (buggyIds m'))"
proof -
  from getId_ok [OF m room(1) _ _ seed, of "[]" site pc r] obtain i m1 where
    i: "getRootCauseLocationID hs hi st site pc r m = Some (i, m1)" "mgr_ok m1" "known_ids m \<subseteq> known_ids m1" "i \<in> known_ids m1"
      "length (usedIds m1) \<le> Suc (length (usedIds m))" "totalOccurences m1 = totalOccurences m"
    by (auto simp: ok_iff getRootCauseLocationID_no_masks)
  have "unat (totalOccurences m1) + length (usedIds m1) + 1 < 2 ^ 64" using room(2) i(5,6) by simp
  from markAsBug_keeps [OF i(2,4) this] obtain m2 where b: "markAsBug i m1 = Some m2" "mgr_ok m2" "known_ids m2 = known_ids m1"
      "usedIds m2 = usedIds m1" "unat (totalOccurences m2) \<le> unat (totalOccurences m1) + length (usedIds m1) + 1"
      "i \<in> set (buggyIds m2)"
    by (elim okE) blast
  then show ?thesis using i by (simp add: consumes_def)
qed

text \<open>A flush is recorded, or it is reported because the line already has no write to persist.\<close>

definition line_clean :: "pctx \<Rightarrow> expr list \<Rightarrow> pstate \<Rightarrow> expr \<Rightarrow> bool" where
  "line_clean ctx cs ps off \<longleftrightarrow> (\<forall>\<sigma>. wf_env \<sigma> \<longrightarrow> holds cs \<sigma> \<longrightarrow> lval \<sigma> (pendingCacheLineUpdates ps) (line_at ctx \<sigma> off) = 1)"

lemma markFlushAsBug_ok:
  assumes inv: "ps_inv ctx (x_rootCauseMgr x) ps" "mgr_ok (x_rootCauseMgr x)" and st: "state_ok ctx ps (x_constraints x)"
    and off: "offset_in ctx ps (x_constraints x) off" and room: "can_name ctx x (Suc k)"
    "unat (totalOccurences (x_rootCauseMgr x)) + length (usedIds (x_rootCauseMgr x)) + 2 < 2 ^ 64"
  shows "ok (markFlushAsBug ctx off (ps, x)) (\<lambda>(i, x'). \<exists>m'. x' = x\<lparr>x_rootCauseMgr := m'\<rparr> \<and>
    consumes (x_rootCauseMgr x) m' \<and> i \<in> set (buggyIds m'))"
proof -
  let ?cs = "x_constraints x" and ?m = "x_rootCauseMgr x"
  have o: "object_ok ctx ps" "lists_ok (line_count ctx ps) ?m ps" using inv(1) by (simp_all add: ps_inv_def)
  from getCacheLine_line [OF o(1) off] obtain cl where cl: "getCacheLine ctx off = Some cl" "line_expr (idx_array ps) cl"
    "\<And>\<sigma>. wf_env \<sigma> \<Longrightarrow> holds ?cs \<sigma> \<Longrightarrow> eval \<sigma> cl = int (line_at ctx \<sigma> off) \<and> line_at ctx \<sigma> off < line_count ctx ps"
    by (auto simp: ok_iff)
  have r: "ids_valid ?m" using inv(2) by (simp add: mgr_ok_def)
  have rw: "rootCauseWidth ps = 64" using o(1) by (simp add: object_ok_def)
  have "ok (getRootCause ctx ps ?cs (rootCauseFlushes ps) cl) (\<lambda>ids. distinct ids \<and> set ids =
      {i. i \<noteq> 0 \<and> (\<exists>\<sigma>. wf_env \<sigma> \<and> holds ?cs \<sigma> \<and> lval \<sigma> (rootCauseFlushes ps) (nat (eval \<sigma> cl)) = uint i)})"
    by (rule getRootCause_ok [OF state_answering(1) [OF o(1) st] rw lists_okD(5) [OF o(2)] line_expr_denotes [OF cl(2)] cause_values_range [OF r]])
      (use cl(3) in simp)
  then obtain errs where errs: "getRootCause ctx ps ?cs (rootCauseFlushes ps) cl = Some errs" by (elim okE)
  from report_ok [OF inv(2) can_nameD(1) [OF room(1)] room(2) can_nameD(2) [OF room(1)], of "alloc_site (ps_object ps)" "x_prevPC x"
      "if errs = [] then PM_FlushOnUnmodified else PM_UnnecessaryFlush"]
  show ?thesis using cl(1) errs by (auto simp: markFlushAsBug_def ok_bind_iff elim!: ok_mono) blast+
qed

lemma executePersistentMemoryFlush_ok:
  assumes inv: "ps_inv ctx (x_rootCauseMgr x) ps" "mgr_ok (x_rootCauseMgr x)" and st: "state_ok ctx ps (x_constraints x)"
    and off: "offset_in ctx ps (x_constraints x) off" and room: "can_name ctx x (Suc k)"
    "unat (totalOccurences (x_rootCauseMgr x)) + length (usedIds (x_rootCauseMgr x)) + 2 < 2 ^ 64"
  shows "ok (executePersistentMemoryFlush ctx off (ps, x)) (\<lambda>(r, ps', x'). \<exists>m'. x' = x\<lparr>x_rootCauseMgr := m'\<rparr> \<and>
    consumes (x_rootCauseMgr x) m' \<and> ps_inv ctx m' ps' \<and> same_object ps ps' \<and> flushed ctx (x_constraints x) off ps ps' \<and>
    (if line_clean ctx (x_constraints x) ps off then ps' = ps \<and> (\<exists>i. r = Some i \<and> i \<in> set (buggyIds m'))
     else r = None \<and> UpdateList_getSize (pendingCacheLineUpdates ps') = Suc (UpdateList_getSize (pendingCacheLineUpdates ps))))"
proof -
  let ?cs = "x_constraints x"
  from offset_persisted_ok [OF inv(1) st off, of True] obtain e where e: "getIsOffsetPersistedExpr ctx ps off True = Some e"
    "TimingSolver_mustBeTrue (pc_solver ctx) ?cs e = Some (Some (line_clean ctx ?cs ps off))" by (auto simp: line_clean_def)
  show ?thesis
  proof (cases "line_clean ctx ?cs ps off")
    case True
    from markFlushAsBug_ok [OF inv st off room] obtain i m' where b: "markFlushAsBug ctx off (ps, x) = Some (i, x\<lparr>x_rootCauseMgr := m'\<rparr>)"
      "consumes (x_rootCauseMgr x) m'" "i \<in> set (buggyIds m')" by (auto simp: ok_iff)
    have "ps_inv ctx m' ps" by (rule ps_inv_mono [OF inv(1)]) (use b(2) in \<open>simp add: consumes_def\<close>)
    moreover have "flushed ctx ?cs off ps ps" "same_object ps ps"
      using True by (simp_all add: flushed_def line_clean_def same_object_def)
    ultimately show ?thesis using True e b by (auto simp: executePersistentMemoryFlush_def must_succeed_def)
  next
    case False
    from persistCacheLineAtOffset_ok [OF inv off room(1)] show ?thesis
      using False e by (auto simp: executePersistentMemoryFlush_def must_succeed_def ok_iff dest!: uses_id_consumes)
  qed
qed

section \<open>Fences\<close>

definition flush_pending :: "pstate \<Rightarrow> bool" where
  "flush_pending ps \<longleftrightarrow> UpdateList_getSize (cacheLineUpdates ps) \<noteq> UpdateList_getSize (pendingCacheLineUpdates ps)"

lemma commit_all:
  "fold (\<lambda>ps (necessary, done). case commitPendingPersists ps of (commitNecessary, ps) \<Rightarrow> (commitNecessary \<or> necessary, done @ [ps])) objects (b, ds) =
    ((\<exists>ps \<in> set objects. flush_pending ps) \<or> b, ds @ map (snd \<circ> commitPendingPersists) objects)"
  by (induction objects arbitrary: b ds) (auto simp: commitPendingPersists_def flush_pending_def Let_def)

lemma executePersistentMemoryFence_ok:
  assumes m: "mgr_ok (x_rootCauseMgr x)" and room: "can_name ctx x (Suc k)"
    "unat (totalOccurences (x_rootCauseMgr x)) + length (usedIds (x_rootCauseMgr x)) + 2 < 2 ^ 64"
  shows "ok (executePersistentMemoryFence ctx (objects, x)) (\<lambda>(r, objects', x'). \<exists>m'. x' = x\<lparr>x_rootCauseMgr := m'\<rparr> \<and>
    consumes (x_rootCauseMgr x) m' \<and> objects' = map (snd \<circ> commitPendingPersists) objects \<and>
    (if \<exists>ps \<in> set objects. flush_pending ps then r = None else \<exists>i. r = Some i \<and> i \<in> set (buggyIds m')))"
proof (cases "\<exists>ps \<in> set objects. flush_pending ps")
  case True
  have "consumes (x_rootCauseMgr x) (x_rootCauseMgr x)" using m by (simp add: consumes_def)
  then show ?thesis using True by (auto simp: executePersistentMemoryFence_def commit_all intro: exI [of _ "x_rootCauseMgr x"])
next
  case False
  from report_ok [OF m can_nameD(1) [OF room(1)] room(2) can_nameD(2) [OF room(1)], of 0 "x_prevPC x" PM_UnnecessaryFence]
  show ?thesis using False by (auto simp: executePersistentMemoryFence_def commit_all ok_bind_iff elim!: ok_mono)
qed

end
