(* ===== verification/Persistent_Check.thy ===== *)
theory Persistent_Check
  imports Persistent_Exec
begin

text \<open>
  The final check of a persistent object is exact: it reports the writes that some execution of the path
  leaves unpersisted, and nothing if there are none.
\<close>

section \<open>The lines of an object\<close>

definition all_persisted :: "pctx \<Rightarrow> expr list \<Rightarrow> pstate \<Rightarrow> bool" where
  "all_persisted ctx cs ps \<longleftrightarrow> (\<forall>\<sigma> l. wf_env \<sigma> \<longrightarrow> holds cs \<sigma> \<longrightarrow> l < line_count ctx ps \<longrightarrow> lval \<sigma> (cacheLineUpdates ps) l = 1)"

lemma line_start:
  assumes "object_ok ctx ps" "l < line_count ctx ps"
  shows "l * cacheLineSize ctx < mo_size (ps_object ps)"
proof -
  have "0 < cacheAlignment (pc_parent ctx)" using assms(1) by (simp add: object_ok_def cacheLineSize_def)
  note least = getSizeInCacheLines_least [OF this]
  show ?thesis using not_less_Least [of l "\<lambda>k. mo_size (ps_object ps) \<le> k * cacheAlignment (pc_parent ctx)"] assms(2)
    by (simp add: line_count_def least cacheLineSize_def)
qed

text \<open>Every line is the line of some value of the arbitrary offset.\<close>

lemma any_line:
  assumes o: "object_ok ctx ps" and l: "lists_ok (line_count ctx ps) m ps" and st: "state_ok ctx ps cs"
  shows "(\<forall>\<sigma>. wf_env \<sigma> \<longrightarrow> holds (cs @ [in_bounds ctx ps]) \<sigma> \<longrightarrow>
      lval \<sigma> (cacheLineUpdates ps) (nat (\<sigma> (idx_array ps) 0) div cacheLineSize ctx) = 1) \<longleftrightarrow> all_persisted ctx cs ps" (is "?any \<longleftrightarrow> _")
proof
  assume any: ?any
  have free: "\<forall>c \<in> set cs. idx_array ps \<notin> reads c" using st by (simp add: state_ok_def)
  have c0: "0 < cacheLineSize ctx" using o by (simp add: object_ok_def)
  show "all_persisted ctx cs ps"
    unfolding all_persisted_def
  proof (intro allI impI)
    fix \<sigma> k assume \<sigma>: "wf_env \<sigma>" "holds cs \<sigma>" and k: "k < line_count ctx ps"
    let ?v = "k * cacheLineSize ctx"
    let ?t = "\<sigma>(idx_array ps := \<lambda>_. int ?v)"
    have v: "?v < mo_size (ps_object ps)" by (rule line_start [OF o k])
    moreover have "mo_size (ps_object ps) < 2 ^ 32" using o by (simp add: object_ok_def wf_mobj_def)
    ultimately have "?v < 2 ^ 32" by (rule less_trans)
    then have "int ?v < int (2 ^ 32)" by (simp only: of_nat_less_iff)
    then have "int ?v < 2 ^ 32" by simp
    note t = vary_idx [OF o free \<sigma> of_nat_0_le_iff this]
    have "eval ?t (in_bounds ctx ps) \<noteq> 0" unfolding in_bounds_ok(4) [OF o t(1)] using v by (simp only: fun_upd_same of_nat_less_iff)
    then have "holds (cs @ [in_bounds ctx ps]) ?t" using t(2) by (auto simp: holds_def)
    with any t(1) have "lval ?t (cacheLineUpdates ps) (nat (?t (idx_array ps) 0) div cacheLineSize ctx) = 1" by blast
    moreover have "nat (?t (idx_array ps) 0) div cacheLineSize ctx = k" using c0 by (simp add: nat_mult_distrib)
    moreover have "lval ?t (cacheLineUpdates ps) k = lval \<sigma> (cacheLineUpdates ps) k"
      by (rule idx_freeD [OF lists_okD(7) [OF l] t(1) \<sigma>(1)]) simp_all
    ultimately show "lval \<sigma> (cacheLineUpdates ps) k = 1" by simp
  qed
next
  assume all: "all_persisted ctx cs ps"
  show ?any
  proof (intro allI impI)
    fix \<sigma> assume \<sigma>: "wf_env \<sigma>" "holds (cs @ [in_bounds ctx ps]) \<sigma>"
    then have "\<sigma> (idx_array ps) 0 < int (mo_size (ps_object ps))" using in_bounds_ok(4) [OF o \<sigma>(1)] by (simp add: holds_def)
    then have "nat (\<sigma> (idx_array ps) 0) < mo_size (ps_object ps)" using o by (auto simp: object_ok_def)
    from line_bound(1) [OF o this] all \<sigma> show "lval \<sigma> (cacheLineUpdates ps) (nat (\<sigma> (idx_array ps) 0) div cacheLineSize ctx) = 1"
      by (simp add: all_persisted_def holds_def)
  qed
qed

lemma any_persisted_ok:
  assumes inv: "ps_inv ctx m ps" and st: "state_ok ctx ps cs"
  shows "\<exists>e. getIsOffsetPersistedExpr ctx ps (any_offset ctx ps) False = Some e \<and>
    TimingSolver_mustBeTrue (pc_solver ctx) (cs @ [in_bounds ctx ps]) e = Some (Some (all_persisted ctx cs ps))"
proof -
  let ?cs = "cs @ [in_bounds ctx ps]" and ?l = "\<lambda>\<sigma>. nat (\<sigma> (idx_array ps) 0) div cacheLineSize ctx"
  have o: "object_ok ctx ps" and l: "lists_ok (line_count ctx ps) m ps" using inv by (simp_all add: ps_inv_def)
  have cao: "\<not> pc_cao ctx" using st by (simp add: state_ok_def solver_ok_def)
  note a = any_offset_ok [OF o]
  have d: "denotes (holds ?cs) (any_offset ctx ps) (pc_pointerWidth ctx) (\<lambda>\<sigma>. \<sigma> (idx_array ps) 0)" using a by (simp add: denotes_def)
  have "0 < cacheLineSize ctx" "cacheLineSize ctx < 2 ^ 32" using o by (simp_all add: object_ok_def)
  with getCacheLine_ok [OF d] pw_bounds [OF o] obtain cl where cl: "getCacheLine ctx (any_offset ctx ps) = Some cl"
    "denotes (holds ?cs) cl 32 (\<lambda>\<sigma>. take_bit 32 (\<sigma> (idx_array ps) 0 div int (cacheLineSize ctx)))" by (auto simp: ok_iff)
  have b: "take_bit 32 (\<sigma> (idx_array ps) 0 div int (cacheLineSize ctx)) = int (?l \<sigma>) \<and> ?l \<sigma> < line_count ctx ps"
    if "wf_env \<sigma>" "holds ?cs \<sigma>" for \<sigma>
  proof -
    have s: "0 \<le> \<sigma> (idx_array ps) 0" using denotesD(5) [OF d] that by (simp add: in_width_def)
    have "\<sigma> (idx_array ps) 0 < int (mo_size (ps_object ps))" using in_bounds_ok(4) [OF o that(1)] that(2) by (simp add: holds_def)
    then have n: "nat (\<sigma> (idx_array ps) 0) < mo_size (ps_object ps)" using s by linarith
    note lb = line_bound [OF o n]
    have "\<sigma> (idx_array ps) 0 div int (cacheLineSize ctx) = int (?l \<sigma>)" using lb(2) s by simp
    then show ?thesis using lb(1,3) by (simp add: take_bit_int_eq_self)
  qed
  have d': "denotes (holds ?cs) cl 32 (\<lambda>\<sigma>. int (?l \<sigma>))" using cl(2) b by (simp add: denotes_def)
  have wl: "wf_lines (line_count ctx ps) 8 1 {0, 1} (if False then pendingCacheLineUpdates ps else cacheLineUpdates ps)"
    using lists_okD(1) [OF l] by simp
  from isCacheLinePersisted_ok [OF wl d' cao] b obtain e where e: "isCacheLinePersisted ctx ps cl False = Some e"
    "denotes (holds ?cs) e 1 (\<lambda>\<sigma>. of_bool (lval \<sigma> (cacheLineUpdates ps) (?l \<sigma>) = 1))" by (auto simp: ok_iff)
  have "valid (?cs, e) \<longleftrightarrow> all_persisted ctx cs ps"
    using e(2) any_line [OF o l st] by (simp add: valid_def denotes_def)
  then show ?thesis using ts_mustBeTrue_exact [OF state_answering(2) [OF o st]] denotesD(1,2) [OF e(2)] cl(1) e(1)
    by (simp add: getIsOffsetPersistedExpr_def)
qed

section \<open>The writes that are reported\<close>

text \<open>The locations of the last writes to a line that some execution leaves unpersisted.\<close>

definition unpersisted_at :: "expr list \<Rightarrow> pstate \<Rightarrow> nat \<Rightarrow> u64 set" where
  "unpersisted_at cs ps l = {i. \<exists>\<sigma>. wf_env \<sigma> \<and> holds cs \<sigma> \<and> lval \<sigma> (cacheLineUpdates ps) l \<noteq> 1 \<and> lval \<sigma> (rootCauseWrites ps) l = uint i}"

lemma unpersisted_at_alt:
  assumes "ps_inv ctx m ps" "l < line_count ctx ps"
  shows "unpersisted_at cs ps l = {i. i \<noteq> 0 \<and> (\<exists>\<sigma>. wf_env \<sigma> \<and> holds cs \<sigma> \<and> lval \<sigma> (rootCauseWrites ps) l = uint i)}"
proof -
  have "lval \<sigma> (rootCauseWrites ps) l = 0 \<longleftrightarrow> lval \<sigma> (cacheLineUpdates ps) l = 1" if "wf_env \<sigma>" for \<sigma>
    using assms that by (simp add: ps_inv_def lists_agree_def)
  moreover have "uint i = 0 \<longleftrightarrow> i = 0" for i :: u64 by (rule unsigned_eq_0_iff)
  ultimately show ?thesis unfolding unpersisted_at_def by (metis (no_types, lifting))
qed

lemma insert_all:
  "0 \<notin> set ids \<Longrightarrow> ok (foldM (\<lambda>i causes. do { assert_that ((i::u64) > 0); Some (List.insert i causes) }) ids causes)
    (\<lambda>r. set r = set ids \<union> set causes \<and> (distinct causes \<longrightarrow> distinct r))"
proof (induction ids arbitrary: causes)
  case (Cons i ids)
  then have "i > 0" by (simp add: word_neq_0_conv [symmetric])
  with Cons.IH [of "List.insert i causes"] Cons.prems show ?case by (auto elim!: ok_mono)
qed simp

lemma causesOfLine_ok:
  assumes inv: "ps_inv ctx (x_rootCauseMgr x) ps" "mgr_ok (x_rootCauseMgr x)" and st: "state_ok ctx ps (x_constraints x)"
    and cl: "cl < line_count ctx ps" and d: "distinct causes"
  shows "ok (causesOfLine ctx x ps cl causes) (\<lambda>r. distinct r \<and> set r = unpersisted_at (x_constraints x) ps cl \<union> set causes)"
proof -
  let ?cs = "x_constraints x" and ?m = "x_rootCauseMgr x"
  have o: "object_ok ctx ps" and l: "lists_ok (line_count ctx ps) ?m ps" using inv(1) by (simp_all add: ps_inv_def)
  have ans: "answering (pc_solver ctx) ?cs" by (rule state_answering(1) [OF o st])
  have cao: "\<not> pc_cao ctx" using ans by (simp add: answering_def)
  have "cl < 2 ^ 32" using lists_okD(1) [OF l] cl by (simp add: wf_lines_def)
  then have dcl: "denotes (holds ?cs) (const32 cl) 32 (\<lambda>_. int cl)" by (simp add: const32_def in_width_def)
  have wl: "wf_lines (line_count ctx ps) 8 1 {0, 1} (if False then pendingCacheLineUpdates ps else cacheLineUpdates ps)"
    using lists_okD(1) [OF l] by simp
  from isCacheLinePersisted_ok [OF wl dcl cao] cl obtain e where e: "isCacheLinePersisted ctx ps (const32 cl) False = Some e"
    "denotes (holds ?cs) e 1 (\<lambda>\<sigma>. of_bool (lval \<sigma> (cacheLineUpdates ps) cl = 1))" by (auto simp: ok_iff)
  have q: "TimingSolver_mustBeTrue (pc_solver ctx) ?cs e = Some (Some (valid (?cs, e)))"
    using ts_mustBeTrue_exact [OF ans] denotesD(1,2) [OF e(2)] by blast
  have v: "valid (?cs, e) \<longleftrightarrow> (\<forall>\<sigma>. wf_env \<sigma> \<longrightarrow> holds ?cs \<sigma> \<longrightarrow> lval \<sigma> (cacheLineUpdates ps) cl = 1)"
    using e(2) by (simp add: valid_def denotes_def)
  show ?thesis
  proof (cases "valid (?cs, e)")
    case True
    then have "unpersisted_at ?cs ps cl = {}" using v by (auto simp: unpersisted_at_def)
    then show ?thesis using e(1) q True d by (simp add: causesOfLine_def must_succeed_def)
  next
    case False
    have r: "ids_valid ?m" "rootCauseWidth ps = 64" using inv(2) o by (simp_all add: mgr_ok_def object_ok_def)
    have "ok (getRootCause ctx ps ?cs (rootCauseWrites ps) (const32 cl)) (\<lambda>ids. distinct ids \<and> set ids =
        {i. i \<noteq> 0 \<and> (\<exists>\<sigma>. wf_env \<sigma> \<and> holds ?cs \<sigma> \<and> lval \<sigma> (rootCauseWrites ps) (nat (int cl)) = uint i)})"
      by (rule getRootCause_ok [OF ans r(2) lists_okD(3) [OF l] dcl cause_values_range [OF r(1)]]) (use cl in simp)
    then obtain ids where ids: "getRootCause ctx ps ?cs (rootCauseWrites ps) (const32 cl) = Some ids"
      "set ids = unpersisted_at ?cs ps cl" unfolding unpersisted_at_alt [OF inv(1) cl] by (elim okE) simp
    have "0 \<notin> set ids" unfolding ids(2) unpersisted_at_alt [OF inv(1) cl] by simp
    from insert_all [OF this, of causes] show ?thesis using e(1) q False ids d
      by (auto simp: causesOfLine_def must_succeed_def elim!: ok_mono)
  qed
qed

definition unpersisted_writes :: "pctx \<Rightarrow> expr list \<Rightarrow> pstate \<Rightarrow> u64 set" where
  "unpersisted_writes ctx cs ps = (\<Union>l < line_count ctx ps. unpersisted_at cs ps l)"

lemma foldM_union:
  assumes "\<And>l causes. l \<in> set ls \<Longrightarrow> distinct causes \<Longrightarrow> ok (f l causes) (\<lambda>r. distinct r \<and> set r = U l \<union> set causes)" "distinct causes"
  shows "ok (foldM f ls causes) (\<lambda>r. distinct r \<and> set r = (\<Union>l \<in> set ls. U l) \<union> set causes)"
  using assms
proof (induction ls arbitrary: causes)
  case (Cons l ls)
  from Cons.prems(1) [of l, OF _ Cons.prems(2)] obtain c where c: "f l causes = Some c" "distinct c" "set c = U l \<union> set causes"
    by (auto simp: ok_iff)
  have "ok (foldM f ls c) (\<lambda>r. distinct r \<and> set r = (\<Union>l \<in> set ls. U l) \<union> set c)"
    by (rule Cons.IH) (use Cons.prems(1) c(2) in auto)
  then show ?case using c(1,3) by (auto elim!: ok_mono)
qed simp

lemma all_persisted_iff:
  assumes inv: "ps_inv ctx m ps"
  shows "all_persisted ctx cs ps \<longleftrightarrow> unpersisted_writes ctx cs ps = {}" "unpersisted_writes ctx cs ps \<subseteq> known_ids m"
proof -
  have l: "lists_ok (line_count ctx ps) m ps" using inv by (simp add: ps_inv_def)
  have val: "\<exists>i \<in> known_ids m. lval \<sigma> (rootCauseWrites ps) k = uint i" if "wf_env \<sigma>" "k < line_count ctx ps" "lval \<sigma> (cacheLineUpdates ps) k \<noteq> 1" for \<sigma> k
  proof -
    have "lval \<sigma> (rootCauseWrites ps) k \<noteq> 0" using inv that by (simp add: ps_inv_def lists_agree_def)
    then show ?thesis using lval_values [OF lists_okD(3) [OF l] that(2), of \<sigma>] by (auto simp: cause_values_def)
  qed
  show "unpersisted_writes ctx cs ps \<subseteq> known_ids m"
  proof
    fix i assume "i \<in> unpersisted_writes ctx cs ps"
    then obtain \<sigma> k where k: "wf_env \<sigma>" "k < line_count ctx ps" "lval \<sigma> (cacheLineUpdates ps) k \<noteq> 1" "lval \<sigma> (rootCauseWrites ps) k = uint i"
      by (auto simp: unpersisted_writes_def unpersisted_at_def)
    from val [OF k(1-3)] k(4) obtain j where j: "j \<in> known_ids m" "uint i = uint j" by auto
    then show "i \<in> known_ids m" using unsigned_word_eqI [OF j(2)] by simp
  qed
  show "all_persisted ctx cs ps \<longleftrightarrow> unpersisted_writes ctx cs ps = {}"
  proof
    assume e: "unpersisted_writes ctx cs ps = {}"
    show "all_persisted ctx cs ps"
      unfolding all_persisted_def
    proof (intro allI impI, rule ccontr)
      fix \<sigma> k assume a: "wf_env \<sigma>" "holds cs \<sigma>" "k < line_count ctx ps" "lval \<sigma> (cacheLineUpdates ps) k \<noteq> 1"
      from val [OF a(1,3,4)] obtain i :: u64 where "lval \<sigma> (rootCauseWrites ps) k = uint i" by blast
      then have "i \<in> unpersisted_at cs ps k" unfolding unpersisted_at_def using a by blast
      then show False using e a(3) by (auto simp: unpersisted_writes_def)
    qed
  next
    assume "all_persisted ctx cs ps"
    then show "unpersisted_writes ctx cs ps = {}" by (auto simp: all_persisted_def unpersisted_writes_def unpersisted_at_def)
  qed
qed

lemma getRootCauses_ok:
  assumes inv: "ps_inv ctx (x_rootCauseMgr x) ps" "mgr_ok (x_rootCauseMgr x)" and st: "state_ok ctx ps (x_constraints x)"
  shows "ok (getRootCauses ctx x ps (rootCauseWrites ps)) (\<lambda>r. distinct r \<and> set r = unpersisted_writes ctx (x_constraints x) ps)"
proof (cases "snd (rootCauseWrites ps) = NullNode")
  case True
  have l: "lists_ok (line_count ctx ps) (x_rootCauseMgr x) ps" using inv(1) by (simp add: ps_inv_def)
  have "unpersisted_at (x_constraints x) ps k = {}" if "k < line_count ctx ps" for k
    unfolding unpersisted_at_alt [OF inv(1) that] using lval_init [OF lists_okD(3) [OF l] True that] unsigned_eq_0_iff by fastforce
  then show ?thesis using True by (simp add: getRootCauses_def unpersisted_writes_def)
next
  case False
  have n: "numCacheLines ctx ps = line_count ctx ps" using inv(1) by (simp add: ps_inv_def object_ok_def numCacheLines_def line_count_def)
  have "ok (foldM (causesOfLine ctx x ps) [0..<line_count ctx ps] []) (\<lambda>r. distinct r \<and>
      set r = (\<Union>l \<in> set [0..<line_count ctx ps]. unpersisted_at (x_constraints x) ps l) \<union> set [])"
    by (rule foldM_union) (use causesOfLine_ok [OF inv st] in auto)
  then show ?thesis using False n by (auto simp: getRootCauses_def unpersisted_writes_def lessThan_atLeast0 elim!: ok_mono)
qed

text \<open>Reporting them: each report counts at most every location once.\<close>

lemma markAll_ok:
  assumes "mgr_ok m" "set errs \<subseteq> known_ids m" "unat (totalOccurences m) + length errs * (length (usedIds m) + 1) < 2 ^ 64"
  shows "ok (foldM markAsBug errs m) (\<lambda>m'. mgr_ok m' \<and> known_ids m' = known_ids m \<and> usedIds m' = usedIds m \<and>
    set errs \<union> set (buggyIds m) \<subseteq> set (buggyIds m'))"
  using assms
proof (induction errs arbitrary: m)
  case (Cons i errs)
  have "unat (totalOccurences m) + length (usedIds m) + 1 < 2 ^ 64" using Cons.prems(3) by simp
  from markAsBug_keeps [OF Cons.prems(1) _ this, of i] Cons.prems(2) obtain m1 where m1: "markAsBug i m = Some m1" "mgr_ok m1"
    "known_ids m1 = known_ids m" "usedIds m1 = usedIds m"
    "unat (totalOccurences m1) \<le> unat (totalOccurences m) + length (usedIds m) + 1" "insert i (set (buggyIds m)) \<subseteq> set (buggyIds m1)"
    by (auto simp: ok_iff)
  have "unat (totalOccurences m1) + length errs * (length (usedIds m1) + 1) < 2 ^ 64" using Cons.prems(3) m1(4,5) by simp
  with Cons.IH [OF m1(2)] Cons.prems(2) m1 show ?case by (auto elim!: ok_mono)
qed simp

lemma markPersistenceErrors_ok:
  assumes inv: "ps_inv ctx (x_rootCauseMgr x) ps" "mgr_ok (x_rootCauseMgr x)" and st: "state_ok ctx ps (x_constraints x)"
    and room: "unat (totalOccurences (x_rootCauseMgr x)) + length (usedIds (x_rootCauseMgr x)) * (length (usedIds (x_rootCauseMgr x)) + 1) < 2 ^ 64"
  shows "ok (markPersistenceErrors ctx (ps, x)) (\<lambda>(errs, x'). \<exists>m'. x' = x\<lparr>x_rootCauseMgr := m'\<rparr> \<and> mgr_ok m' \<and> distinct errs \<and>
    set errs = unpersisted_writes ctx (x_constraints x) ps \<and> set errs \<subseteq> set (buggyIds m') \<and>
    (errs = [] \<longleftrightarrow> all_persisted ctx (x_constraints x) ps))"
proof -
  let ?cs = "x_constraints x" and ?m = "x_rootCauseMgr x"
  have o: "object_ok ctx ps" using inv(1) by (simp add: ps_inv_def)
  have cao: "\<not> pc_cao ctx" using st by (simp add: state_ok_def solver_ok_def)
  from any_persisted_ok [OF inv(1) st] obtain e where e: "getIsOffsetPersistedExpr ctx ps (any_offset ctx ps) False = Some e"
    "TimingSolver_mustBeTrue (pc_solver ctx) (?cs @ [in_bounds ctx ps]) e = Some (Some (all_persisted ctx ?cs ps))" by blast
  have start: "markPersistenceErrors ctx (ps, x) =
      (if \<not> all_persisted ctx ?cs ps then markNonPersistedWritesAsBugs ctx (ps, x) else Some ([], x))"
    using any_offset_ok(1) [OF o] in_bounds_ok(1) [OF o] add_in_bounds [OF o st] cao e
    by (simp add: markPersistenceErrors_def must_succeed_def)
  note all = all_persisted_iff [OF inv(1), of ?cs]
  show ?thesis
  proof (cases "all_persisted ctx ?cs ps")
    case True
    then show ?thesis using start all(1) inv(2) by (auto intro: exI [of _ ?m])
  next
    case False
    from getRootCauses_ok [OF inv st] obtain errs where errs: "getRootCauses ctx x ps (rootCauseWrites ps) = Some errs"
      "distinct errs" "set errs = unpersisted_writes ctx ?cs ps" by (elim okE) blast
    have ne: "errs \<noteq> []" using False all(1) errs(3) by auto
    have "card (set errs) \<le> card (known_ids ?m)" by (rule card_mono) (use all(2) errs(3) in \<open>simp_all add: known_ids_def\<close>)
    then have "length errs \<le> length (usedIds ?m)" using errs(2) card_known [of ?m] inv(2) by (simp add: distinct_card mgr_ok_def)
    then have "unat (totalOccurences ?m) + length errs * (length (usedIds ?m) + 1) < 2 ^ 64"
      using room mult_le_mono1 [of "length errs" "length (usedIds ?m)" "length (usedIds ?m) + 1"] by linarith
    from markAll_ok [OF inv(2) _ this] all(2) errs(3) obtain m' where "foldM markAsBug errs ?m = Some m'" "mgr_ok m'" "set errs \<subseteq> set (buggyIds m')"
      by (auto simp: ok_iff)
    then show ?thesis using start False errs ne by (auto simp: markNonPersistedWritesAsBugs_def assert_that_def)
  qed
qed

end
