(* ===== verification/Persistent_Runs.thy ===== *)
theory Persistent_Runs
  imports Persistent_Check
begin

text \<open>
  Runs of stores, flushes and fences on a persistent object implement the persistency model: the
  interpretation of its contract on the operations of the source.
\<close>

section \<open>Operations\<close>

datatype pm_op = WriteByte nat expr | WriteSym expr expr | FlushAt expr | Fence

type_synonym pm_state = "pctx \<times> pstate \<times> xstate"

fun pm_do :: "pm_op \<Rightarrow> pm_state \<Rightarrow> pm_state option" where
  "pm_do (WriteByte off v) (ctx, s) = map_option (Pair ctx) (PersistentState_write8 ctx off v s)"
| "pm_do (WriteSym off v) (ctx, s) = map_option (Pair ctx) (PersistentState_write8_sym ctx off v s)"
| "pm_do (FlushAt off) (ctx, s) = map_option (\<lambda>(r, s). (ctx, s)) (executePersistentMemoryFlush ctx off s)"
| "pm_do Fence (ctx, ps, x) = map_option (\<lambda>(r, objects, x). (ctx, hd objects, x)) (executePersistentMemoryFence ctx ([ps], x))"

text \<open>An operation at an instruction, with what a report takes from the execution state there.\<close>

type_synonym pm_at = "exec_view \<times> nat \<times> pm_op"

fun pm_step :: "pm_at \<Rightarrow> pm_state \<Rightarrow> pm_state option" where
  "pm_step (v, pc, p) (ctx, ps, x) = pm_do p (ctx, ps, x\<lparr>x_view := v, x_prevPC := pc\<rparr>)"

fun pm_inv :: "pm_state \<Rightarrow> bool" where
  "pm_inv (ctx, ps, x) \<longleftrightarrow> ps_inv ctx (x_rootCauseMgr x) ps \<and> mgr_ok (x_rootCauseMgr x) \<and> state_ok ctx ps (x_constraints x) \<and>
     ignoreBytes ps = []"

fun pm_admits :: "pm_state \<Rightarrow> env \<Rightarrow> bool" where
  "pm_admits (ctx, ps, x) \<sigma> \<longleftrightarrow> wf_env \<sigma> \<and> holds (x_constraints x) \<sigma>"

fun pm_op_ok :: "pm_state \<Rightarrow> pm_op \<Rightarrow> bool" where
  "pm_op_ok (ctx, ps, x) (WriteByte off v) \<longleftrightarrow> off < mo_size (ps_object ps) \<and> wt v \<and> getWidth v = 8"
| "pm_op_ok (ctx, ps, x) (WriteSym off v) \<longleftrightarrow> offset_in ctx ps (x_constraints x) off \<and> getWidth off = 32 \<and> \<not> isConstantExpr off \<and>
     wt v \<and> getWidth v = 8"
| "pm_op_ok (ctx, ps, x) (FlushAt off) \<longleftrightarrow> offset_in ctx ps (x_constraints x) off"
| "pm_op_ok (ctx, ps, x) Fence \<longleftrightarrow> True"

fun pm_event :: "pm_state \<Rightarrow> env \<Rightarrow> pm_op \<Rightarrow> event" where
  "pm_event (ctx, s) \<sigma> (WriteByte off v) = EStore (off div cacheLineSize ctx)"
| "pm_event (ctx, s) \<sigma> (WriteSym off v) = EStore (line_at ctx \<sigma> off)"
| "pm_event (ctx, s) \<sigma> (FlushAt off) = EFlush (line_at ctx \<sigma> off)"
| "pm_event (ctx, s) \<sigma> Fence = EFence"

fun pm_at_ok :: "pm_state \<Rightarrow> pm_at \<Rightarrow> bool" where
  "pm_at_ok (ctx, s) (v, pc, p) \<longleftrightarrow> seed_ok (pc_hash_str ctx) (pc_hash_int ctx) v \<and> pm_op_ok (ctx, s) p"

fun pm_at_event :: "pm_state \<Rightarrow> env \<Rightarrow> pm_at \<Rightarrow> event" where
  "pm_at_event s \<sigma> (v, pc, p) = pm_event s \<sigma> p"

fun pm_lines :: "pm_state \<Rightarrow> nat" where
  "pm_lines (ctx, ps, x) = line_count ctx ps"

fun pm_now :: "pm_state \<Rightarrow> env \<Rightarrow> nat \<Rightarrow> bool" where
  "pm_now (ctx, ps, x) \<sigma> l \<longleftrightarrow> lval \<sigma> (cacheLineUpdates ps) l = 1"

fun pm_soon :: "pm_state \<Rightarrow> env \<Rightarrow> nat \<Rightarrow> bool" where
  "pm_soon (ctx, ps, x) \<sigma> l \<longleftrightarrow> lval \<sigma> (pendingCacheLineUpdates ps) l = 1"

text \<open>The 64-bit identifiers and counters do not overflow within \<open>n\<close> operations and the final check.\<close>

fun pm_room :: "pm_state \<Rightarrow> nat \<Rightarrow> bool" where
  "pm_room (ctx, ps, x) n \<longleftrightarrow> (let k = length (usedIds (x_rootCauseMgr x)) in
     unat (totalOccurences (x_rootCauseMgr x)) + n * (k + 2 * n + 3) + (k + 2 * n) * (k + 2 * n + 1) < 2 ^ 64)"

lemma room_step:
  assumes "(t::nat) + Suc n * (k + 2 * Suc n + 3) + (k + 2 * Suc n) * (k + 2 * Suc n + 1) < 2 ^ 64"
  shows "k + 2 \<le> 2 ^ 32" "t + k + 2 < 2 ^ 64"
    "k' \<le> k + 2 \<Longrightarrow> t' \<le> t + k + 2 \<Longrightarrow> t' + n * (k' + 2 * n + 3) + (k' + 2 * n) * (k' + 2 * n + 1) < 2 ^ 64"
proof -
  have "k + 2 \<le> Suc n * (k + 2 * Suc n + 3)" by simp
  then show a: "t + k + 2 < 2 ^ 64" using assms by linarith
  show "k + 2 \<le> 2 ^ 32"
  proof (rule ccontr)
    assume "\<not> k + 2 \<le> 2 ^ 32"
    then have "2 ^ 32 * 2 ^ 32 \<le> (k + 2 * Suc n) * (k + 2 * Suc n + 1)" by (intro mult_le_mono) simp_all
    then show False using assms by simp
  qed
  assume k: "k' \<le> k + 2" and t: "t' \<le> t + k + 2"
  have "n * (k' + 2 * n + 3) \<le> n * (k + 2 * Suc n + 3)" using k by (intro mult_le_mono2) simp
  moreover have "(k' + 2 * n) * (k' + 2 * n + 1) \<le> (k + 2 * Suc n) * (k + 2 * Suc n + 1)" using k by (intro mult_le_mono) simp_all
  moreover have "Suc n * (k + 2 * Suc n + 3) = n * (k + 2 * Suc n + 3) + (k + 2 * Suc n + 3)" by simp
  ultimately show "t' + n * (k' + 2 * n + 3) + (k' + 2 * n) * (k' + 2 * n + 1) < 2 ^ 64" using assms t by linarith
qed

text \<open>What every operation keeps.\<close>

lemma pm_advance:
  assumes inv: "pm_inv (ctx, ps, x)" and room: "pm_room (ctx, ps, x) (Suc n)" and c: "consumes (x_rootCauseMgr x) m'" "ps_inv ctx m' ps'"
    and so: "same_object (ps\<lparr>ps_os := os\<rparr>) ps'"
  shows "pm_inv (ctx, ps', x\<lparr>x_rootCauseMgr := m'\<rparr>) \<and> pm_room (ctx, ps', x\<lparr>x_rootCauseMgr := m'\<rparr>) n \<and>
    pm_lines (ctx, ps', x\<lparr>x_rootCauseMgr := m'\<rparr>) = pm_lines (ctx, ps, x) \<and>
    pm_admits (ctx, ps', x\<lparr>x_rootCauseMgr := m'\<rparr>) = pm_admits (ctx, ps, x) \<and>
    pm_op_ok (ctx, ps', x\<lparr>x_rootCauseMgr := m'\<rparr>) = pm_op_ok (ctx, ps, x) \<and>
    pm_event (ctx, ps', x\<lparr>x_rootCauseMgr := m'\<rparr>) = pm_event (ctx, ps, x)"
proof -
  note s = same_object_simps [OF so]
  have ob: "ps_object ps' = ps_object ps" "ignoreBytes ps' = ignoreBytes ps" using so by (simp_all add: same_object_def)
  let ?s = "(ctx, ps', x\<lparr>x_rootCauseMgr := m'\<rparr>)"
  have "pm_inv ?s" using inv c s ob by (simp add: consumes_def)
  moreover have "pm_room ?s n" using room_step(3) c(1) room by (simp add: consumes_def Let_def)
  moreover have "pm_op_ok ?s p = pm_op_ok (ctx, ps, x) p" for p using s ob by (cases p) simp_all
  moreover have "pm_event ?s \<sigma> p = pm_event (ctx, ps, x) \<sigma> p" for \<sigma> p by (cases p) simp_all
  ultimately show ?thesis using s by (auto simp: fun_eq_iff)
qed

lemma write_step:
  assumes inv: "pm_inv (ctx, ps, x)" and room: "pm_room (ctx, ps, x) (Suc n)" and w: "written ctx off os (ps, x) s'"
    and e: "\<And>\<sigma>. wf_env \<sigma> \<Longrightarrow> holds (x_constraints x) \<sigma> \<Longrightarrow> pm_event (ctx, ps, x) \<sigma> p = EStore (line_at ctx \<sigma> off)"
  shows "pm_inv (ctx, s') \<and> pm_room (ctx, s') n \<and> pm_lines (ctx, s') = pm_lines (ctx, ps, x) \<and>
    pm_admits (ctx, s') = pm_admits (ctx, ps, x) \<and> pm_op_ok (ctx, s') = pm_op_ok (ctx, ps, x) \<and>
    pm_event (ctx, s') = pm_event (ctx, ps, x) \<and>
    (\<forall>\<sigma> l. pm_admits (ctx, ps, x) \<sigma> \<longrightarrow> l < pm_lines (ctx, ps, x) \<longrightarrow> (pm_now (ctx, s') \<sigma> l, pm_soon (ctx, s') \<sigma> l) =
      line_step l (pm_event (ctx, ps, x) \<sigma> p) (pm_now (ctx, ps, x) \<sigma> l, pm_soon (ctx, ps, x) \<sigma> l))"
proof -
  obtain ps' m' where s': "s' = (ps', x\<lparr>x_rootCauseMgr := m'\<rparr>)" and m': "consumes (x_rootCauseMgr x) m'" "ps_inv ctx m' ps'"
    "same_object (ps\<lparr>ps_os := os\<rparr>) ps'" "dirtied ctx (x_constraints x) off ps ps'"
    using w by (cases s') (auto simp: written_def)
  have "(pm_now (ctx, s') \<sigma> l, pm_soon (ctx, s') \<sigma> l) =
      line_step l (pm_event (ctx, ps, x) \<sigma> p) (pm_now (ctx, ps, x) \<sigma> l, pm_soon (ctx, ps, x) \<sigma> l)"
    if "pm_admits (ctx, ps, x) \<sigma>" "l < pm_lines (ctx, ps, x)" for \<sigma> l
    using m'(4) e that by (simp add: s' dirtied_def)
  then show ?thesis using pm_advance [OF inv room m'(1-3)] unfolding s' by blast
qed

lemma pm_roomD:
  assumes "pm_room (ctx, ps, x) (Suc n)" "seed_ok (pc_hash_str ctx) (pc_hash_int ctx) (x_view x)"
  shows "can_name ctx x (Suc (Suc 0))"
    "unat (totalOccurences (x_rootCauseMgr x)) + length (usedIds (x_rootCauseMgr x)) + 2 < 2 ^ 64"
  using room_step(1,2) assms by (simp_all add: Let_def can_name_def)

lemma flush_step:
  assumes inv: "pm_inv (ctx, ps, x)" and room: "pm_room (ctx, ps, x) (Suc n)" and seed: "seed_ok (pc_hash_str ctx) (pc_hash_int ctx) (x_view x)"
    and off: "offset_in ctx ps (x_constraints x) off"
  shows "ok (pm_do (FlushAt off) (ctx, ps, x)) (\<lambda>s'. pm_inv s' \<and> pm_room s' n \<and> pm_lines s' = pm_lines (ctx, ps, x) \<and>
    pm_admits s' = pm_admits (ctx, ps, x) \<and> pm_op_ok s' = pm_op_ok (ctx, ps, x) \<and> pm_event s' = pm_event (ctx, ps, x) \<and>
    (\<forall>\<sigma> l. pm_admits (ctx, ps, x) \<sigma> \<longrightarrow> l < pm_lines (ctx, ps, x) \<longrightarrow> (pm_now s' \<sigma> l, pm_soon s' \<sigma> l) =
      line_step l (pm_event (ctx, ps, x) \<sigma> (FlushAt off)) (pm_now (ctx, ps, x) \<sigma> l, pm_soon (ctx, ps, x) \<sigma> l)))"
proof -
  have "ps_inv ctx (x_rootCauseMgr x) ps" "mgr_ok (x_rootCauseMgr x)" "state_ok ctx ps (x_constraints x)" using inv by simp_all
  from executePersistentMemoryFlush_ok [OF this off pm_roomD [OF room seed]] obtain r ps' m' where
    f: "executePersistentMemoryFlush ctx off (ps, x) = Some (r, ps', x\<lparr>x_rootCauseMgr := m'\<rparr>)"
      "consumes (x_rootCauseMgr x) m'" "ps_inv ctx m' ps'" "same_object ps ps'" "flushed ctx (x_constraints x) off ps ps'"
    by (auto simp: ok_iff)
  have "same_object (ps\<lparr>ps_os := ps_os ps\<rparr>) ps'" using f(4) by simp
  note adv = pm_advance [OF inv room f(2,3) this]
  let ?s = "(ctx, ps', x\<lparr>x_rootCauseMgr := m'\<rparr>)"
  have "(pm_now ?s \<sigma> l, pm_soon ?s \<sigma> l) =
      line_step l (pm_event (ctx, ps, x) \<sigma> (FlushAt off)) (pm_now (ctx, ps, x) \<sigma> l, pm_soon (ctx, ps, x) \<sigma> l)"
    if "pm_admits (ctx, ps, x) \<sigma>" "l < pm_lines (ctx, ps, x)" for \<sigma> l
    using f(5) that by (simp add: flushed_def)
  moreover have "pm_do (FlushAt off) (ctx, ps, x) = Some ?s" using f(1) by simp
  ultimately show ?thesis using adv unfolding ok_iff by blast
qed

lemma fence_step:
  assumes inv: "pm_inv (ctx, ps, x)" and room: "pm_room (ctx, ps, x) (Suc n)" and seed: "seed_ok (pc_hash_str ctx) (pc_hash_int ctx) (x_view x)"
  shows "ok (pm_do Fence (ctx, ps, x)) (\<lambda>s'. pm_inv s' \<and> pm_room s' n \<and> pm_lines s' = pm_lines (ctx, ps, x) \<and>
    pm_admits s' = pm_admits (ctx, ps, x) \<and> pm_op_ok s' = pm_op_ok (ctx, ps, x) \<and> pm_event s' = pm_event (ctx, ps, x) \<and>
    (\<forall>\<sigma> l. pm_admits (ctx, ps, x) \<sigma> \<longrightarrow> l < pm_lines (ctx, ps, x) \<longrightarrow> (pm_now s' \<sigma> l, pm_soon s' \<sigma> l) =
      line_step l (pm_event (ctx, ps, x) \<sigma> Fence) (pm_now (ctx, ps, x) \<sigma> l, pm_soon (ctx, ps, x) \<sigma> l)))"
proof -
  have i: "ps_inv ctx (x_rootCauseMgr x) ps" "mgr_ok (x_rootCauseMgr x)" using inv by simp_all
  obtain b ps' where c: "commitPendingPersists ps = (b, ps')" by fastforce
  note cp = commitPendingPersists_ok [OF i(1) c]
  from executePersistentMemoryFence_ok [OF i(2) pm_roomD [OF room seed], of "[ps]"] obtain r m' where
    f: "executePersistentMemoryFence ctx ([ps], x) = Some (r, [ps'], x\<lparr>x_rootCauseMgr := m'\<rparr>)" "consumes (x_rootCauseMgr x) m'"
    by (auto simp: ok_iff c)
  have m': "ps_inv ctx m' ps'" by (rule ps_inv_mono [OF cp(1)]) (use f(2) in \<open>simp add: consumes_def\<close>)
  have "same_object (ps\<lparr>ps_os := ps_os ps\<rparr>) ps'" using cp(2) by simp
  note adv = pm_advance [OF inv room f(2) m' this]
  let ?s = "(ctx, ps', x\<lparr>x_rootCauseMgr := m'\<rparr>)"
  have "(pm_now ?s \<sigma> l, pm_soon ?s \<sigma> l) =
      line_step l (pm_event (ctx, ps, x) \<sigma> Fence) (pm_now (ctx, ps, x) \<sigma> l, pm_soon (ctx, ps, x) \<sigma> l)" for \<sigma> l
    using cp(3,4) by simp
  moreover have "pm_do Fence (ctx, ps, x) = Some ?s" using f(1) by simp
  ultimately show ?thesis using adv unfolding ok_iff by blast
qed

lemma pm_do_ok:
  assumes inv: "pm_inv (ctx, ps, x)" and p: "pm_op_ok (ctx, ps, x) p" and room: "pm_room (ctx, ps, x) (Suc n)"
    and seed: "seed_ok (pc_hash_str ctx) (pc_hash_int ctx) (x_view x)" and s: "s = (ctx, ps, x)"
  shows "ok (pm_do p s) (\<lambda>s'. pm_inv s' \<and> pm_room s' n \<and> pm_lines s' = pm_lines s \<and> pm_admits s' = pm_admits s \<and>
    pm_op_ok s' = pm_op_ok s \<and> pm_event s' = pm_event s \<and> (\<forall>\<sigma> l. pm_admits s \<sigma> \<longrightarrow> l < pm_lines s \<longrightarrow>
      (pm_now s' \<sigma> l, pm_soon s' \<sigma> l) = line_step l (pm_event s \<sigma> p) (pm_now s \<sigma> l, pm_soon s \<sigma> l)))"
proof -
  have i: "ps_inv ctx (x_rootCauseMgr x) ps" "mgr_ok (x_rootCauseMgr x)" "state_ok ctx ps (x_constraints x)" "ignoreBytes ps = []"
    using inv by simp_all
  have o: "object_ok ctx ps" using i(1) by (simp add: ps_inv_def)
  note r = pm_roomD [OF room seed]
  show ?thesis
  proof (cases p)
    case (WriteByte off v)
    then have v: "off < mo_size (ps_object ps)" "wt v" "getWidth v = 8" using p s by simp_all
    from write8_written [OF i r(1) v] obtain s1 os where w: "PersistentState_write8 ctx off v (ps, x) = Some s1"
      "written ctx (const32 off) os (ps, x) s1" by (elim okE) blast
    have "pm_event (ctx, ps, x) \<sigma> p = EStore (line_at ctx \<sigma> (const32 off))" for \<sigma>
      using const_offset_in(2) [OF o v(1)] WriteByte by simp
    from write_step [OF inv room w(2) this] show ?thesis using w(1) unfolding WriteByte s by simp
  next
    case (WriteSym off v)
    then have v: "offset_in ctx ps (x_constraints x) off" "getWidth off = 32" "\<not> isConstantExpr off" "wt v" "getWidth v = 8"
      using p s by simp_all
    from write8_sym_written [OF i r(1) v] obtain s1 os where w: "PersistentState_write8_sym ctx off v (ps, x) = Some s1"
      "written ctx off os (ps, x) s1" by (elim okE) blast
    have "pm_event (ctx, ps, x) \<sigma> p = EStore (line_at ctx \<sigma> off)" for \<sigma> using WriteSym by simp
    from write_step [OF inv room w(2) this] show ?thesis using w(1) unfolding WriteSym s by simp
  next
    case (FlushAt off)
    then show ?thesis using flush_step [OF inv room seed] p s by simp
  next
    case Fence
    then show ?thesis using fence_step [OF inv room seed] s by simp
  qed
qed

text \<open>The location of an operation has no influence on the lines.\<close>

lemma at_location:
  fixes x :: xstate and v :: exec_view and pc :: nat
  defines "x' \<equiv> x\<lparr>x_view := v, x_prevPC := pc\<rparr>"
  shows "pm_inv (ctx, ps, x') = pm_inv (ctx, ps, x)" "pm_room (ctx, ps, x') n = pm_room (ctx, ps, x) n"
    "pm_lines (ctx, ps, x') = pm_lines (ctx, ps, x)" "pm_admits (ctx, ps, x') = pm_admits (ctx, ps, x)"
    "pm_op_ok (ctx, ps, x') = pm_op_ok (ctx, ps, x)" "pm_event (ctx, ps, x') = pm_event (ctx, ps, x)"
    "pm_now (ctx, ps, x') = pm_now (ctx, ps, x)" "pm_soon (ctx, ps, x') = pm_soon (ctx, ps, x)"
proof -
  have "pm_op_ok (ctx, ps, x') p = pm_op_ok (ctx, ps, x) p" "pm_event (ctx, ps, x') \<sigma> p = pm_event (ctx, ps, x) \<sigma> p" for \<sigma> p
    by (cases p; simp add: x'_def)+
  then show "pm_op_ok (ctx, ps, x') = pm_op_ok (ctx, ps, x)" "pm_event (ctx, ps, x') = pm_event (ctx, ps, x)" by blast+
qed (simp_all add: x'_def fun_eq_iff)

lemma at_simps:
  assumes "pm_op_ok s' = pm_op_ok s" "pm_event s' = pm_event s" "fst s' = fst s"
  shows "pm_at_ok s' = pm_at_ok s" "pm_at_event s' = pm_at_event s"
proof -
  show "pm_at_ok s' = pm_at_ok s" using assms by (cases s; cases s') (auto simp: fun_eq_iff)
  show "pm_at_event s' = pm_at_event s" using assms(2) by (auto simp: fun_eq_iff)
qed

lemma pm_do_context: "pm_do p s = Some s' \<Longrightarrow> fst s' = fst s"
  by (cases "(p, s)" rule: pm_do.cases) auto

lemma pm_step_ok:
  assumes inv: "pm_inv s" and a: "pm_at_ok s a" and room: "pm_room s (Suc n)"
  shows "ok (pm_step a s) (\<lambda>s'. pm_inv s' \<and> pm_room s' n \<and> pm_lines s' = pm_lines s \<and> pm_admits s' = pm_admits s \<and>
    pm_at_ok s' = pm_at_ok s \<and> pm_at_event s' = pm_at_event s \<and> (\<forall>\<sigma> l. pm_admits s \<sigma> \<longrightarrow> l < pm_lines s \<longrightarrow>
      (pm_now s' \<sigma> l, pm_soon s' \<sigma> l) = line_step l (pm_at_event s \<sigma> a) (pm_now s \<sigma> l, pm_soon s \<sigma> l)))"
proof -
  obtain ctx ps x where s: "s = (ctx, ps, x)" using prod_cases3 by blast
  obtain v pc p where p: "a = (v, pc, p)" using prod_cases3 by blast
  let ?x = "x\<lparr>x_view := v, x_prevPC := pc\<rparr>"
  note l = at_location [where x = x and v = v and pc = pc and ctx = ctx and ps = ps]
  have *: "pm_inv (ctx, ps, ?x)" "pm_op_ok (ctx, ps, ?x) p" "pm_room (ctx, ps, ?x) (Suc n)"
    "seed_ok (pc_hash_str ctx) (pc_hash_int ctx) (x_view ?x)" using inv a room unfolding s p l by simp_all
  from pm_do_ok [OF * refl] obtain s' where s': "pm_do p (ctx, ps, ?x) = Some s'" "pm_inv s'" "pm_room s' n" "pm_lines s' = pm_lines s"
    "pm_admits s' = pm_admits s" "pm_op_ok s' = pm_op_ok s" "pm_event s' = pm_event s"
    "\<And>\<sigma> l. pm_admits s \<sigma> \<Longrightarrow> l < pm_lines s \<Longrightarrow>
      (pm_now s' \<sigma> l, pm_soon s' \<sigma> l) = line_step l (pm_event s \<sigma> p) (pm_now s \<sigma> l, pm_soon s \<sigma> l)"
    unfolding l s [symmetric] by (elim okE) blast
  have "fst s' = fst s" using pm_do_context [OF s'(1)] by (simp add: s)
  from at_simps [OF s'(6,7) this] s' show ?thesis by (simp add: s p)
qed

interpretation pm: persistent_memory pm_inv pm_admits pm_at_ok pm_at_event pm_lines pm_now pm_soon pm_step pm_room
  by unfold_locales (rule pm_step_ok)

end
