(* ===== verification/Persistent_Props.thy ===== *)
theory Persistent_Props
  imports Persistent_Runs
begin

text \<open>
  What the tool reports about a run on a persistent object is exactly what the persistency model says of
  its trace, and new objects start clean; two operations do not do what they are for.
\<close>

section \<open>New objects\<close>

definition pm_clean :: "pm_state \<Rightarrow> bool" where
  "pm_clean s \<longleftrightarrow> snd (cacheLineUpdates (fst (snd s))) = NullNode \<and> snd (pendingCacheLineUpdates (fst (snd s))) = NullNode"

lemma clean_lines:
  assumes "pm_inv s" "pm_clean s" "l < pm_lines s"
  shows "pm_now s \<sigma> l \<and> pm_soon s \<sigma> l"
proof -
  obtain ctx ps x where s: "s = (ctx, ps, x)" using prod_cases3 by blast
  have l: "lists_ok (line_count ctx ps) (x_rootCauseMgr x) ps" using assms(1) by (simp add: s ps_inv_def)
  show ?thesis using lval_init [OF lists_okD(1) [OF l], of l \<sigma>] lval_init [OF lists_okD(2) [OF l], of l \<sigma>] assms(2,3)
    by (simp add: s pm_clean_def)
qed

text \<open>An array of \<open>n\<close> equal constants, one for each line.\<close>

definition line_array :: "nat \<Rightarrow> width \<Rightarrow> int \<Rightarrow> array \<Rightarrow> bool" where
  "line_array n r c a \<longleftrightarrow> 0 < n \<and> n \<le> 2 ^ 32 \<and> 0 < r \<and> in_width r c \<and> arr_size a = n \<and> arr_domain a = 32 \<and> arr_range a = r \<and>
     constantValues a = replicate n (APInt r c)"

lemma line_array_ok:
  assumes "line_array n r c a" "isSymbolicArray ia"
  shows "wf_lines n r c V (a, NullNode)" "idx_free ia (a, NullNode)" "l < n \<Longrightarrow> lval \<sigma> (a, NullNode) l = c"
proof -
  show w: "wf_lines n r c V (a, NullNode)" using assms(1) by (simp add: line_array_def wf_lines_def)
  have "a \<noteq> ia" using assms by (auto simp: line_array_def isSymbolicArray_def)
  then show "idx_free ia (a, NullNode)" by (simp add: idx_free_def lval_def init_val_def)
  show "lval \<sigma> (a, NullNode) l = c" if "l < n" using lval_init [OF w _ that] by simp
qed

lemma fresh_inv:
  assumes o: "object_ok ctx ps" and c: "line_array (line_count ctx ps) 8 1 c" and w: "line_array (line_count ctx ps) 64 0 w"
    and f: "line_array (line_count ctx ps) 64 0 f"
    and ps: "cacheLineUpdates ps = (c, NullNode)" "pendingCacheLineUpdates ps = (c, NullNode)" "rootCauseWrites ps = (w, NullNode)"
      "pendingRootCauseWrites ps = (w, NullNode)" "rootCauseFlushes ps = (f, NullNode)" "pendingRootCauseFlushes ps = (f, NullNode)"
  shows "ps_inv ctx m ps"
proof -
  have "isSymbolicArray (idx_array ps)" using o by (simp add: object_ok_def idx_ok_def)
  note a = line_array_ok [OF c this] line_array_ok [OF w this] line_array_ok [OF f this]
  have "lists_ok (line_count ctx ps) m ps" using a(1,2,4,5,7,8) by (simp add: lists_ok_def ps)
  moreover have "heads_agree ps" by (simp add: heads_agree_def ps)
  moreover have "lists_agree \<sigma> ps l" if "l < line_count ctx ps" for \<sigma> l using a(3,6) that by (simp add: lists_agree_def ps)
  ultimately show ?thesis using o by (simp add: ps_inv_def)
qed

lemma lines_bounds:
  assumes "0 < cacheAlignment mm" "0 < n" "n < 2 ^ 32"
  shows "0 < getSizeInCacheLines mm n" "getSizeInCacheLines mm n \<le> 2 ^ 32"
proof -
  show "0 < getSizeInCacheLines mm n" using offset_in_lines [OF assms(1,2)] by simp
  have "getSizeInCacheLines mm n \<le> n"
    unfolding getSizeInCacheLines_least [OF assms(1)] by (rule Least_le) (use assms(1) in \<open>cases "cacheAlignment mm"; simp\<close>)
  then show "getSizeInCacheLines mm n \<le> 2 ^ 32" using assms(3) by simp
qed

lemma lineArray_ok:
  assumes "0 < n" "n \<le> 2 ^ 32" "0 < r" "in_width r c" "mo_name mo @ suffix \<notin> set (x_arrayNames x)"
  shows "\<exists>a h'. lineArray mo suffix n (APInt r c) r (h, x) = Some ((a, NullNode), h', x\<lparr>x_arrayNames := (mo_name mo @ suffix) # x_arrayNames x\<rparr>) \<and>
    line_array n r c a \<and> cachedSymbolicArrays (arrays h') = cachedSymbolicArrays (arrays h)"
proof -
  obtain n' where "n = Suc n'" using assms(1) by (cases n) simp_all
  then show ?thesis using assms
    by (auto simp: lineArray_def getUniqueArrayName_def CreateArray_def Array_create_def isSymbolicArray_def assert_that_def Let_def line_array_def)
qed

definition new_names :: "mobj \<Rightarrow> string list" where
  "new_names mo = map ((@) (mo_name mo)) [''_idx'', ''_rootCauseFlushes'', ''_rootCauseWrites'', ''_cacheLines'']"

lemma idx_created:
  assumes "(name, 1) \<notin> (\<lambda>b. (arr_name b, arr_size b)) ` set (cachedSymbolicArrays c)"
  shows "\<exists>a c'. CreateArray c name 1 [] 32 32 = Some (a, c') \<and> isSymbolicArray a \<and> arr_size a = 1 \<and> arr_domain a = 32 \<and> arr_range a = 32"
proof -
  let ?a = "\<lparr>arr_ptr = next_ptr c, arr_name = name, arr_size = 1, arr_domain = 32, arr_range = 32, constantValues = []\<rparr>"
  have "find (EquivArrayCmpFn ?a) (cachedSymbolicArrays c) = None" using assms by (simp add: find_equiv_None)
  then show ?thesis by (simp add: CreateArray_def Array_create_def isSymbolicArray_def assert_that_def)
qed

definition new_pstate :: "objstate \<Rightarrow> mobj \<Rightarrow> array \<Rightarrow> array \<Rightarrow> array \<Rightarrow> array \<Rightarrow> pstate" where
  "new_pstate os mo c w f ia = \<lparr>ps_os = os, ps_object = mo, cacheLineUpdates = (c, NullNode), pendingCacheLineUpdates = (c, NullNode),
    idxUnbounded = ReadExpr ia NullNode (ConstantExpr (APInt 32 0)), rootCauseWrites = (w, NullNode), pendingRootCauseWrites = (w, NullNode),
    rootCauseFlushes = (f, NullNode), pendingRootCauseFlushes = (f, NullNode), rootCauseWidth = 64, ignoreBytes = []\<rparr>"

definition idx_like :: "array \<Rightarrow> bool" where
  "idx_like a \<longleftrightarrow> isSymbolicArray a \<and> arr_size a = 1 \<and> arr_domain a = 32 \<and> arr_range a = 32"

lemma PersistentState_new_runs:
  assumes n: "0 < getSizeInCacheLines (pc_parent ctx) (mo_size mo)" "getSizeInCacheLines (pc_parent ctx) (mo_size mo) \<le> 2 ^ 32"
    and os: "ObjectState_clone os = Some os'" and cao: "\<not> pc_cao ctx" and names: "set (new_names mo) \<inter> set (x_arrayNames x) = {}"
      "(mo_name mo @ ''_idx'', 1) \<notin> (\<lambda>b. (arr_name b, arr_size b)) ` set (cachedSymbolicArrays (arrays h))"
  defines "n \<equiv> getSizeInCacheLines (pc_parent ctx) (mo_size mo)"
  shows "\<exists>c w f ia h'. PersistentState_new ctx mo os (h, x) =
      Some (new_pstate os' mo c w f ia, h', x\<lparr>x_arrayNames := new_names mo @ x_arrayNames x\<rparr>) \<and>
    line_array n 8 1 c \<and> line_array n 64 0 w \<and> line_array n 64 0 f \<and> idx_like ia"
proof -
  have iw: "in_width 8 (1::int)" "in_width 64 (0::int)" by (simp_all add: in_width_def)
  let ?x = "\<lambda>k. x\<lparr>x_arrayNames := rev (take k (rev (new_names mo))) @ x_arrayNames x\<rparr>"
  have nm: "mo_name mo @ ''_cacheLines'' \<notin> set (x_arrayNames (?x 0))" "mo_name mo @ ''_rootCauseWrites'' \<notin> set (x_arrayNames (?x 1))"
    "mo_name mo @ ''_rootCauseFlushes'' \<notin> set (x_arrayNames (?x 2))" "mo_name mo @ ''_idx'' \<notin> set (x_arrayNames (?x 3))"
    using names(1) by (auto simp: new_names_def)
  note la = lineArray_ok [OF n [folded n_def]]
  obtain c h1 where c: "lineArray mo ''_cacheLines'' n (APInt 8 1) 8 (h, ?x 0) = Some ((c, NullNode), h1, ?x 1)" "line_array n 8 1 c"
    "cachedSymbolicArrays (arrays h1) = cachedSymbolicArrays (arrays h)" using la [OF _ iw(1) nm(1), of h] by (auto simp: new_names_def)
  obtain w h2 where w: "lineArray mo ''_rootCauseWrites'' n (APInt 64 0) 64 (h1, ?x 1) = Some ((w, NullNode), h2, ?x 2)" "line_array n 64 0 w"
    "cachedSymbolicArrays (arrays h2) = cachedSymbolicArrays (arrays h)" using la [OF _ iw(2) nm(2), of h1] c(3) by (auto simp: new_names_def)
  obtain f h3 where f: "lineArray mo ''_rootCauseFlushes'' n (APInt 64 0) 64 (h2, ?x 2) = Some ((f, NullNode), h3, ?x 3)" "line_array n 64 0 f"
    "cachedSymbolicArrays (arrays h3) = cachedSymbolicArrays (arrays h)" using la [OF _ iw(2) nm(3), of h2] w(3) by (auto simp: new_names_def)
  obtain ia c' where ia: "CreateArray (arrays h3) (mo_name mo @ ''_idx'') 1 [] 32 32 = Some (ia, c')" "idx_like ia"
    using idx_created [of "mo_name mo @ ''_idx''" "arrays h3"] names(2) f(3) by (auto simp: idx_like_def)
  have u: "getUniqueArrayName mo ''_idx'' (?x 3) = Some (mo_name mo @ ''_idx'', ?x 4)"
    using nm(4) by (simp add: getUniqueArrayName_def assert_that_def new_names_def Let_def)
  have z: "ConstantExpr_create 0 32 = Some (APInt 32 0)" using const_create_ok(1) [of 32 0] by simp
  have rd: "ReadExpr_create False (ia, NullNode) (ConstantExpr (APInt 32 0)) = Some (ReadExpr ia NullNode (ConstantExpr (APInt 32 0)))"
    using ia(2) by (simp add: idx_like_def ReadExpr_create_def isSymbolicArray_def isConstantArray_def assert_that_def)
  have "PersistentState_new ctx mo os (h, x) = Some (new_pstate os' mo c w f ia, h3\<lparr>arrays := c'\<rparr>, ?x 4)"
    using os c(1) w(1) f(1) u ia z rd cao
    by (simp add: PersistentState_new_def getPersistedExpr_def getNullptr_def new_pstate_def idx_like_def n_def)
  moreover have "?x 4 = x\<lparr>x_arrayNames := new_names mo @ x_arrayNames x\<rparr>" by (simp add: new_names_def)
  ultimately show ?thesis using c(2) w(2) f(2) ia(2) by auto
qed

text \<open>
  C20. A new persistent object is created without a failed assertion if its array names are new: it has
  the contents of the object it is made from, every cache line is persisted with no root cause, its
  invariant holds, and no constraint or root cause of the execution state changes.
\<close>

theorem new_object_clean:
  assumes os: "obj_inv os" "os_size os = mo_size mo" "\<not> readOnly os" and mo: "wf_mobj (pc_pointerWidth ctx) mo" "0 < mo_size mo"
    and line: "0 < cacheLineSize ctx" "cacheLineSize ctx < 2 ^ 32" and cao: "\<not> pc_cao ctx"
    and names: "set (new_names mo) \<inter> set (x_arrayNames x) = {}"
      "(mo_name mo @ ''_idx'', 1) \<notin> (\<lambda>b. (arr_name b, arr_size b)) ` set (cachedSymbolicArrays (arrays h))"
  shows "ok (PersistentState_new ctx mo os (h, x)) (\<lambda>(ps, h', x'). ps_inv ctx m ps \<and> pm_clean (ctx, ps, x') \<and> ignoreBytes ps = [] \<and>
    ps_object ps = mo \<and> same_bytes os (ps_os ps) \<and> x' = x\<lparr>x_arrayNames := new_names mo @ x_arrayNames x\<rparr> \<and>
    all_persisted ctx (x_constraints x) ps)"
proof -
  have ca: "0 < cacheAlignment (pc_parent ctx)" using line(1) by (simp add: cacheLineSize_def)
  have "mo_size mo < 2 ^ 32" using mo(1) by (simp add: wf_mobj_def)
  note n = lines_bounds [OF ca mo(2) this]
  from ObjectState_clone_ok [OF os(1,3)] obtain os' where os': "ObjectState_clone os = Some os'" "obj_inv os'" "same_bytes os os'"
    by (elim okE) blast
  from PersistentState_new_runs [OF n os'(1) cao names] obtain c w f ia h' where
    r: "PersistentState_new ctx mo os (h, x) = Some (new_pstate os' mo c w f ia, h', x\<lparr>x_arrayNames := new_names mo @ x_arrayNames x\<rparr>)"
      and a: "line_array (getSizeInCacheLines (pc_parent ctx) (mo_size mo)) 8 1 c" "line_array (getSizeInCacheLines (pc_parent ctx) (mo_size mo)) 64 0 w"
        "line_array (getSizeInCacheLines (pc_parent ctx) (mo_size mo)) 64 0 f" "idx_like ia" by blast
  define ps where "ps = new_pstate os' mo c w f ia"
  have "os_size os' = mo_size mo" using os'(3) os(2) by (simp add: same_bytes_def)
  then have o: "object_ok ctx ps" using line mo os'(2) a(4)
    by (simp add: object_ok_def idx_ok_def idx_array_def idx_like_def ps_def new_pstate_def)
  have "ps_inv ctx m ps" by (rule fresh_inv [OF o, of c w f]) (use a in \<open>simp_all add: ps_def new_pstate_def line_count_def\<close>)
  moreover have "all_persisted ctx (x_constraints x) ps"
    using line_array_ok(3) [OF a(1), of ia] a(4) by (simp add: all_persisted_def ps_def new_pstate_def line_count_def idx_like_def)
  ultimately show ?thesis using r os'(3) by (simp add: pm_clean_def ps_def new_pstate_def)
qed

section \<open>Runs\<close>

lemma all_persisted_now: "all_persisted ctx (x_constraints x) ps \<longleftrightarrow>
    (\<forall>\<sigma> l. pm_admits (ctx, ps, x) \<sigma> \<longrightarrow> l < pm_lines (ctx, ps, x) \<longrightarrow> pm_now (ctx, ps, x) \<sigma> l)"
  by (auto simp: all_persisted_def)

lemma clean_run:
  assumes "pm_inv s" "pm_clean s" "\<forall>a \<in> set as. pm_at_ok s a" "pm_room s (length as + n)"
  obtains ctx ps x where "foldM pm_step as s = Some (ctx, ps, x)" "pm_inv (ctx, ps, x)" "pm_room (ctx, ps, x) n"
    "pm_lines (ctx, ps, x) = pm_lines s" "pm_admits (ctx, ps, x) = pm_admits s" "pm_at_ok (ctx, ps, x) = pm_at_ok s"
    "pm_at_event (ctx, ps, x) = pm_at_event s"
    "\<And>\<sigma> l. pm_admits s \<sigma> \<Longrightarrow> l < pm_lines s \<Longrightarrow> pm_now (ctx, ps, x) \<sigma> l \<longleftrightarrow> durable (map (pm_at_event s \<sigma>) as) l"
    "\<And>\<sigma> l. pm_admits s \<sigma> \<Longrightarrow> l < pm_lines s \<Longrightarrow> pm_soon (ctx, ps, x) \<sigma> l \<longleftrightarrow> scheduled (map (pm_at_event s \<sigma>) as) l"
proof -
  have "ok (foldM pm_step as s) (\<lambda>s'. pm_inv s' \<and> pm_room s' n \<and> pm_lines s' = pm_lines s \<and> pm_admits s' = pm_admits s \<and>
      pm_at_ok s' = pm_at_ok s \<and> pm_at_event s' = pm_at_event s \<and> (\<forall>\<sigma> l. pm_admits s \<sigma> \<longrightarrow> l < pm_lines s \<longrightarrow>
      (pm_now s' \<sigma> l \<longleftrightarrow> durable (map (pm_at_event s \<sigma>) as) l) \<and> (pm_soon s' \<sigma> l \<longleftrightarrow> scheduled (map (pm_at_event s \<sigma>) as) l)))"
    by (rule pm.run_durable [OF assms(1,3,4)]) (rule clean_lines [OF assms(1,2)])
  then obtain s' where "foldM pm_step as s = Some s'" and s': "pm_inv s'" "pm_room s' n" "pm_lines s' = pm_lines s" "pm_admits s' = pm_admits s"
      "pm_at_ok s' = pm_at_ok s" "pm_at_event s' = pm_at_event s"
      "\<And>\<sigma> l. pm_admits s \<sigma> \<Longrightarrow> l < pm_lines s \<Longrightarrow> pm_now s' \<sigma> l \<longleftrightarrow> durable (map (pm_at_event s \<sigma>) as) l"
      "\<And>\<sigma> l. pm_admits s \<sigma> \<Longrightarrow> l < pm_lines s \<Longrightarrow> pm_soon s' \<sigma> l \<longleftrightarrow> scheduled (map (pm_at_event s \<sigma>) as) l"
    by (elim okE) blast
  then show thesis by (cases s') (rule that, simp_all only:)
qed

lemma check_ok:
  assumes "pm_inv (ctx, ps, x)" "pm_room (ctx, ps, x) 0"
  shows "ok (markPersistenceErrors ctx (ps, x)) (\<lambda>(errs, x'). \<exists>m'. x' = x\<lparr>x_rootCauseMgr := m'\<rparr> \<and> mgr_ok m' \<and> distinct errs \<and>
    set errs = unpersisted_writes ctx (x_constraints x) ps \<and> set errs \<subseteq> set (buggyIds m') \<and>
    (errs = [] \<longleftrightarrow> all_persisted ctx (x_constraints x) ps))"
  by (rule markPersistenceErrors_ok) (use assms in \<open>simp_all add: Let_def\<close>)




text \<open>A flush of each cache line, and a fence.\<close>

definition flush_lines :: "exec_view \<Rightarrow> nat \<Rightarrow> pm_state \<Rightarrow> pm_at list" where
  "flush_lines v pc s = map (\<lambda>l. (v, pc, FlushAt (const32 (l * cacheLineSize (fst s))))) [0..<pm_lines s] @ [(v, pc, Fence)]"

lemma flush_lines_ok:
  assumes "pm_inv s" "seed_ok (pc_hash_str (fst s)) (pc_hash_int (fst s)) v"
  shows "\<forall>a \<in> set (flush_lines v pc s). pm_at_ok s a" "map (pm_at_event s \<sigma>) (flush_lines v pc s) = map EFlush [0..<pm_lines s] @ [EFence]"
proof -
  obtain ctx ps x where s: "s = (ctx, ps, x)" using prod_cases3 by blast
  have o: "object_ok ctx ps" using assms(1) by (simp add: s ps_inv_def)
  have "offset_in ctx ps cs (const32 (l * cacheLineSize ctx)) \<and> line_at ctx \<sigma> (const32 (l * cacheLineSize ctx)) = l"
    if "l < line_count ctx ps" for l cs \<sigma>
    using const_offset_in [OF o line_start [OF o that]] o by (simp add: object_ok_def)
  then show "\<forall>a \<in> set (flush_lines v pc s). pm_at_ok s a" "map (pm_at_event s \<sigma>) (flush_lines v pc s) = map EFlush [0..<pm_lines s] @ [EFence]"
    using assms(2) by (auto simp: flush_lines_def s)
qed


section \<open>Fences\<close>

text \<open>How many flushes wait for a fence.\<close>

definition pending_flushes :: "pstate \<Rightarrow> int" where
  "pending_flushes ps = int (UpdateList_getSize (pendingCacheLineUpdates ps)) - int (UpdateList_getSize (cacheLineUpdates ps))"

lemma extend_size: "UpdateList_extend ul i v = Some u \<Longrightarrow> UpdateList_getSize u = Suc (UpdateList_getSize ul)"
  by (auto simp: UpdateList_extend_def UpdateList_getSize_def split: bind_splits)

lemma dirty_count: "dirtyCacheLineAtOffset ctx off (ps, x) = Some (ps', x') \<Longrightarrow> pending_flushes ps' = pending_flushes ps"
  by (auto simp: dirtyCacheLineAtOffset_def recordWrite_def pending_flushes_def dest!: extend_size split: bind_splits if_splits)

lemma flush_count:
  "executePersistentMemoryFlush ctx off (ps, x) = Some (r, ps', x') \<Longrightarrow> pending_flushes ps' = pending_flushes ps + of_bool (r = None)"
  by (auto simp: executePersistentMemoryFlush_def persistCacheLineAtOffset_def recordFlush_def pending_flushes_def Let_def
      dest!: extend_size split: bind_splits if_splits)

lemma write_count:
  "PersistentState_write8_byte ctx offset b s = Some s' \<Longrightarrow> pending_flushes (fst s') = pending_flushes (fst s)"
  "PersistentState_write8 ctx offset v s = Some s' \<Longrightarrow> pending_flushes (fst s') = pending_flushes (fst s)"
  "PersistentState_write8_sym ctx off v s = Some s' \<Longrightarrow> pending_flushes (fst s') = pending_flushes (fst s)"
proof -
  have os: "pending_flushes (ps\<lparr>ps_os := os\<rparr>) = pending_flushes ps" for ps os by (simp add: pending_flushes_def)
  show wb: "pending_flushes (fst s') = pending_flushes (fst s)" if "PersistentState_write8_byte ctx offset b s = Some s'" for b s s'
    using that by (cases s; cases s') (auto simp: PersistentState_write8_byte_def os dest!: dirty_count split: bind_splits)
  show "pending_flushes (fst s') = pending_flushes (fst s)" if w: "PersistentState_write8 ctx offset v s = Some s'"
  proof (cases "as_const v")
    case None
    then show ?thesis using w by (cases s; cases s') (auto simp: PersistentState_write8_def os dest!: dirty_count split: bind_splits)
  next
    case (Some CE)
    then obtain b s1 where s1: "PersistentState_write8_byte ctx offset b s = Some s1" "dirtyCacheLineAtOffset ctx (const32 offset) s1 = Some s'"
      using w by (auto simp: PersistentState_write8_def split: bind_splits)
    have "pending_flushes (fst s') = pending_flushes (fst s1)" using s1(2) dirty_count by (cases s1; cases s') auto
    then show ?thesis using wb [OF s1(1)] by simp
  qed
  show "pending_flushes (fst s') = pending_flushes (fst s)" if "PersistentState_write8_sym ctx off v s = Some s'"
    using that by (cases s; cases s') (auto simp: PersistentState_write8_sym_def os dest!: dirty_count split: bind_splits)
qed

lemma fence_count: "pending_flushes (snd (commitPendingPersists ps)) = 0"
  by (simp add: commitPendingPersists_def pending_flushes_def Let_def)



section \<open>Operations that do not do what they are for\<close>

lemma removeIgnoreByte_shorter:
  "removeIgnoreByte ctx x off ps = Some ps' \<Longrightarrow> length (ignoreBytes ps') < length (ignoreBytes ps)"
  by (auto simp: removeIgnoreByte_def Let_def split: bind_splits)

text \<open>
  C33. Removing ignored bytes never returns, whatever the list of ignored bytes and the width: the loop
  counts an unsigned number down to zero and beyond, until it takes a byte from the empty list or an assertion
  fails.
\<close>

theorem remove_ignored_never_returns: "removeIgnoreOffset ctx x offset width ps = None"
proof -
  have "removeIgnore_loop ctx x offset byte ps = None" for byte
  proof (induction "length (ignoreBytes ps)" arbitrary: byte ps rule: less_induct)
    case less
    then show ?case
      by (subst removeIgnore_loop.simps) (auto dest!: removeIgnoreByte_shorter split: bind_splits)
  qed
  then show ?thesis by (simp add: removeIgnoreOffset_def)
qed

text \<open>
  C32. A write can be missed after \<^verbatim>\<open>flushAll\<close>: if the last recorded update of the object was a write to the
  same line, a new write to it after \<^verbatim>\<open>flushAll\<close> is not recorded, and every line is
  then taken for persisted.
\<close>

theorem flushAll_hides_write:
  assumes "isUpdateListHeadEqualTo (pendingCacheLineUpdates ps) cl (ConstantExpr getDirtyExpr)"
    "recordWrite cl rc (fst (flushAll (ps, x))) = Some ps'"
  shows "isCacheLinePersisted ctx ps' cl' False = Some (ConstantExpr (APInt 1 1))"
proof -
  have "cacheLineUpdates ps' = (fst (cacheLineUpdates ps), NullNode)"
    using assms by (auto simp: flushAll_def recordWrite_def split: bind_splits)
  then show ?thesis using const_create_ok(1) [of 1 1] by (simp add: isCacheLinePersisted_def Let_def)
qed

section \<open>An object of four lines\<close>

definition demo_pctx :: pctx where
  "demo_pctx = \<lparr>pc_solver = demo_ts\<lparr>simplifyExprs := False\<rparr>, pc_pointerWidth = 64, pc_parent = demo_mm, pc_hash_str = (\<lambda>_. 1),
     pc_hash_int = (\<lambda>i. i)\<rparr>"

definition demo_pmo :: mobj where
  "demo_pmo = MemoryObject 0 8192 256 False False False 0"

definition demo_line_array :: "width \<Rightarrow> int \<Rightarrow> array" where
  "demo_line_array r c = \<lparr>arr_ptr = 8, arr_name = ''unnamed_lines'', arr_size = 4, arr_domain = 32, arr_range = r,
     constantValues = replicate 4 (APInt r c)\<rparr>"

definition demo_idx_array :: array where
  "demo_idx_array = \<lparr>arr_ptr = 9, arr_name = ''unnamed_idx'', arr_size = 1, arr_domain = 32, arr_range = 32, constantValues = []\<rparr>"

definition demo_ps :: pstate where
  "demo_ps = new_pstate demo_object demo_pmo (demo_line_array 8 1) (demo_line_array 64 0) (demo_line_array 64 0) demo_idx_array"

definition demo_x :: xstate where
  "demo_x = \<lparr>x_constraints = [], x_arrayNames = [], x_prevPC = 0, x_view = demo_view, x_rootCauseMgr = RootCauseManager_new\<rparr>"

definition demo_pm :: pm_state where
  "demo_pm = (demo_pctx, demo_ps, demo_x)"

lemma demo_lines [simp]: "line_count demo_pctx demo_ps = 4" "cacheLineSize demo_pctx = 64" "mo_size (ps_object demo_ps) = 256"
  by (simp_all add: line_count_def getSizeInCacheLines_def demo_pctx_def demo_mm_def demo_ps_def new_pstate_def demo_pmo_def MemoryObject_def
      cacheLineSize_def)

lemma demo_ps_inv: "ps_inv demo_pctx m demo_ps"
proof -
  have "idx_ok demo_ps" by (simp add: idx_ok_def idx_array_def demo_ps_def new_pstate_def demo_idx_array_def isSymbolicArray_def)
  then have o: "object_ok demo_pctx demo_ps"
    using demo_object_inv by (simp add: object_ok_def) (simp add: demo_pctx_def demo_ps_def new_pstate_def demo_pmo_def MemoryObject_def wf_mobj_def)
  have "line_array 4 8 1 (demo_line_array 8 1)" "line_array 4 64 0 (demo_line_array 64 0)"
    by (simp_all add: line_array_def demo_line_array_def in_width_def)
  then show ?thesis by (intro fresh_inv [OF o, of "demo_line_array 8 1" "demo_line_array 64 0" "demo_line_array 64 0"])
    (simp_all, simp_all add: demo_ps_def new_pstate_def)
qed

lemma demo_mgr: "mgr_ok RootCauseManager_new"
  using rcm_inv_new by (simp add: mgr_ok_def ids_valid_def known_ids_def RootCauseManager_new_def)

lemma demo_state: "state_ok demo_pctx demo_ps []"
proof -
  have "wf_env (\<lambda>_ _. 0)" by (simp add: wf_env_def in_width_def)
  then show ?thesis using ref.complete_solver_axioms
    by (auto simp: state_ok_def solver_ok_def demo_pctx_def demo_ts_def wf_constraints_def feasible_def holds_def)
qed

lemma demo_pm_ok: "pm_inv demo_pm" "pm_clean demo_pm" "n < 1000 \<Longrightarrow> pm_room demo_pm n" "pm_lines demo_pm = 4"
  "seed_ok (pc_hash_str (fst demo_pm)) (pc_hash_int (fst demo_pm)) demo_view"
proof -
  show "pm_inv demo_pm" using demo_ps_inv demo_mgr demo_state by (simp add: demo_pm_def demo_x_def) (simp add: demo_ps_def new_pstate_def)
  show "pm_clean demo_pm" by (simp add: pm_clean_def demo_pm_def demo_ps_def new_pstate_def)
  show "pm_room demo_pm n" if n: "n < 1000"
  proof -
    have "n * (2 * n + 3) \<le> 1000 * 2003" "2 * n * (2 * n + 1) \<le> 2000 * 2001" using n by (intro mult_le_mono; simp)+
    then show ?thesis by (simp add: demo_pm_def demo_x_def RootCauseManager_new_def Let_def)
  qed
  show "pm_lines demo_pm = 4" by (simp add: demo_pm_def)
  show "seed_ok (pc_hash_str (fst demo_pm)) (pc_hash_int (fst demo_pm)) demo_view"
    by (simp add: seed_ok_def id_seed_def demo_pm_def demo_pctx_def demo_view_def)
qed

lemma demo_at:
  "pm_at_ok demo_pm (demo_view, pc, WriteByte 0 (demo_const 7))" "pm_at_ok demo_pm (demo_view, pc, FlushAt (const32 0))"
  "pm_at_ok demo_pm (demo_view, pc, Fence)" "pm_admits demo_pm (\<lambda>_ _. 0)"
  "pm_at_event demo_pm \<sigma> (demo_view, pc, WriteByte 0 (demo_const 7)) = EStore 0"
  "pm_at_event demo_pm \<sigma> (demo_view, pc, FlushAt (const32 0)) = EFlush 0" "pm_at_event demo_pm \<sigma> (demo_view, pc, Fence) = EFence"
proof -
  have o: "object_ok demo_pctx demo_ps" using demo_ps_inv by (simp add: ps_inv_def)
  note c = const_offset_in [OF o, of 0]
  show "pm_at_ok demo_pm (demo_view, pc, WriteByte 0 (demo_const 7))" "pm_at_ok demo_pm (demo_view, pc, FlushAt (const32 0))"
    "pm_at_ok demo_pm (demo_view, pc, Fence)"
    using demo_pm_ok(5) c(1) by (simp_all add: demo_pm_def demo_const_def wf_ap_def in_width_def)
  show "pm_admits demo_pm (\<lambda>_ _. 0)" by (simp add: demo_pm_def demo_x_def holds_def wf_env_def in_width_def)
  show "pm_at_event demo_pm \<sigma> (demo_view, pc, WriteByte 0 (demo_const 7)) = EStore 0"
    "pm_at_event demo_pm \<sigma> (demo_view, pc, FlushAt (const32 0)) = EFlush 0" "pm_at_event demo_pm \<sigma> (demo_view, pc, Fence) = EFence"
    using c(2) by (simp_all add: demo_pm_def)
qed






theorem new_object_clean_witness:
  "ok (PersistentState_new demo_pctx demo_pmo demo_object (demo_heap, demo_x)) (\<lambda>(ps, h', x'). ps_inv demo_pctx RootCauseManager_new ps \<and>
    all_persisted demo_pctx [] ps \<and> x_arrayNames x' = new_names demo_pmo)"
proof -
  have "wf_mobj (pc_pointerWidth demo_pctx) demo_pmo" "mo_size demo_pmo = 256" "\<not> readOnly demo_object" "\<not> pc_cao demo_pctx"
    by (simp_all add: demo_pctx_def demo_pmo_def MemoryObject_def wf_mobj_def demo_object_def demo_ts_def)
  then have "ok (PersistentState_new demo_pctx demo_pmo demo_object (demo_heap, demo_x)) (\<lambda>(ps, h', x'). ps_inv demo_pctx RootCauseManager_new ps \<and>
      pm_clean (demo_pctx, ps, x') \<and> ignoreBytes ps = [] \<and> ps_object ps = demo_pmo \<and> same_bytes demo_object (ps_os ps) \<and>
      x' = demo_x\<lparr>x_arrayNames := new_names demo_pmo @ x_arrayNames demo_x\<rparr> \<and> all_persisted demo_pctx (x_constraints demo_x) ps)"
    using demo_object_inv by (intro new_object_clean) (simp_all add: demo_x_def demo_heap_def empty_cache_def)
  then show ?thesis by (rule ok_mono) (auto simp: demo_x_def)
qed

definition demo_written :: pstate where
  "demo_written = demo_ps\<lparr>cacheLineUpdates := put (const32 0) getDirtyExpr (cacheLineUpdates demo_ps),
     pendingCacheLineUpdates := put (const32 0) getDirtyExpr (pendingCacheLineUpdates demo_ps)\<rparr>"

theorem flushAll_hides_write_witness:
  "\<exists>ps'. recordWrite (const32 0) (APInt 64 5) (fst (flushAll (demo_written, demo_x))) = Some ps' \<and>
    isCacheLinePersisted demo_pctx ps' (const32 0) False = Some (ConstantExpr (APInt 1 1))"
proof -
  have h: "isUpdateListHeadEqualTo (pendingCacheLineUpdates demo_written) (const32 0) (ConstantExpr getDirtyExpr)"
    by (simp add: demo_written_def head_put)
  have "\<exists>ps'. recordWrite (const32 0) (APInt 64 5) (fst (flushAll (demo_written, demo_x))) = Some ps'"
    using h by (simp add: recordWrite_def flushAll_def UpdateList_extend_def assert_that_def)
      (simp add: demo_written_def demo_ps_def new_pstate_def demo_line_array_def)
  then show ?thesis using flushAll_hides_write [OF h, of "APInt 64 5" demo_x _ demo_pctx "const32 0"] by auto
qed


end
